(* ===== verification/Ax_Prelude.thy ===== *)
theory Ax_Prelude
  imports Main "HOL-Library.Word"
begin

text \<open>
  Shared vocabulary of the AxVM development: the machine integers of the Rust source, the ways in
  which a Rust computation can fail to return a value (a panic, undefined behaviour, an endless
  loop), the overflow behaviour of integer arithmetic in the two build profiles, little-endian
  byte encodings, byte slices of a flat memory, and the number formats used in error messages.

  \<^item> \<open>'a exec\<close> is a straight-line computation: it is \<open>Done\<close> with a value or it is an \<open>Abort\<close>.
  \<^item> \<open>'a run\<close> is a computation with loops: \<open>None\<close> means that it never returns.
  \<^item> The boolean \<open>oc\<close> that many definitions take is the \<open>overflow-checks\<close> setting of the build:
    \<open>True\<close> in a debug build (an overflow panics), \<open>False\<close> in a release build (it wraps).
\<close>

unbundle bit_operations_syntax

section \<open>Types\<close>

type_synonym u8 = "8 word"
type_synonym u16 = "16 word"
type_synonym u32 = "32 word"
type_synonym u64 = "64 word"
type_synonym usize = "64 word"
type_synonym bytes = "8 word list"

text \<open>A Rust \<open>Result<T, String>\<close>: \<open>Inl\<close> carries the message of the error.\<close>

type_synonym 'a result = "string + 'a"

datatype abort =
    Arith_Overflow
  | Div_By_Zero
  | Slice_Index
  | Unwrap_Failed
  | Undefined_Behaviour

datatype 'a exec = Abort abort | Done 'a

type_synonym 'a run = "'a exec option"

named_theorems byte_codec \<open>encoding and decoding of little-endian integers\<close>
named_theorems mem_frame \<open>what a memory update leaves alone\<close>
named_theorems inv_intros \<open>preservation of the component invariants\<close>

section \<open>Sequencing\<close>

fun exec_bind :: "'a exec \<Rightarrow> ('a \<Rightarrow> 'b exec) \<Rightarrow> 'b exec" where
  "exec_bind (Abort e) f = Abort e"
| "exec_bind (Done x) f = f x"

text \<open>The \<open>?\<close> operator on a \<open>Result\<close> inside a straight-line computation.\<close>

definition try_bind :: "('e + 'a) exec \<Rightarrow> ('a \<Rightarrow> ('e + 'b) exec) \<Rightarrow> ('e + 'b) exec" where
  "try_bind m f = exec_bind m (\<lambda>r. case r of Inl e \<Rightarrow> Done (Inl e) | Inr x \<Rightarrow> f x)"

definition run_bind :: "'a run \<Rightarrow> ('a \<Rightarrow> 'b run) \<Rightarrow> 'b run" where
  "run_bind m f = (case m of None \<Rightarrow> None
     | Some (Abort e) \<Rightarrow> Some (Abort e)
     | Some (Done x) \<Rightarrow> f x)"

text \<open>\<open>map_err\<close> of a \<open>Result\<close>.\<close>

definition map_err :: "('e \<Rightarrow> 'f) \<Rightarrow> ('e + 'a) exec \<Rightarrow> ('f + 'a) exec" where
  "map_err g m = exec_bind m (\<lambda>r. case r of Inl e \<Rightarrow> Done (Inl (g e)) | Inr x \<Rightarrow> Done (Inr x))"

lemma exec_bind_eq_Done:
  "exec_bind m f = Done y \<longleftrightarrow> (\<exists>x. m = Done x \<and> f x = Done y)"
  by (cases m) auto

lemma exec_bind_DoneE [elim!]:
  assumes "exec_bind m f = Done y"
  obtains x where "m = Done x" and "f x = Done y"
  using assms by (cases m) auto

lemma exec_bind_cong [fundef_cong]:
  "m = m' \<Longrightarrow> (\<And>x. m' = Done x \<Longrightarrow> f x = f' x) \<Longrightarrow> exec_bind m f = exec_bind m' f'"
  by (cases m') auto

lemma try_bind_simps [simp]:
  "try_bind (Abort e) f = Abort e"
  "try_bind (Done (Inl s)) f = Done (Inl s)"
  "try_bind (Done (Inr x)) f = f x"
  by (simp_all add: try_bind_def)

text \<open>The three shapes of a fallible computation: an abort, an error, a value.\<close>

lemma exec_sum_cases [case_names Abort Inl Inr]:
  obtains e where "m = Abort e" | s where "m = Done (Inl s)" | x where "m = Done (Inr x)"
  by (cases m) (auto elim: sumE)

lemma try_bind_eq_Inr:
  "try_bind m f = Done (Inr y) \<longleftrightarrow> (\<exists>x. m = Done (Inr x) \<and> f x = Done (Inr y))"
  by (cases m rule: exec_sum_cases) auto

lemma try_bind_InrE [elim!]:
  assumes "try_bind m f = Done (Inr y)"
  obtains x where "m = Done (Inr x)" and "f x = Done (Inr y)"
  using assms by (auto simp: try_bind_eq_Inr)

lemma try_bind_eq_Inl:
  "try_bind m f = Done (Inl s) \<longleftrightarrow> m = Done (Inl s) \<or> (\<exists>x. m = Done (Inr x) \<and> f x = Done (Inl s))"
  by (cases m rule: exec_sum_cases) auto

lemma run_bind_simps [simp]:
  "run_bind None f = None"
  "run_bind (Some (Abort e)) f = Some (Abort e)"
  "run_bind (Some (Done x)) f = f x"
  by (simp_all add: run_bind_def)

lemma run_bind_eq_Done:
  "run_bind m f = Some (Done y) \<longleftrightarrow> (\<exists>x. m = Some (Done x) \<and> f x = Some (Done y))"
  by (auto simp: run_bind_def split: option.splits exec.splits)

lemma run_bind_DoneE [elim!]:
  assumes "run_bind m f = Some (Done y)"
  obtains x where "m = Some (Done x)" and "f x = Some (Done y)"
  using assms by (auto simp: run_bind_eq_Done)

lemma map_err_simps [simp]:
  "map_err g (Abort e) = Abort e"
  "map_err g (Done (Inl s)) = Done (Inl (g s))"
  "map_err g (Done (Inr x)) = Done (Inr x)"
  by (simp_all add: map_err_def)

lemma map_err_eq_Inr [simp]: "map_err g m = Done (Inr y) \<longleftrightarrow> m = Done (Inr y)"
  by (cases m rule: exec_sum_cases) auto

lemma map_err_eq_Abort [simp]: "map_err g m = Abort e \<longleftrightarrow> m = Abort e"
  by (cases m rule: exec_sum_cases) auto

section \<open>Loops\<close>

text \<open>
  A Rust \<open>loop\<close> or \<open>while\<close>: the body either continues with a new state (\<open>Inl\<close>) or leaves the loop
  with a result (\<open>Inr\<close>). The loop is \<open>None\<close> exactly when the iteration has no end.
\<close>

partial_function (option) exec_loop :: "('s \<Rightarrow> ('s + 'r) run) \<Rightarrow> 's \<Rightarrow> 'r run" where
  "exec_loop body s = (case body s of None \<Rightarrow> None
     | Some x \<Rightarrow> (case x of Abort e \<Rightarrow> Some (Abort e)
         | Done y \<Rightarrow> (case y of Inl s' \<Rightarrow> exec_loop body s' | Inr r \<Rightarrow> Some (Done r))))"

lemma exec_loop_Inl: "body s = Some (Done (Inl s')) \<Longrightarrow> exec_loop body s = exec_loop body s'"
  by (subst exec_loop.simps) simp

lemma exec_loop_Inr: "body s = Some (Done (Inr r)) \<Longrightarrow> exec_loop body s = Some (Done r)"
  by (subst exec_loop.simps) simp

lemma exec_loop_Abort: "body s = Some (Abort e) \<Longrightarrow> exec_loop body s = Some (Abort e)"
  by (subst exec_loop.simps) simp

lemma exec_loop_None: "body s = None \<Longrightarrow> exec_loop body s = None"
  by (subst exec_loop.simps) simp

lemmas exec_loop_step = exec_loop_Inl exec_loop_Inr exec_loop_Abort exec_loop_None

text \<open>Partial correctness: an invariant of the body that yields the postcondition on exit.\<close>

lemma exec_loop_invariant:
  assumes ret: "exec_loop body s = Some out" and start: "I s"
    and step: "\<And>s s'. I s \<Longrightarrow> body s = Some (Done (Inl s')) \<Longrightarrow> I s'"
    and leave: "\<And>s r. I s \<Longrightarrow> body s = Some (Done (Inr r)) \<Longrightarrow> Q (Done r)"
    and stop: "\<And>s e. I s \<Longrightarrow> body s = Some (Abort e) \<Longrightarrow> Q (Abort e)"
  shows "Q out"
proof -
  have "body = body \<longrightarrow> I s \<longrightarrow> Q out"
  proof (rule exec_loop.raw_induct [where P = "\<lambda>b s out. b = body \<longrightarrow> I s \<longrightarrow> Q out", OF _ ret])
    fix loop b t res
    assume IH: "\<And>b s out. loop b s = Some out \<Longrightarrow> b = body \<longrightarrow> I s \<longrightarrow> Q out"
      and eq: "(case b t of None \<Rightarrow> None | Some x \<Rightarrow> (case x of Abort e \<Rightarrow> Some (Abort e)
         | Done y \<Rightarrow> (case y of Inl s' \<Rightarrow> loop b s' | Inr r \<Rightarrow> Some (Done r)))) = Some res"
    show "b = body \<longrightarrow> I t \<longrightarrow> Q res"
    proof (intro impI)
      assume b: "b = body" and I: "I t"
      from eq b consider e where "body t = Some (Abort e)" "res = Abort e"
        | s' where "body t = Some (Done (Inl s'))" "loop body s' = Some res"
        | r where "body t = Some (Done (Inr r))" "res = Done r"
        by (cases "body t") (auto split: exec.splits sum.splits)
      then show "Q res"
        by cases (use I IH step leave stop in blast)+
    qed
  qed
  with start show ?thesis by simp
qed

text \<open>Total correctness: a measure that every continued iteration decreases.\<close>

text \<open>The same with a body that may abort: the loop returns or aborts, it does not diverge.\<close>

text \<open>Divergence: a set of states that the body never leaves.\<close>

lemma exec_loop_diverges:
  assumes start: "I s"
    and step: "\<And>s. I s \<Longrightarrow> \<exists>s'. body s = Some (Done (Inl s')) \<and> I s'"
  shows "exec_loop body s = None"
proof (cases "exec_loop body s")
  case (Some out)
  have False
  proof (rule exec_loop_invariant [where I = I and Q = "\<lambda>_. False", OF Some start])
    fix s s' assume "I s" "body s = Some (Done (Inl s'))"
    with step [of s] show "I s'" by auto
  qed (use step in fastforce)+
  then show ?thesis ..
qed

text \<open>
  The states of the successive iterations, and a bound on the iterations of a loop whose
  continuation is governed by a finite key: if such a loop survives as many iterations as there are
  keys, it has come back to a key and never ends.
\<close>

primrec loop_state :: "('s \<Rightarrow> ('s + 'r) run) \<Rightarrow> nat \<Rightarrow> 's \<Rightarrow> 's option" where
  "loop_state body 0 s = Some s"
| "loop_state body (Suc n) s = (case loop_state body n s of None \<Rightarrow> None
     | Some t \<Rightarrow> (case body t of Some (Done (Inl u)) \<Rightarrow> Some u | _ \<Rightarrow> None))"

lemma loop_state_prefix: "m \<le> n \<Longrightarrow> loop_state body n s \<noteq> None \<Longrightarrow> loop_state body m s \<noteq> None"
  by (induction n) (auto simp: le_Suc_eq split: option.splits)

lemma loop_state_add:
  "loop_state body (m + n) s = (case loop_state body m s of None \<Rightarrow> None
     | Some t \<Rightarrow> loop_state body n t)"
  by (induction n) (auto split: option.splits)

lemma loop_state_Suc_Some:
  "loop_state body (Suc n) s = Some u \<longleftrightarrow>
     (\<exists>t. loop_state body n s = Some t \<and> body t = Some (Done (Inl u)))"
  by (auto split: option.splits exec.splits sum.splits)

lemma loop_state_exec: "loop_state body n s = Some t \<Longrightarrow> exec_loop body s = exec_loop body t"
proof (induction n arbitrary: t)
  case (Suc n)
  then obtain v where "loop_state body n s = Some v" "body v = Some (Done (Inl t))"
    by (auto simp: loop_state_Suc_Some simp del: loop_state.simps)
  with Suc.IH show ?case by (simp add: exec_loop_Inl [where body = body])
qed simp

text \<open>A loop that makes a known number of iterations.\<close>

lemma exec_loop_counted:
  assumes start: "P 0 s"
    and step: "\<And>k s. k < n \<Longrightarrow> P k s \<Longrightarrow> \<exists>s'. body s = Some (Done (Inl s')) \<and> P (Suc k) s'"
    and leave: "\<And>s. P n s \<Longrightarrow> body s = Some (Done (Inr (r s)))"
  shows "\<exists>t. exec_loop body s = Some (Done (r t)) \<and> P n t"
proof -
  have "\<exists>t. loop_state body k s = Some t \<and> P k t" if "k \<le> n" for k
    using that
  proof (induction k)
    case (Suc k)
    then show ?case using step [of k] by (metis Suc_le_lessD less_imp_le loop_state_Suc_Some)
  qed (use start in simp)
  then obtain t where "loop_state body n s = Some t" "P n t" by blast
  then show ?thesis
    using loop_state_exec exec_loop_Inr [where body = body and s = t, OF leave] by metis
qed

lemma exec_loop_survives:
  assumes "\<And>n. loop_state body n s \<noteq> None"
  shows "exec_loop body s = None"
proof (rule exec_loop_diverges [where I = "\<lambda>t. \<exists>n. loop_state body n s = Some t"])
  show "\<exists>n. loop_state body n s = Some s" by (rule exI [of _ 0]) simp
next
  fix t assume "\<exists>n. loop_state body n s = Some t"
  then obtain n where n: "loop_state body n s = Some t" ..
  from assms [of "Suc n"] obtain u where "loop_state body (Suc n) s = Some u" by blast
  with n show "\<exists>s'. body t = Some (Done (Inl s')) \<and> (\<exists>n. loop_state body n s = Some s')"
    by (metis loop_state_Suc_Some option.inject)
qed

lemma exec_loop_ends:
  assumes "loop_state body n s = None" and "\<And>t. body t \<noteq> None"
  shows "exec_loop body s \<noteq> None"
proof -
  have "exec_loop body t \<noteq> None" if "loop_state body n t = None" for t
    using that
  proof (induction n arbitrary: t)
    case (Suc n)
    show ?case
    proof (cases "\<exists>u. body t = Some (Done (Inl u))")
      case True
      then obtain u where u: "body t = Some (Done (Inl u))" ..
      from Suc.prems u have "loop_state body n u = None"
        using loop_state_add [of body "Suc 0" n t] by simp
      with Suc.IH show ?thesis by (simp add: exec_loop_Inl [where body = body and s = t, OF u])
    next
      case False
      with assms(2) [of t] show ?thesis
        by (subst exec_loop.simps) (auto split: option.splits exec.splits sum.splits)
    qed
  qed simp
  with assms(1) show ?thesis by blast
qed

lemma loop_state_inv:
  assumes "\<And>t u. I t \<Longrightarrow> body t = Some (Done (Inl u)) \<Longrightarrow> I u" and "I s"
  shows "loop_state body n s = Some t \<Longrightarrow> I t"
proof (induction n arbitrary: t)
  case (Suc n)
  then obtain v where "loop_state body n s = Some v" "body v = Some (Done (Inl t))"
    by (auto simp: loop_state_Suc_Some simp del: loop_state.simps)
  with Suc.IH assms(1) show ?case by blast
qed (use assms(2) in simp)

lemma loop_state_sim:
  assumes inv: "\<And>t u. I t \<Longrightarrow> body t = Some (Done (Inl u)) \<Longrightarrow> I u"
    and key: "\<And>t u t'. I t \<Longrightarrow> I t' \<Longrightarrow> k t = k t' \<Longrightarrow> body t = Some (Done (Inl u)) \<Longrightarrow>
      \<exists>u'. body t' = Some (Done (Inl u')) \<and> k u' = k u"
  shows "I t \<Longrightarrow> I t' \<Longrightarrow> k t = k t' \<Longrightarrow> loop_state body n t = Some u \<Longrightarrow>
      \<exists>u'. loop_state body n t' = Some u' \<and> k u' = k u"
proof (induction n arbitrary: u)
  case (Suc n)
  from Suc.prems(4) obtain v where v: "loop_state body n t = Some v" "body v = Some (Done (Inl u))"
    by (auto simp: loop_state_Suc_Some simp del: loop_state.simps)
  from Suc.IH [OF Suc.prems(1-3) v(1)] obtain v' where v': "loop_state body n t' = Some v'" "k v' = k v"
    by blast
  have "I v" using inv Suc.prems(1) v(1) by (rule loop_state_inv)
  moreover have "I v'" using inv Suc.prems(2) v'(1) by (rule loop_state_inv)
  ultimately show ?case using key [of v v' u] v(2) v'
    by (metis loop_state_Suc_Some)
qed simp

text \<open>Among more states than keys, two share a key.\<close>

lemma key_collision:
  fixes g :: "nat \<Rightarrow> 'k::finite"
  obtains a b where "a < b" and "b \<le> CARD('k)" and "g a = g b"
proof -
  have "\<not> inj_on g {..CARD('k)}"
  proof
    assume "inj_on g {..CARD('k)}"
    then have "card {..CARD('k)} \<le> CARD('k)"
      by (rule card_inj_on_le) simp_all
    then show False by simp
  qed
  then obtain a b where "a \<le> CARD('k)" "b \<le> CARD('k)" "a \<noteq> b" "g a = g b"
    by (auto simp: inj_on_def)
  then show ?thesis using that by (metis linorder_neqE_nat)
qed

lemma loop_key_recurs:
  fixes k :: "'s \<Rightarrow> 'k::finite"
  assumes inv: "\<And>t u. I t \<Longrightarrow> body t = Some (Done (Inl u)) \<Longrightarrow> I u"
    and key: "\<And>t u t'. I t \<Longrightarrow> I t' \<Longrightarrow> k t = k t' \<Longrightarrow> body t = Some (Done (Inl u)) \<Longrightarrow>
      \<exists>u'. body t' = Some (Done (Inl u')) \<and> k u' = k u"
    and "I s" and long: "loop_state body CARD('k) s \<noteq> None"
  shows "loop_state body n s \<noteq> None"
proof -
  define st where "st i = the (loop_state body i s)" for i
  have st: "loop_state body i s = Some (st i)" if "i \<le> CARD('k)" for i
    using loop_state_prefix [OF that long] by (auto simp: st_def)
  obtain a b where ab: "a < b" "b \<le> CARD('k)" "k (st a) = k (st b)"
    by (rule key_collision [of "\<lambda>i. k (st i)"])
  have I_at: "I t" if "loop_state body i s = Some t" for i t
    using inv \<open>I s\<close> that by (rule loop_state_inv)
  have period: "loop_state body (b - a) (st a) = Some (st b)"
    using loop_state_add [of body a "b - a" s] st [of a] st [of b] ab by simp
  have "\<exists>u. loop_state body (a + j * (b - a)) s = Some u \<and> k u = k (st a)" for j
  proof (induction j)
    case 0
    show ?case using st [of a] ab by simp
  next
    case (Suc j)
    then obtain u where u: "loop_state body (a + j * (b - a)) s = Some u" "k u = k (st a)" by blast
    have "I (st a)" "I u" "k (st a) = k u" using I_at st [of a] u ab by auto
    with inv key have "\<exists>w. loop_state body (b - a) u = Some w \<and> k w = k (st b)"
      using period by (rule loop_state_sim)
    with ab(3) obtain w where "loop_state body (b - a) u = Some w" "k w = k (st a)" by auto
    moreover have "a + Suc j * (b - a) = a + j * (b - a) + (b - a)" by simp
    ultimately show ?case using u(1) by (simp only: loop_state_add option.case) blast
  qed
  then have "loop_state body (a + n * (b - a)) s \<noteq> None" by blast
  moreover have "n \<le> a + n * (b - a)" using mult_le_mono2 [of 1 "b - a" n] ab(1) by linarith
  ultimately show ?thesis by (rule loop_state_prefix [rotated])
qed

text \<open>The value of a computation under a function.\<close>

definition run_map :: "('a \<Rightarrow> 'b) \<Rightarrow> 'a run \<Rightarrow> 'b run" where
  "run_map f r = run_bind r (\<lambda>x. Some (Done (f x)))"

lemma run_map_simps [simp]:
  "run_map f None = None" "run_map f (Some (Abort e)) = Some (Abort e)"
  "run_map f (Some (Done x)) = Some (Done (f x))"
  by (simp_all add: run_map_def)

lemma run_map_eq_Some:
  "run_map f r = Some (Done y) \<longleftrightarrow> (\<exists>x. r = Some (Done x) \<and> y = f x)"
  "run_map f r = Some (Abort e) \<longleftrightarrow> r = Some (Abort e)"
  by (auto simp: run_map_def run_bind_def split: option.splits exec.splits)

text \<open>Induction on the iterations of a loop that returns, from the last one.\<close>

lemma exec_loop_induct [consumes 1, case_names leave abort step]:
  assumes "exec_loop body s = Some out"
    and "\<And>s r. body s = Some (Done (Inr r)) \<Longrightarrow> P s (Done r)"
    and "\<And>s e. body s = Some (Abort e) \<Longrightarrow> P s (Abort e)"
    and "\<And>s s' out. body s = Some (Done (Inl s')) \<Longrightarrow> P s' out \<Longrightarrow> P s out"
  shows "P s out"
proof -
  have "out = out \<longrightarrow> P s out"
    by (rule exec_loop_invariant [where I = "\<lambda>t. P t out \<longrightarrow> P s out" and Q = "\<lambda>x. x = out \<longrightarrow> P s out", OF assms(1)])
      (use assms(2-4) in auto)
  then show ?thesis by simp
qed

text \<open>Two loops whose bodies correspond.\<close>

lemma exec_loop_map:
  assumes body: "\<And>s. body' (f s) = run_map (map_sum f g) (body s)"
  shows "exec_loop body' (f s) = run_map g (exec_loop body s)"
proof (cases "exec_loop body s")
  case (Some out)
  have "exec_loop body' (f s) = run_map g (Some out)"
    using Some by (induction rule: exec_loop_induct) (simp_all add: exec_loop_step body)
  with Some show ?thesis by simp
next
  case None
  have False if "exec_loop body' (f s) = Some out" for out
  proof (rule exec_loop_invariant [where I = "\<lambda>t. \<exists>s. t = f s \<and> exec_loop body s = None" and Q = "\<lambda>_. False", OF that])
    show "\<exists>t. f s = f t \<and> exec_loop body t = None" using None by blast
  next
    fix t t' assume "\<exists>s. t = f s \<and> exec_loop body s = None" and t: "body' t = Some (Done (Inl t'))"
    then obtain s where s: "t = f s" "exec_loop body s = None" by blast
    from t s(1) body [of s] obtain x where x: "body s = Some (Done x)" "map_sum f g x = Inl t'"
      by (auto simp: run_map_eq_Some)
    then obtain s' where s': "body s = Some (Done (Inl s'))" "t' = f s'" by (cases x) auto
    with s(2) exec_loop_Inl [of body s s'] show "\<exists>s. t' = f s \<and> exec_loop body s = None" by auto
  next
    fix t r assume "\<exists>s. t = f s \<and> exec_loop body s = None" and t: "body' t = Some (Done (Inr r))"
    then obtain s where s: "t = f s" "exec_loop body s = None" by blast
    from t s(1) body [of s] obtain x where x: "body s = Some (Done x)" "map_sum f g x = Inr r"
      by (auto simp: run_map_eq_Some)
    with s(2) show False by (cases x) (auto simp: exec_loop_Inr)
  qed (use body in \<open>auto simp: run_map_eq_Some exec_loop_Abort\<close>)
  with None show ?thesis by (cases "exec_loop body' (f s)") auto
qed

section \<open>Computations without undefined behaviour\<close>

definition ub_free :: "'a exec \<Rightarrow> bool" where
  "ub_free x \<longleftrightarrow> x \<noteq> Abort Undefined_Behaviour"

definition run_ub_free :: "'a run \<Rightarrow> bool" where
  "run_ub_free r \<longleftrightarrow> r \<noteq> Some (Abort Undefined_Behaviour)"

lemma ub_free_Done [simp]: "ub_free (Done x)"
  by (simp add: ub_free_def)

lemma ub_free_bind: "ub_free m \<Longrightarrow> (\<And>x. m = Done x \<Longrightarrow> ub_free (f x)) \<Longrightarrow> ub_free (exec_bind m f)"
  by (cases m) (auto simp: ub_free_def)

lemma run_ub_free_Some [simp]: "run_ub_free (Some x) \<longleftrightarrow> ub_free x"
  by (simp add: run_ub_free_def ub_free_def)

lemma run_ub_free_bind:
  "run_ub_free m \<Longrightarrow> (\<And>x. m = Some (Done x) \<Longrightarrow> run_ub_free (f x)) \<Longrightarrow> run_ub_free (run_bind m f)"
  by (auto simp: run_ub_free_def run_bind_def split: option.splits exec.splits)

lemma run_map_ub_free [simp]: "run_ub_free (run_map f r) = run_ub_free r"
  by (simp add: run_ub_free_def run_map_eq_Some)

section \<open>Integer arithmetic of the two build profiles\<close>

definition uadd :: "bool \<Rightarrow> 'a::len word \<Rightarrow> 'a word \<Rightarrow> 'a word exec" where
  "uadd oc a b = (if oc \<and> 2 ^ LENGTH('a) \<le> unat a + unat b then Abort Arith_Overflow
     else Done (a + b))"

definition umul :: "bool \<Rightarrow> 'a::len word \<Rightarrow> 'a word \<Rightarrow> 'a word exec" where
  "umul oc a b = (if oc \<and> 2 ^ LENGTH('a) \<le> unat a * unat b then Abort Arith_Overflow
     else Done (a * b))"

definition usub :: "bool \<Rightarrow> 'a::len word \<Rightarrow> 'a word \<Rightarrow> 'a word exec" where
  "usub oc a b = (if oc \<and> unat a < unat b then Abort Arith_Overflow else Done (a - b))"

text \<open>Division and remainder panic on a zero divisor in both profiles.\<close>

definition urem :: "'a::len word \<Rightarrow> 'a word \<Rightarrow> 'a word exec" where
  "urem a b = (if b = 0 then Abort Div_By_Zero else Done (a mod b))"

lemma uadd_no_overflow: "unat a + unat b < 2 ^ LENGTH('a) \<Longrightarrow> uadd oc a b = Done (a + b)"
  for a b :: "'a::len word"
  by (simp add: uadd_def)

lemma umul_no_overflow: "unat a * unat b < 2 ^ LENGTH('a) \<Longrightarrow> umul oc a b = Done (a * b)"
  for a b :: "'a::len word"
  by (simp add: umul_def)

lemma usub_no_underflow: "b \<le> a \<Longrightarrow> usub oc a b = Done (a - b)"
  by (simp add: usub_def word_le_nat_alt)

lemma urem_nonzero [simp]: "b \<noteq> 0 \<Longrightarrow> urem a b = Done (a mod b)"
  by (simp add: urem_def)

lemma uadd_checked_unat:
  "uadd True a b = Done c \<Longrightarrow> unat c = unat a + unat b"
  by (auto simp: uadd_def unat_word_ariths split: if_splits)

lemma uadd_release [simp]: "uadd False a b = Done (a + b)"
  by (simp add: uadd_def)

lemma umul_release [simp]: "umul False a b = Done (a * b)"
  by (simp add: umul_def)

lemma ub_free_arith [simp]: "ub_free (uadd oc a b)" "ub_free (umul oc a b)" "ub_free (usub oc a b)"
  "ub_free (urem a b)"
  by (simp_all add: ub_free_def uadd_def umul_def usub_def urem_def)

lemma unat_bound: "unat (a :: 'a::len word) < 2 ^ LENGTH('a)"
  by (rule unsigned_less)

lemma unat_u16_bound: "unat (a :: u16) < 65536"
  using unat_bound [of a] by simp

lemma unat_u32_bound: "unat (a :: u32) < 4294967296"
  using unat_bound [of a] by simp

lemma unat_u64_bound: "unat (a :: u64) < 18446744073709551616"
  using unat_bound [of a] by simp

lemma unat_plus_no_overflow:
  "unat a + unat b < 2 ^ LENGTH('a) \<Longrightarrow> unat (a + b) = unat a + unat b"
  for a b :: "'a::len word"
  by (simp add: unat_word_ariths)

lemma unat_of_nat_small: "n < 2 ^ LENGTH('a) \<Longrightarrow> unat (of_nat n :: 'a::len word) = n"
  by (simp add: unsigned_of_nat take_bit_nat_eq_self)

text \<open>Widening casts keep the value.\<close>

lemma unat_widen_u16 [simp]: "unat (ucast (i :: u16) :: u64) = unat i"
  using unat_u16_bound [of i] by (simp add: unsigned_ucast_eq take_bit_nat_eq_self)

lemma unat_widen_u32 [simp]: "unat (ucast (i :: u32) :: u64) = unat i"
  using unat_u32_bound [of i] by (simp add: unsigned_ucast_eq take_bit_nat_eq_self)

lemma unat_widen_u16_u32 [simp]: "unat (ucast (i :: u16) :: u32) = unat i"
  using unat_u16_bound [of i] by (simp add: unsigned_ucast_eq take_bit_nat_eq_self)

text \<open>Scaling a 16-bit index and adding it to a base, in 64 bits.\<close>

lemma index_scale:
  assumes "c < 2 ^ 16"
  shows "umul oc (ucast (i :: u16) :: u64) (of_nat c) = Done (ucast i * of_nat c)"
    and "unat (ucast i * of_nat c :: u64) = unat i * c"
proof -
  have c: "unat (of_nat c :: u64) = c" using assms by (intro unat_of_nat_small) simp
  have lt: "unat i * c < 2 ^ 64"
    using mult_strict_mono [of "unat i" "2 ^ 16" c "2 ^ 16"] unat_u16_bound [of i] assms by simp
  then show "umul oc (ucast (i :: u16) :: u64) (of_nat c) = Done (ucast i * of_nat c)"
    by (intro umul_no_overflow) (simp add: c)
  from lt show "unat (ucast i * of_nat c :: u64) = unat i * c"
    by (simp add: unat_word_ariths c)
qed

text \<open>Rounding up to a multiple.\<close>

lemma round_up:
  fixes n k :: nat
  assumes "0 < k"
  shows "n \<le> (n + (k - 1)) div k * k" and "(n + (k - 1)) div k * k < n + k"
    and "n = (n + (k - 1)) div k * k \<longleftrightarrow> k dvd n"
proof -
  have eq: "(n + (k - 1)) div k * k = n + (k - 1) - (n + (k - 1)) mod k"
    by (simp add: minus_mod_eq_div_mult)
  have m: "(n + (k - 1)) mod k < k" using assms by simp
  from eq m assms show "n \<le> (n + (k - 1)) div k * k" and "(n + (k - 1)) div k * k < n + k"
    by linarith+
  show "n = (n + (k - 1)) div k * k \<longleftrightarrow> k dvd n"
  proof
    assume "k dvd n"
    then obtain c where "n = k * c" ..
    moreover have "(k * c + (k - 1)) div k = c"
      using assms by (subst div_mult_self4) simp_all
    ultimately show "n = (n + (k - 1)) div k * k" by simp
  qed (metis dvd_triv_right)
qed

section \<open>Little-endian integers\<close>

primrec to_le_bytes :: "nat \<Rightarrow> 'a::len word \<Rightarrow> bytes" where
  "to_le_bytes 0 w = []"
| "to_le_bytes (Suc n) w = ucast w # to_le_bytes n (drop_bit 8 w)"

fun from_le_bytes :: "bytes \<Rightarrow> 'a::len word" where
  "from_le_bytes [] = 0"
| "from_le_bytes (b # bs) = ucast b OR push_bit 8 (from_le_bytes bs)"

lemma length_to_le_bytes [simp, byte_codec]: "length (to_le_bytes n w) = n"
  by (induction n arbitrary: w) auto

lemma bit_from_le_bytes_bound:
  "bit (from_le_bytes bs :: 'a::len word) k \<Longrightarrow> k < 8 * length bs"
proof (induction bs arbitrary: k)
  case (Cons b bs)
  show ?case
  proof (cases "k < 8")
    case False
    with Cons.prems have "bit (from_le_bytes bs :: 'a word) (k - 8)"
      by (auto simp: bit_or_iff bit_push_bit_iff bit_unsigned_iff dest: bit_imp_le_length)
    with Cons.IH [of "k - 8"] show ?thesis by simp
  qed simp
qed simp

lemma from_to_le_bytes:
  "8 * n \<le> LENGTH('a) \<Longrightarrow> from_le_bytes (to_le_bytes n w) = take_bit (8 * n) (w :: 'a::len word)"
proof (induction n arbitrary: w)
  case (Suc n)
  then have IH: "from_le_bytes (to_le_bytes n (drop_bit 8 w)) = take_bit (8 * n) (drop_bit 8 w)"
    by simp
  show ?case
    unfolding to_le_bytes.simps from_le_bytes.simps IH
    by (rule bit_word_eqI)
      (auto simp: bit_or_iff bit_push_bit_iff bit_unsigned_iff bit_take_bit_iff bit_drop_bit_eq
        dest: bit_imp_le_length)
qed simp

lemma to_from_le_bytes:
  "8 * length bs \<le> LENGTH('a) \<Longrightarrow> to_le_bytes (length bs) (from_le_bytes bs :: 'a::len word) = bs"
proof (induction bs)
  case (Cons b bs)
  have lo: "ucast (ucast b OR push_bit 8 (from_le_bytes bs :: 'a word)) = b"
    using Cons.prems by (intro bit_word_eqI) (auto simp: bit_or_iff bit_push_bit_iff bit_unsigned_iff)
  have hi: "drop_bit 8 (ucast b OR push_bit 8 (from_le_bytes bs :: 'a word)) = from_le_bytes bs"
    using Cons.prems
    by (intro bit_word_eqI)
      (auto simp: bit_or_iff bit_push_bit_iff bit_unsigned_iff bit_drop_bit_eq
        dest: bit_imp_le_length bit_from_le_bytes_bound)
  have "to_le_bytes (length (b # bs)) (from_le_bytes (b # bs) :: 'a word) =
      b # to_le_bytes (length bs) (from_le_bytes bs :: 'a word)"
    by (simp only: list.size from_le_bytes.simps add_0_right add_Suc_right to_le_bytes.simps lo hi)
  with Cons show ?case by simp
qed simp

lemma from_le_bytes_u16 [simp, byte_codec]: "from_le_bytes (to_le_bytes 2 (w :: u16)) = w"
  by (subst from_to_le_bytes) (simp_all add: take_bit_word_eq_self)

lemma from_le_bytes_u32 [simp, byte_codec]: "from_le_bytes (to_le_bytes 4 (w :: u32)) = w"
  by (subst from_to_le_bytes) (simp_all add: take_bit_word_eq_self)

lemma from_le_bytes_u64 [simp, byte_codec]: "from_le_bytes (to_le_bytes 8 (w :: u64)) = w"
  by (subst from_to_le_bytes) (simp_all add: take_bit_word_eq_self)

section \<open>Byte slices of a flat memory\<close>

definition mem_get :: "(nat \<Rightarrow> u8) \<Rightarrow> nat \<Rightarrow> nat \<Rightarrow> bytes" where
  "mem_get f a n = map f [a..<a + n]"

definition mem_upd :: "(nat \<Rightarrow> u8) \<Rightarrow> nat \<Rightarrow> bytes \<Rightarrow> nat \<Rightarrow> u8" where
  "mem_upd f a d = (\<lambda>i. if a \<le> i \<and> i < a + length d then d ! (i - a) else f i)"

lemma length_mem_get [simp]: "length (mem_get f a n) = n"
  by (simp add: mem_get_def)

lemma nth_mem_get [simp]: "i < n \<Longrightarrow> mem_get f a n ! i = f (a + i)"
  by (simp add: mem_get_def)

lemma mem_upd_out [mem_frame]: "i < a \<or> a + length d \<le> i \<Longrightarrow> mem_upd f a d i = f i"
  by (auto simp: mem_upd_def)

lemma mem_upd_in: "i < length d \<Longrightarrow> mem_upd f a d (a + i) = d ! i"
  by (simp add: mem_upd_def)

lemma mem_upd_Nil [simp]: "mem_upd f a [] = f"
  by (rule ext) (auto simp: mem_upd_def)

lemma mem_get_upd_same [simp]: "n = length d \<Longrightarrow> mem_get (mem_upd f a d) a n = d"
  by (rule nth_equalityI) (auto simp: mem_upd_in)

lemma mem_get_upd_disjoint [mem_frame]:
  "a + length d \<le> b \<or> b + n \<le> a \<Longrightarrow> mem_get (mem_upd f a d) b n = mem_get f b n"
  by (rule nth_equalityI) (auto simp: mem_upd_def)

lemma mem_get_upd_inside:
  assumes "a \<le> b" and "b + n \<le> a + length d"
  shows "mem_get (mem_upd f a d) b n = take n (drop (b - a) d)"
  using assms by (intro nth_equalityI) (auto simp: mem_upd_def)

lemma map_update_same: "f y = f (xs ! i) \<Longrightarrow> map f (xs[i := y]) = map f xs"
  by (cases "i < length xs") (auto simp: map_update list_update_same_conv list_update_beyond not_less)

lemma mem_get_Suc: "mem_get f a (Suc n) = f a # mem_get f (Suc a) n"
  by (simp add: mem_get_def upt_conv_Cons del: upt_Suc)

lemma mem_upd_Cons: "mem_upd f a (b # bs) = mem_upd (f(a := b)) (Suc a) bs"
  by (rule ext) (auto simp: mem_upd_def nth_Cons' Suc_diff_Suc)

lemma mem_get_append: "mem_get f a (m + n) = mem_get f a m @ mem_get f (a + m) n"
  by (rule nth_equalityI) (auto simp: nth_append)

lemma mem_get_cong: "(\<And>i. a \<le> i \<Longrightarrow> i < a + n \<Longrightarrow> f i = g i) \<Longrightarrow> mem_get f a n = mem_get g a n"
  by (simp add: mem_get_def)

lemma take_mem_get: "m \<le> n \<Longrightarrow> take m (mem_get f a n) = mem_get f a m"
  by (rule nth_equalityI) auto

lemma drop_mem_get: "drop m (mem_get f a n) = mem_get f (a + m) (n - m)"
  by (rule nth_equalityI) (auto simp: add.assoc)

section \<open>Text\<close>

definition bytes_of_string :: "string \<Rightarrow> bytes" where
  "bytes_of_string s = map of_char s"

lemma length_bytes_of_string [simp]: "length (bytes_of_string s) = length s"
  by (simp add: bytes_of_string_def)

definition digit_char :: "nat \<Rightarrow> char" where
  "digit_char d = (if d < 10 then char_of (48 + d) else char_of (87 + d))"

fun show_base :: "nat \<Rightarrow> nat \<Rightarrow> string" where
  "show_base b n = (if n < b \<or> b < 2 then [digit_char n]
     else show_base b (n div b) @ [digit_char (n mod b)])"

declare show_base.simps [simp del]

text \<open>The formats \<open>{}\<close> and \<open>{:#x}\<close> of unsigned integers.\<close>

definition show_dec :: "nat \<Rightarrow> string" where
  "show_dec n = show_base 10 n"

definition show_hex :: "nat \<Rightarrow> string" where
  "show_hex n = ''0x'' @ show_base 16 n"

end
