(* ===== verification/Ax_Memory.thy ===== *)
theory Ax_Memory
  imports Ax_Prelude
begin

text \<open>
  Guest physical memory (\<open>src/axvm_core/src/memory.rs\<close>). A \<open>GuestMemory\<close> is a host mapping made by
  \<open>mmap\<close>; the record keeps the source's three fields and, beside them, what stands behind the
  pointer: the length of the mapping and its bytes by offset. An access that passes the bounds
  check of the code but leaves the mapping is \<open>Undefined_Behaviour\<close>, which is what the raw pointer
  arithmetic of the source makes of it.

  The locale \<open>byte_store\<close> is the contract the boot code and the devices rely on; it is interpreted
  on \<open>write_slice\<close> and \<open>read_slice\<close>.
\<close>

section \<open>The guest memory object\<close>

record guest_memory =
  gm_ptr :: usize
  gm_len :: usize
  gm_owned :: bool
  gm_mapped :: nat
  gm_bytes :: "nat \<Rightarrow> u8"

definition HUGE_PAGE_MASK :: usize where
  "HUGE_PAGE_MASK = 2 * 1024 * 1024 - 1"

text \<open>
  \<open>GuestMemory::new\<close>. The system call \<open>mmap\<close> is a parameter: given a length it answers with the
  address of a fresh mapping, or \<open>None\<close> for \<open>MAP_FAILED\<close>. The advice to use huge pages only
  changes what is printed.
\<close>

definition gm_new :: "bool \<Rightarrow> (usize \<Rightarrow> usize option) \<Rightarrow> usize \<Rightarrow> guest_memory result exec" where
  "gm_new oc mmap sz =
     exec_bind (uadd oc sz HUGE_PAGE_MASK) (\<lambda>s.
       let aligned_size = s AND NOT HUGE_PAGE_MASK in
       case mmap aligned_size of
         None \<Rightarrow> Done (Inl (''mmap failed (Size: '' @
                   show_dec (unat (aligned_size div 1024 div 1024)) @ '' MB)''))
       | Some ptr \<Rightarrow> Done (Inr \<lparr>gm_ptr = ptr, gm_len = sz, gm_owned = True,
                   gm_mapped = unat aligned_size, gm_bytes = (\<lambda>_. 0)\<rparr>))"

text \<open>A well-formed memory: the guest sees no more than what is mapped.\<close>

definition gm_wf :: "guest_memory \<Rightarrow> bool" where
  "gm_wf m \<longleftrightarrow> unat (gm_len m) \<le> gm_mapped m"

definition write_overflow_msg :: "usize \<Rightarrow> nat \<Rightarrow> string" where
  "write_overflow_msg offset n =
     ''Memory write overflow: addr='' @ show_hex (unat offset) @ '', len='' @ show_dec n"

definition read_overflow_msg :: "usize \<Rightarrow> nat \<Rightarrow> string" where
  "read_overflow_msg offset n =
     ''Memory read overflow: addr='' @ show_hex (unat offset) @ '', len='' @ show_dec n"

definition write_slice :: "bool \<Rightarrow> guest_memory \<Rightarrow> usize \<Rightarrow> bytes \<Rightarrow> guest_memory result exec" where
  "write_slice oc m offset data =
     exec_bind (uadd oc offset (of_nat (length data))) (\<lambda>fin.
       if gm_len m < fin then Done (Inl (write_overflow_msg offset (length data)))
       else if unat offset + length data \<le> gm_mapped m
       then Done (Inr (m\<lparr>gm_bytes := mem_upd (gm_bytes m) (unat offset) data\<rparr>))
       else Abort Undefined_Behaviour)"

definition read_slice :: "bool \<Rightarrow> guest_memory \<Rightarrow> usize \<Rightarrow> usize \<Rightarrow> bytes result exec" where
  "read_slice oc m offset n =
     exec_bind (uadd oc offset n) (\<lambda>fin.
       if gm_len m < fin then Done (Inl (read_overflow_msg offset (unat n)))
       else if unat offset + unat n \<le> gm_mapped m
       then Done (Inr (mem_get (gm_bytes m) (unat offset) (unat n)))
       else Abort Undefined_Behaviour)"

definition write_u8 :: "bool \<Rightarrow> guest_memory \<Rightarrow> usize \<Rightarrow> u8 \<Rightarrow> guest_memory result exec" where
  "write_u8 oc m offset v = write_slice oc m offset [v]"

definition write_u16 :: "bool \<Rightarrow> guest_memory \<Rightarrow> usize \<Rightarrow> u16 \<Rightarrow> guest_memory result exec" where
  "write_u16 oc m offset v = write_slice oc m offset (to_le_bytes 2 v)"

definition write_u32 :: "bool \<Rightarrow> guest_memory \<Rightarrow> usize \<Rightarrow> u32 \<Rightarrow> guest_memory result exec" where
  "write_u32 oc m offset v = write_slice oc m offset (to_le_bytes 4 v)"

definition write_u64 :: "bool \<Rightarrow> guest_memory \<Rightarrow> usize \<Rightarrow> u64 \<Rightarrow> guest_memory result exec" where
  "write_u64 oc m offset v = write_slice oc m offset (to_le_bytes 8 v)"

text \<open>\<open>Drop\<close>: the \<open>munmap\<close> call that is made, if any, as the address and the length it names.\<close>

definition gm_drop :: "guest_memory \<Rightarrow> (usize \<times> usize) option" where
  "gm_drop m = (if gm_owned m \<and> gm_ptr m \<noteq> 0 then Some (gm_ptr m, gm_len m) else None)"

text \<open>
  What the call releases. \<open>munmap\<close> takes a page-aligned address and unmaps every page that holds a byte
  of the range; the pages of the host are of 4096 bytes.
\<close>

definition PAGE_SIZE :: nat where "PAGE_SIZE = 4096"

definition munmap_range :: "usize \<times> usize \<Rightarrow> nat set" where
  "munmap_range = (\<lambda>(a, n). {unat a..<unat a + (unat n + (PAGE_SIZE - 1)) div PAGE_SIZE * PAGE_SIZE})"

definition gm_released :: "guest_memory \<Rightarrow> nat set" where
  "gm_released m = (case gm_drop m of None \<Rightarrow> {} | Some c \<Rightarrow> munmap_range c)"

text \<open>The addresses of the mapping that \<open>new\<close> made.\<close>

definition gm_mapping :: "guest_memory \<Rightarrow> nat set" where
  "gm_mapping m = {unat (gm_ptr m)..<unat (gm_ptr m) + gm_mapped m}"

text \<open>The statement \<open>let _ = mem.write_\<dots>\<close>: an error leaves the memory as it was.\<close>

definition ignore_err :: "guest_memory \<Rightarrow> guest_memory result exec \<Rightarrow> guest_memory exec" where
  "ignore_err m w = exec_bind w (\<lambda>r. case r of Inl _ \<Rightarrow> Done m | Inr m' \<Rightarrow> Done m')"

section \<open>Accesses within bounds\<close>

text \<open>The bytes \<open>[a, a + n)\<close> lie in the memory the guest sees.\<close>

definition gm_range :: "guest_memory \<Rightarrow> usize \<Rightarrow> nat \<Rightarrow> bool" where
  "gm_range m a n \<longleftrightarrow> unat a + n \<le> unat (gm_len m)"

lemma gm_range_lt: "gm_range m a n \<Longrightarrow> unat a + n < 2 ^ 64"
  using unat_bound [of "gm_len m"] by (simp add: gm_range_def)

lemma gm_range_mono: "gm_range m a n \<Longrightarrow> k \<le> n \<Longrightarrow> gm_range m a k"
  by (simp add: gm_range_def)

lemma gm_range_upd [simp]: "gm_range (m\<lparr>gm_bytes := f\<rparr>) a n = gm_range m a n"
  by (simp add: gm_range_def)

lemma gm_wf_upd [simp]: "gm_wf (m\<lparr>gm_bytes := f\<rparr>) = gm_wf m"
  by (simp add: gm_wf_def)

lemma gm_range_end:
  assumes "gm_range m a n"
  shows "uadd oc a (of_nat n) = Done (a + of_nat n)" and "\<not> gm_len m < a + of_nat n"
proof -
  from gm_range_lt [OF assms] have n: "unat (of_nat n :: usize) = n"
    by (intro unat_of_nat_small) simp
  with gm_range_lt [OF assms] show "uadd oc a (of_nat n) = Done (a + of_nat n)"
    by (intro uadd_no_overflow) simp
  from n gm_range_lt [OF assms] have "unat (a + of_nat n) = unat a + n"
    by (subst unat_plus_no_overflow) simp_all
  with assms show "\<not> gm_len m < a + of_nat n"
    by (simp add: gm_range_def word_less_nat_alt)
qed

text \<open>An offset into a range.\<close>

lemma range_offset:
  assumes "gm_range m t (k + n)" and "unat (x :: u64) = k"
  shows "uadd oc t x = Done (t + x)" and "unat (t + x) = unat t + k" and "gm_range m (t + x) n"
proof -
  have lt: "unat t + unat x < 2 ^ 64" using gm_range_lt [OF assms(1)] assms(2) by simp
  then show "uadd oc t x = Done (t + x)" by (simp add: uadd_no_overflow)
  from lt show e: "unat (t + x) = unat t + k" using assms(2) by (subst unat_plus_no_overflow) simp_all
  with assms(1) show "gm_range m (t + x) n" by (simp add: gm_range_def)
qed

lemma write_slice_ok:
  assumes "gm_wf m" and "gm_range m a (length d)"
  shows "write_slice oc m a d = Done (Inr (m\<lparr>gm_bytes := mem_upd (gm_bytes m) (unat a) d\<rparr>))"
  using assms gm_range_end [OF assms(2)] by (simp add: write_slice_def gm_wf_def gm_range_def)

lemma read_slice_ok:
  assumes "gm_wf m" and "gm_range m a (unat n)"
  shows "read_slice oc m a n = Done (Inr (mem_get (gm_bytes m) (unat a) (unat n)))"
  using assms gm_range_end [OF assms(2)] by (simp add: read_slice_def gm_wf_def gm_range_def)

text \<open>With overflow checks a successful access is one that is in range; there is no third case.\<close>

lemma write_slice_checked_cases:
  assumes "gm_wf m" and "length d < 2 ^ 64"
  shows "write_slice True m a d =
     (if gm_range m a (length d) then Done (Inr (m\<lparr>gm_bytes := mem_upd (gm_bytes m) (unat a) d\<rparr>))
      else if unat a + length d < 2 ^ 64 then Done (Inl (write_overflow_msg a (length d)))
      else Abort Arith_Overflow)"
proof (cases "gm_range m a (length d)")
  case False
  from assms(2) have n: "unat (of_nat (length d) :: usize) = length d"
    by (intro unat_of_nat_small) simp
  have "gm_len m < a + of_nat (length d)" if "unat a + length d < 2 ^ 64"
    using that n False by (simp add: word_less_nat_alt gm_range_def unat_word_ariths)
  with False n show ?thesis by (simp add: write_slice_def uadd_def)
qed (simp add: write_slice_ok assms(1))

lemma read_slice_checked_cases:
  assumes "gm_wf m"
  shows "read_slice True m a n =
     (if gm_range m a (unat n) then Done (Inr (mem_get (gm_bytes m) (unat a) (unat n)))
      else if unat a + unat n < 2 ^ 64 then Done (Inl (read_overflow_msg a (unat n)))
      else Abort Arith_Overflow)"
proof (cases "gm_range m a (unat n)")
  case False
  have "gm_len m < a + n" if "unat a + unat n < 2 ^ 64"
    using that False by (simp add: word_less_nat_alt gm_range_def unat_word_ariths)
  with False show ?thesis by (simp add: read_slice_def uadd_def)
qed (simp add: read_slice_ok assms)

lemma write_slice_Inr:
  "write_slice oc m a d = Done (Inr m') \<Longrightarrow> m' = m\<lparr>gm_bytes := mem_upd (gm_bytes m) (unat a) d\<rparr>"
  by (auto simp: write_slice_def split: if_splits)

lemma write_slice_shape [inv_intros]:
  assumes "write_slice oc m a d = Done (Inr m')"
  shows "gm_len m' = gm_len m" and "gm_mapped m' = gm_mapped m" and "gm_wf m' = gm_wf m"
  using write_slice_Inr [OF assms] by simp_all

lemma ignore_err_cases:
  assumes "ignore_err m (write_slice oc m a d) = Done m'"
  shows "m' = m \<or> m' = m\<lparr>gm_bytes := mem_upd (gm_bytes m) (unat a) d\<rparr>"
  using assms
  by (cases "write_slice oc m a d" rule: exec_sum_cases) (auto simp: ignore_err_def dest: write_slice_Inr)

lemma ignore_err_ok [simp]: "ignore_err m (Done (Inr m')) = Done m'"
  by (simp add: ignore_err_def)

lemma ignore_err_error [simp]: "ignore_err m (Done (Inl e)) = Done m"
  by (simp add: ignore_err_def)

lemma ignore_err_Abort [simp]: "ignore_err m (Abort e) = Abort e"
  by (simp add: ignore_err_def)

lemma write_slice_ub_free: "gm_wf m \<Longrightarrow> length d < 2 ^ 64 \<Longrightarrow> ub_free (write_slice True m a d)"
  by (simp add: write_slice_checked_cases ub_free_def)

lemma read_slice_ub_free: "gm_wf m \<Longrightarrow> ub_free (read_slice True m a n)"
  by (simp add: read_slice_checked_cases ub_free_def)

text \<open>The shape of a memory, which every operation keeps, and what it keeps with it.\<close>

definition same_shape :: "guest_memory \<Rightarrow> guest_memory \<Rightarrow> bool" where
  "same_shape m m' \<longleftrightarrow> gm_len m' = gm_len m \<and> gm_mapped m' = gm_mapped m \<and> gm_ptr m' = gm_ptr m \<and>
     gm_owned m' = gm_owned m"

lemma same_shape_refl [simp]: "same_shape m m"
  by (simp add: same_shape_def)

lemma same_shape_upd [simp]: "same_shape m (m\<lparr>gm_bytes := f\<rparr>)"
  by (simp add: same_shape_def)

lemma same_shape_trans [trans]: "same_shape a b \<Longrightarrow> same_shape b c \<Longrightarrow> same_shape a c"
  by (simp add: same_shape_def)

lemma same_shape_wf: "same_shape m m' \<Longrightarrow> gm_wf m' = gm_wf m"
  by (simp add: same_shape_def gm_wf_def)

lemma same_shape_range: "same_shape m m' \<Longrightarrow> gm_range m' a n = gm_range m a n"
  by (simp add: same_shape_def gm_range_def)

lemma ignore_err_shape: "ignore_err m (write_slice oc m a d) = Done m' \<Longrightarrow> same_shape m m'"
  by (auto dest: ignore_err_cases)

lemma ignore_err_typed_shape:
  "ignore_err m (write_u8 oc m a v8) = Done m' \<Longrightarrow> same_shape m m'"
  "ignore_err m (write_u16 oc m a v16) = Done m' \<Longrightarrow> same_shape m m'"
  "ignore_err m (write_u32 oc m a v32) = Done m' \<Longrightarrow> same_shape m m'"
  by (simp_all add: write_u8_def write_u16_def write_u32_def ignore_err_shape)

text \<open>Memories of the same shape with the same bytes at some addresses.\<close>

definition agree_on :: "nat set \<Rightarrow> guest_memory \<Rightarrow> guest_memory \<Rightarrow> bool" where
  "agree_on S m m' \<longleftrightarrow> same_shape m m' \<and> (\<forall>a \<in> S. gm_bytes m' a = gm_bytes m a)"

lemma agree_on_refl [simp]: "agree_on S m m"
  by (simp add: agree_on_def)

lemma agree_on_trans: "agree_on S a b \<Longrightarrow> agree_on S b c \<Longrightarrow> agree_on S a c"
  by (auto simp: agree_on_def intro: same_shape_trans)

lemma agree_on_subset: "agree_on S m m' \<Longrightarrow> T \<subseteq> S \<Longrightarrow> agree_on T m m'"
  by (auto simp: agree_on_def)

lemma agree_on_get: "agree_on S m m' \<Longrightarrow> {a..<a + n} \<subseteq> S \<Longrightarrow> mem_get (gm_bytes m') a n = mem_get (gm_bytes m) a n"
  by (rule mem_get_cong) (auto simp: agree_on_def)

lemma agree_on_upd:
  "{a..<a + length bs} \<inter> S = {} \<Longrightarrow> agree_on S m (m\<lparr>gm_bytes := mem_upd (gm_bytes m) a bs\<rparr>)"
  by (fastforce simp: agree_on_def mem_upd_def)

lemma agree_len:
  assumes "agree_on A m m'"
  shows "gm_len m' = gm_len m" and "gm_mapped m' = gm_mapped m"
  using assms by (simp_all add: agree_on_def same_shape_def)

section \<open>The store contract\<close>

text \<open>
  What a client may assume of a byte store: an access in range succeeds, keeps the size, reads what
  was last written there and does not disturb the rest. The client's lemma proved here once is
  about laying out an image of several segments: if the segments are in range and pairwise
  disjoint, the writes all succeed and every segment reads back.
\<close>

locale byte_store =
  fixes wr :: "'m \<Rightarrow> usize \<Rightarrow> bytes \<Rightarrow> ('e + 'm) exec"
    and rd :: "'m \<Rightarrow> usize \<Rightarrow> usize \<Rightarrow> ('e + bytes) exec"
    and size_of :: "'m \<Rightarrow> nat"
    and wf :: "'m \<Rightarrow> bool"
  assumes size_bound: "wf m \<Longrightarrow> size_of m < 2 ^ 64"
    and wr_ok: "wf m \<Longrightarrow> unat a + length d \<le> size_of m \<Longrightarrow>
      \<exists>m'. wr m a d = Done (Inr m') \<and> wf m' \<and> size_of m' = size_of m"
    and rd_wr_same: "wf m \<Longrightarrow> unat a + length d \<le> size_of m \<Longrightarrow> wr m a d = Done (Inr m') \<Longrightarrow>
      rd m' a (of_nat (length d)) = Done (Inr d)"
    and rd_wr_other: "wf m \<Longrightarrow> unat a + length d \<le> size_of m \<Longrightarrow> unat b + unat n \<le> size_of m \<Longrightarrow>
      wr m a d = Done (Inr m') \<Longrightarrow> unat a + length d \<le> unat b \<or> unat b + unat n \<le> unat a \<Longrightarrow>
      rd m' b n = rd m b n"
begin

primrec write_segs :: "(usize \<times> bytes) list \<Rightarrow> 'm \<Rightarrow> ('e + 'm) exec" where
  "write_segs [] m = Done (Inr m)"
| "write_segs (s # ss) m = try_bind (wr m (fst s) (snd s)) (\<lambda>m'. write_segs ss m')"

definition seg_in :: "'m \<Rightarrow> usize \<times> bytes \<Rightarrow> bool" where
  "seg_in m s \<longleftrightarrow> unat (fst s) + length (snd s) \<le> size_of m"

definition seg_apart :: "usize \<times> bytes \<Rightarrow> usize \<times> bytes \<Rightarrow> bool" where
  "seg_apart s t \<longleftrightarrow> unat (fst s) + length (snd s) \<le> unat (fst t) \<or>
     unat (fst t) + length (snd t) \<le> unat (fst s)"

lemma seg_len: "wf m \<Longrightarrow> seg_in m s \<Longrightarrow> unat (of_nat (length (snd s)) :: usize) = length (snd s)"
  using size_bound [of m] by (intro unat_of_nat_small) (simp add: seg_in_def)

lemma write_segs_ok:
  "wf m \<Longrightarrow> (\<And>s. s \<in> set ss \<Longrightarrow> seg_in m s) \<Longrightarrow>
   \<exists>m'. write_segs ss m = Done (Inr m') \<and> wf m' \<and> size_of m' = size_of m"
proof (induction ss arbitrary: m)
  case (Cons s ss)
  have "seg_in m s" using Cons.prems(2) by simp
  with wr_ok [OF Cons.prems(1), of "fst s" "snd s"]
  obtain m1 where m1: "wr m (fst s) (snd s) = Done (Inr m1)" "wf m1" "size_of m1 = size_of m"
    by (auto simp: seg_in_def)
  then have "\<And>t. t \<in> set ss \<Longrightarrow> seg_in m1 t" using Cons.prems(2) by (simp add: seg_in_def)
  from Cons.IH [OF m1(2) this] m1 show ?case by auto
qed simp

lemma write_segs_frame:
  "wf m \<Longrightarrow> (\<And>s. s \<in> set ss \<Longrightarrow> seg_in m s \<and> seg_apart s t) \<Longrightarrow> seg_in m t \<Longrightarrow>
   write_segs ss m = Done (Inr m') \<Longrightarrow>
   rd m' (fst t) (of_nat (length (snd t))) = rd m (fst t) (of_nat (length (snd t)))"
proof (induction ss arbitrary: m)
  case (Cons s ss)
  have s: "seg_in m s" "seg_apart s t" using Cons.prems(2) by auto
  with wr_ok [OF Cons.prems(1), of "fst s" "snd s"]
  obtain m1 where m1: "wr m (fst s) (snd s) = Done (Inr m1)" "wf m1" "size_of m1 = size_of m"
    by (auto simp: seg_in_def)
  have "rd m' (fst t) (of_nat (length (snd t))) = rd m1 (fst t) (of_nat (length (snd t)))"
    using Cons.prems m1 by (intro Cons.IH) (auto simp: seg_in_def)
  also have "\<dots> = rd m (fst t) (of_nat (length (snd t)))"
    using s m1 Cons.prems(1,3) seg_len [OF Cons.prems(1,3)]
    by (intro rd_wr_other [OF Cons.prems(1) _ _ m1(1)]) (auto simp: seg_in_def seg_apart_def)
  finally show ?case .
qed simp

lemma write_segs_read:
  "wf m \<Longrightarrow> (\<And>s. s \<in> set ss \<Longrightarrow> seg_in m s) \<Longrightarrow> sorted_wrt seg_apart ss \<Longrightarrow>
   write_segs ss m = Done (Inr m') \<Longrightarrow> s \<in> set ss \<Longrightarrow>
   rd m' (fst s) (of_nat (length (snd s))) = Done (Inr (snd s))"
proof (induction ss arbitrary: m)
  case (Cons t ss)
  have t: "seg_in m t" using Cons.prems(2) by simp
  with wr_ok [OF Cons.prems(1), of "fst t" "snd t"]
  obtain m1 where m1: "wr m (fst t) (snd t) = Done (Inr m1)" "wf m1" "size_of m1 = size_of m"
    by (auto simp: seg_in_def)
  then have in1: "\<And>u. u \<in> set (t # ss) \<Longrightarrow> seg_in m1 u" using Cons.prems(2) by (auto simp: seg_in_def)
  have rest: "write_segs ss m1 = Done (Inr m')" using Cons.prems(4) m1(1) by simp
  show ?case
  proof (cases "s \<in> set ss")
    case True
    with Cons.IH [OF m1(2) _ _ rest True] in1 Cons.prems(3) show ?thesis by simp
  next
    case False
    with Cons.prems(5) have "s = t" by simp
    have "seg_apart u t" if "u \<in> set ss" for u
      using that Cons.prems(3) by (auto simp: seg_apart_def)
    with write_segs_frame [OF m1(2) _ _ rest, of t] in1
    have "rd m' (fst t) (of_nat (length (snd t))) = rd m1 (fst t) (of_nat (length (snd t)))" by simp
    with rd_wr_same [OF Cons.prems(1) _ m1(1)] t \<open>s = t\<close> show ?thesis by (simp add: seg_in_def)
  qed
qed simp

end

interpretation gm: byte_store "write_slice oc" "read_slice oc" "\<lambda>m. unat (gm_len m)" gm_wf
  for oc :: bool
proof unfold_locales
  fix m m' :: guest_memory and a b n :: usize and d :: bytes
  show "unat (gm_len m) < 2 ^ 64"
    using unat_bound [of "gm_len m"] by simp
  assume wf: "gm_wf m" and fit: "unat a + length d \<le> unat (gm_len m)"
  then have r: "gm_range m a (length d)" by (simp add: gm_range_def)
  from write_slice_ok [OF wf r] wf
  show "\<exists>m'. write_slice oc m a d = Done (Inr m') \<and> gm_wf m' \<and> unat (gm_len m') = unat (gm_len m)"
    by simp
  assume w: "write_slice oc m a d = Done (Inr m')"
  then have m': "m' = m\<lparr>gm_bytes := mem_upd (gm_bytes m) (unat a) d\<rparr>" by (rule write_slice_Inr)
  from gm_range_lt [OF r] have len: "unat (of_nat (length d) :: usize) = length d"
    by (intro unat_of_nat_small) simp
  with wf r show "read_slice oc m' a (of_nat (length d)) = Done (Inr d)"
    by (subst read_slice_ok) (simp_all add: m')
  assume "unat b + unat n \<le> unat (gm_len m)"
  then have rb: "gm_range m b (unat n)" by (simp add: gm_range_def)
  assume "unat a + length d \<le> unat b \<or> unat b + unat n \<le> unat a"
  with wf rb show "read_slice oc m' b n = read_slice oc m b n"
    by (simp add: read_slice_ok m' mem_get_upd_disjoint)
qed

lemmas gm_write_segs_read = gm.write_segs_read [unfolded gm.seg_in_def gm.seg_apart_def]
lemmas gm_write_segs_ok = gm.write_segs_ok [unfolded gm.seg_in_def]

section \<open>Properties\<close>

lemma aligned_size_unat:
  "unat ((s :: usize) AND NOT HUGE_PAGE_MASK) = unat s div 2097152 * 2097152"
proof -
  have mask: "HUGE_PAGE_MASK = mask 21" by (simp add: HUGE_PAGE_MASK_def mask_eq_exp_minus_1)
  have "s AND NOT HUGE_PAGE_MASK = push_bit 21 (drop_bit 21 s)"
    unfolding mask
    by (intro bit_word_eqI)
      (auto simp: bit_and_iff bit_not_iff bit_mask_iff bit_push_bit_iff bit_drop_bit_eq
        dest: bit_imp_le_length)
  also have "unat \<dots> = push_bit 21 (drop_bit 21 (unat s))"
  proof -
    have "push_bit 21 (drop_bit 21 (unat s)) \<le> unat s"
      by (simp add: push_bit_eq_mult drop_bit_eq_div)
    then have "push_bit 21 (drop_bit 21 (unat s)) < 2 ^ 64"
      by (rule le_less_trans) (use unat_bound [of s] in simp)
    then show ?thesis
      by (simp add: unsigned_push_bit_eq unsigned_drop_bit_eq take_bit_nat_eq_self unat_u64_bound)
  qed
  finally show ?thesis by (simp add: push_bit_eq_mult drop_bit_eq_div)
qed

lemma huge_page_sum:
  assumes "uadd oc sz HUGE_PAGE_MASK = Done s"
  shows "unat s = unat sz + 2097151 \<or> (2 ^ 64 \<le> unat sz + 2097151 \<and> unat s < 2097151)"
proof -
  have m: "unat HUGE_PAGE_MASK = 2097151" by (simp add: HUGE_PAGE_MASK_def)
  from assms have "s = sz + HUGE_PAGE_MASK" by (auto simp: uadd_def split: if_splits)
  then have "unat s = (unat sz + 2097151) mod 2 ^ 64" by (simp add: unat_word_ariths m)
  with unat_u64_bound [of sz] show ?thesis
    by (cases "unat sz + 2097151 < 2 ^ 64") (simp_all add: le_mod_geq, arith)
qed

lemma gm_new_cases:
  assumes "gm_new oc mmap sz = Done (Inr m)"
  obtains s where "uadd oc sz HUGE_PAGE_MASK = Done s"
    and "mmap (s AND NOT HUGE_PAGE_MASK) = Some (gm_ptr m)"
    and "gm_len m = sz" and "gm_owned m" and "gm_bytes m = (\<lambda>_. 0)"
    and "gm_mapped m = unat s div 2097152 * 2097152"
  using assms
  by (auto simp: gm_new_def Let_def aligned_size_unat split: option.splits)

lemma gm_new_wf:
  assumes new: "gm_new oc mmap sz = Done (Inr m)" and mmap: "mmap 0 = None"
  shows "gm_wf m" and "gm_mapped m = (unat sz + 2097151) div 2097152 * 2097152"
proof -
  from new obtain s where s: "uadd oc sz HUGE_PAGE_MASK = Done s"
    "mmap (s AND NOT HUGE_PAGE_MASK) = Some (gm_ptr m)" "gm_len m = sz"
    "gm_mapped m = unat s div 2097152 * 2097152"
    by (rule gm_new_cases)
  have "\<not> unat s < 2097151"
  proof
    assume "unat s < 2097151"
    then have "unat (s AND NOT HUGE_PAGE_MASK) = 0" by (simp add: aligned_size_unat)
    then have "s AND NOT HUGE_PAGE_MASK = 0" by (simp only: unsigned_eq_0_iff)
    with s(2) mmap show False by simp
  qed
  with huge_page_sum [OF s(1)] have u: "unat s = unat sz + 2097151" by simp
  with s(4) show "gm_mapped m = (unat sz + 2097151) div 2097152 * 2097152" by simp
  with round_up(1) [of 2097152 "unat sz"] s(3) show "gm_wf m" by (simp add: gm_wf_def)
qed

text \<open>
  C18. Writing a slice, in both build profiles, when \<open>offset + data.len()\<close> does not overflow: the call
  never aborts; it succeeds exactly when the slice ends inside the guest memory, and then changes
  exactly the bytes of the slice; otherwise it is the documented error and nothing changes.
\<close>

theorem write_slice_spec:
  assumes "gm_wf m" and "unat a + length d < 2 ^ 64"
  shows "(if unat a + length d \<le> unat (gm_len m)
      then \<exists>m'. write_slice oc m a d = Done (Inr m') \<and>
        (\<forall>i < length d. gm_bytes m' (unat a + i) = d ! i) \<and>
        (\<forall>i. i < unat a \<or> unat a + length d \<le> i \<longrightarrow> gm_bytes m' i = gm_bytes m i) \<and>
        gm_len m' = gm_len m \<and> gm_mapped m' = gm_mapped m
      else write_slice oc m a d = Done (Inl (write_overflow_msg a (length d))))"
proof (cases "unat a + length d \<le> unat (gm_len m)")
  case True
  then show ?thesis
    using assms(1) by (simp add: write_slice_ok gm_range_def mem_upd_in mem_upd_out)
next
  case False
  have n: "unat (of_nat (length d) :: usize) = length d"
    using assms(2) by (intro unat_of_nat_small) simp
  with assms(2) False have "gm_len m < a + of_nat (length d)"
    by (simp add: word_less_nat_alt unat_word_ariths)
  with False n assms(2) show ?thesis by (simp add: write_slice_def uadd_def)
qed

theorem write_slice_spec_witness:
  "let m = \<lparr>gm_ptr = 4096, gm_len = 16, gm_owned = True, gm_mapped = 32, gm_bytes = (\<lambda>_. 0)\<rparr> in
   gm_wf m \<and> (\<exists>m'. write_slice False m 14 [1, 2] = Done (Inr m') \<and>
     (\<forall>i < 2. gm_bytes m' (14 + i) = [1, 2] ! i) \<and>
     (\<forall>i. i < 14 \<or> 16 \<le> i \<longrightarrow> gm_bytes m' i = 0))"
  using write_slice_spec [of "\<lparr>gm_ptr = 4096, gm_len = 16, gm_owned = True, gm_mapped = 32,
      gm_bytes = (\<lambda>_. 0)\<rparr>" 14 "[1, 2]" False]
  unfolding Let_def gm_wf_def by auto

text \<open>
  The release profile lacks that safety: \<open>offset + data.len()\<close> wraps, so a write whose true end is
  past \<open>2 ^ 64\<close> passes the bounds check as soon as the wrapped end is small. The theorem gives the
  exact set of calls that leave the mapping, for writes and for reads.
\<close>

theorem release_access_escapes:
  assumes "gm_wf m" and "gm_mapped m < 2 ^ 64" and "length d < 2 ^ 64"
  shows "(write_slice False m a d = Abort Undefined_Behaviour \<longleftrightarrow>
      2 ^ 64 \<le> unat a + length d \<and> unat a + length d - 2 ^ 64 \<le> unat (gm_len m)) \<and>
    (read_slice False m a n = Abort Undefined_Behaviour \<longleftrightarrow>
      2 ^ 64 \<le> unat a + unat n \<and> unat a + unat n - 2 ^ 64 \<le> unat (gm_len m))"
proof (rule conjI)
  have wrap: "unat (a + b) = (if unat a + unat b < 2 ^ 64 then unat a + unat b
      else unat a + unat b - 2 ^ 64)" for b :: usize
    using unat_u64_bound [of a] unat_u64_bound [of b] by (simp add: unat_word_ariths le_mod_geq)
  have n: "unat (of_nat (length d) :: usize) = length d"
    using assms(3) by (intro unat_of_nat_small) simp
  show "write_slice False m a d = Abort Undefined_Behaviour \<longleftrightarrow>
      2 ^ 64 \<le> unat a + length d \<and> unat a + length d - 2 ^ 64 \<le> unat (gm_len m)"
    using assms wrap [of "of_nat (length d)"]
    by (auto simp: write_slice_def n word_less_nat_alt gm_wf_def split: if_splits)
  show "read_slice False m a n = Abort Undefined_Behaviour \<longleftrightarrow>
      2 ^ 64 \<le> unat a + unat n \<and> unat a + unat n - 2 ^ 64 \<le> unat (gm_len m)"
    using assms wrap [of n]
    by (auto simp: read_slice_def word_less_nat_alt gm_wf_def split: if_splits)
qed

theorem release_access_escapes_witness:
  "write_slice False \<lparr>gm_ptr = 4096, gm_len = 16, gm_owned = True, gm_mapped = 32,
      gm_bytes = (\<lambda>_. 0)\<rparr> 0xFFFFFFFFFFFFFFFF [1, 2] = Abort Undefined_Behaviour"
  by (subst release_access_escapes [THEN conjunct1]) (simp_all add: gm_wf_def)

text \<open>
  Round trip of the typed writers: in range, the bytes that \<open>write_u16\<close>, \<open>write_u32\<close> and
  \<open>write_u64\<close> leave behind decode to the value written.
\<close>

theorem typed_write_roundtrip:
  assumes "gm_wf m" and "gm_range m a 8"
  shows "(\<exists>m'. write_u16 oc m a v16 = Done (Inr m') \<and>
      (\<exists>bs. read_slice oc m' a 2 = Done (Inr bs) \<and> from_le_bytes bs = v16)) \<and>
    (\<exists>m'. write_u32 oc m a v32 = Done (Inr m') \<and>
      (\<exists>bs. read_slice oc m' a 4 = Done (Inr bs) \<and> from_le_bytes bs = v32)) \<and>
    (\<exists>m'. write_u64 oc m a v64 = Done (Inr m') \<and>
      (\<exists>bs. read_slice oc m' a 8 = Done (Inr bs) \<and> from_le_bytes bs = v64))"
proof (intro conjI)
  note le = gm_range_mono [OF assms(2)]
  show "\<exists>m'. write_u16 oc m a v16 = Done (Inr m') \<and>
      (\<exists>bs. read_slice oc m' a 2 = Done (Inr bs) \<and> from_le_bytes bs = v16)"
    using assms(1) le [of 2] by (simp add: write_u16_def write_slice_ok read_slice_ok)
  show "\<exists>m'. write_u32 oc m a v32 = Done (Inr m') \<and>
      (\<exists>bs. read_slice oc m' a 4 = Done (Inr bs) \<and> from_le_bytes bs = v32)"
    using assms(1) le [of 4] by (simp add: write_u32_def write_slice_ok read_slice_ok)
  show "\<exists>m'. write_u64 oc m a v64 = Done (Inr m') \<and>
      (\<exists>bs. read_slice oc m' a 8 = Done (Inr bs) \<and> from_le_bytes bs = v64)"
    using assms by (simp add: write_u64_def write_slice_ok read_slice_ok)
qed

theorem typed_write_roundtrip_witness:
  "\<exists>m'. write_u64 True \<lparr>gm_ptr = 4096, gm_len = 16, gm_owned = True, gm_mapped = 32,
      gm_bytes = (\<lambda>_. 0)\<rparr> 8 0xCF9A000000FFFF = Done (Inr m') \<and>
    (\<exists>bs. read_slice True m' 8 8 = Done (Inr bs) \<and> from_le_bytes bs = (0xCF9A000000FFFF :: u64))"
  by (rule typed_write_roundtrip [THEN conjunct2, THEN conjunct2]) (simp_all add: gm_wf_def gm_range_def)

lemma page_tail:
  fixes s k :: nat
  assumes "s \<le> k * 4096"
  shows "(s + 4095) div 4096 * 4096 \<le> k * 4096"
    and "(s + 4095) div 4096 * 4096 = k * 4096 \<longleftrightarrow> k * 4096 < s + 4096"
    and "k * 4096 - (s + 4095) div 4096 * 4096 = (k * 4096 - s) div 4096 * 4096"
proof -
  define r where "r = (s + 4095) div 4096"
  have r: "s \<le> r * 4096" "r * 4096 < s + 4096" using round_up(1,2) [of 4096 s] by (simp_all add: r_def)
  with assms have "r \<le> k" by linarith
  then have "k * 4096 - s = (r * 4096 - s) + (k - r) * 4096" using r(1) by (simp add: diff_mult_distrib)
  moreover have "r * 4096 - s < 4096" using r(2) by linarith
  ultimately have "(k * 4096 - s) div 4096 = k - r" by simp
  with \<open>r \<le> k\<close> r assms show "(s + 4095) div 4096 * 4096 \<le> k * 4096"
    and "(s + 4095) div 4096 * 4096 = k * 4096 \<longleftrightarrow> k * 4096 < s + 4096"
    and "k * 4096 - (s + 4095) div 4096 * 4096 = (k * 4096 - s) div 4096 * 4096"
    unfolding r_def [symmetric] by (auto simp: diff_mult_distrib)
qed

text \<open>
  C34. Allocation and release. The hypotheses on \<open>mmap\<close> are its documented refusal of an empty mapping
  and that a mapping is not at address 0. A successful \<open>GuestMemory::new\<close> gives zeroed memory of the
  requested length inside a mapping rounded up to 2 MB, also when \<open>size + align_mask\<close> wraps in a
  release build. \<open>drop\<close> asks for the requested length, so it releases the pages that hold a byte of it and
  nothing outside the mapping: the whole mapping exactly when the requested size is less than a page of
  4096 bytes short of it, and otherwise all but the pages behind the last one used, which stay
  mapped.
\<close>

theorem gm_new_drop:
  assumes "gm_new oc mmap sz = Done (Inr m)" and "mmap 0 = None" and "gm_ptr m \<noteq> 0"
  shows "gm_wf m \<and> gm_len m = sz \<and> (\<forall>i. gm_bytes m i = 0) \<and>
      2097152 dvd gm_mapped m \<and> gm_mapped m < unat sz + 2097152 \<and>
      gm_released m \<subseteq> gm_mapping m \<and> (gm_released m = gm_mapping m \<longleftrightarrow> gm_mapped m < unat sz + 4096) \<and>
      card (gm_mapping m - gm_released m) = (gm_mapped m - unat sz) div 4096 * 4096"
proof -
  let ?r = "(unat sz + 4095) div 4096 * 4096"
  note wf = gm_new_wf [OF assms(1,2)]
  have fields: "gm_len m = sz" "gm_owned m" "\<forall>i. gm_bytes m i = 0"
    by (rule gm_new_cases [OF assms(1)]; simp)+
  define k where "k = (unat sz + 2097151) div 2097152"
  have k: "gm_mapped m = k * 512 * 4096" "2097152 dvd gm_mapped m" unfolding wf(2) k_def by simp_all
  have bounds: "unat sz \<le> gm_mapped m" "gm_mapped m < unat sz + 2097152"
    using round_up(1,2) [of 2097152 "unat sz"] wf(2) by simp_all
  note pages = page_tail [of "unat sz" "k * 512", folded k(1), OF bounds(1)]
  have rel: "gm_released m = {unat (gm_ptr m)..<unat (gm_ptr m) + ?r}"
    using fields assms(3) by (simp add: gm_released_def gm_drop_def munmap_range_def PAGE_SIZE_def)
  have "gm_mapping m - gm_released m = {unat (gm_ptr m) + ?r..<unat (gm_ptr m) + gm_mapped m}"
    using pages(1) by (auto simp: rel gm_mapping_def)
  then have "card (gm_mapping m - gm_released m) = gm_mapped m - ?r" by simp
  moreover have "gm_released m = gm_mapping m \<longleftrightarrow> ?r = gm_mapped m"
    using pages(1) bounds(1) by (auto simp: rel gm_mapping_def atLeastLessThan_eq_iff)
  moreover have "gm_released m \<subseteq> gm_mapping m" using pages(1) by (auto simp: rel gm_mapping_def)
  ultimately show ?thesis using wf(1) fields k(2) bounds(2) pages(2,3) by simp
qed

theorem gm_new_drop_witness:
  "\<exists>m. gm_new True (\<lambda>n. if n = 0 then None else Some 4096) 2097153 = Done (Inr m) \<and>
     gm_wf m \<and> gm_released m \<noteq> gm_mapping m \<and> card (gm_mapping m - gm_released m) = 2093056"
proof -
  let ?mmap = "\<lambda>n :: usize. if n = 0 then None else Some 4096"
  let ?m = "\<lparr>gm_ptr = 4096, gm_len = 2097153, gm_owned = True, gm_mapped = 4194304,
      gm_bytes = (\<lambda>_. 0)\<rparr>"
  have new: "gm_new True ?mmap 2097153 = Done (Inr ?m)"
    by (simp add: gm_new_def uadd_def HUGE_PAGE_MASK_def Let_def)
  from gm_new_drop [OF new] new show ?thesis by (intro exI [of _ ?m]) simp
qed

end
