(* ===== verification/Ax_Error.thy ===== *)
theory Ax_Error
  imports Ax_Prelude
begin

text \<open>
  The error type of the hypervisor (\<open>src/axvm_core/src/error.rs\<close>): its variants, the text that
  \<open>Display\<close> writes, the severity classes with their derived order, and the two predicates that
  classify an error. An \<open>io::Error\<close> is represented by the text its own \<open>Display\<close> gives.
\<close>

section \<open>Definitions\<close>

datatype axvm_error =
    KvmInit string | KvmVersion string | MissingCapability string
  | VmCreation string | VcpuCreation string | InvalidState string
  | MemoryAllocation string | MemoryWrite string | MemoryRead string | MemorySetup string
  | MemoryAlignment string
  | CpuidSetup string | RegisterAccess string | LongModeSetup string | SregSetup string
  | VcpuRuntime string | Timeout string | MaxIterations string | HardwareFailure string
  | InternalError string
  | IoError string | DeviceNotFound string
  | InvalidConfiguration string | UnsupportedFeature string
  | IrqInjection string | LockPoisoned string

fun display_error :: "axvm_error \<Rightarrow> string" where
  "display_error (KvmInit msg) = ''KVM initialization failed: '' @ msg"
| "display_error (KvmVersion msg) = ''KVM version mismatch: '' @ msg"
| "display_error (MissingCapability msg) = ''Required KVM capability missing: '' @ msg"
| "display_error (VmCreation msg) = ''VM creation failed: '' @ msg"
| "display_error (VcpuCreation msg) = ''vCPU creation failed: '' @ msg"
| "display_error (InvalidState msg) = ''Invalid VM state transition: '' @ msg"
| "display_error (MemoryAllocation msg) = ''Memory allocation failed: '' @ msg"
| "display_error (MemoryWrite msg) = ''Memory write failed: '' @ msg"
| "display_error (MemoryRead msg) = ''Memory read failed: '' @ msg"
| "display_error (MemorySetup msg) = ''Memory region setup failed: '' @ msg"
| "display_error (MemoryAlignment msg) = ''Memory alignment error: '' @ msg"
| "display_error (CpuidSetup msg) = ''CPUID configuration failed: '' @ msg"
| "display_error (RegisterAccess msg) = ''Register access failed: '' @ msg"
| "display_error (LongModeSetup msg) = ''Long mode setup failed: '' @ msg"
| "display_error (SregSetup msg) = ''Segment register setup failed: '' @ msg"
| "display_error (VcpuRuntime msg) = ''vCPU runtime error: '' @ msg"
| "display_error (Timeout msg) = ''Operation timed out: '' @ msg"
| "display_error (MaxIterations msg) = ''Maximum iterations exceeded: '' @ msg"
| "display_error (HardwareFailure msg) = ''Hardware virtualization failure: '' @ msg"
| "display_error (InternalError msg) = ''Internal hypervisor error: '' @ msg"
| "display_error (IoError err) = ''I/O error: '' @ err"
| "display_error (DeviceNotFound msg) = ''Device not found: '' @ msg"
| "display_error (InvalidConfiguration msg) = ''Invalid configuration: '' @ msg"
| "display_error (UnsupportedFeature msg) = ''Unsupported feature: '' @ msg"
| "display_error (IrqInjection msg) = ''IRQ injection failed: '' @ msg"
| "display_error (LockPoisoned msg) = ''Lock poisoned: '' @ msg"

text \<open>\<open>Error::source\<close> and the conversion from \<open>io::Error\<close>.\<close>

definition error_source :: "axvm_error \<Rightarrow> string option" where
  "error_source e = (case e of IoError err \<Rightarrow> Some err | _ \<Rightarrow> None)"

definition from_io_error :: "string \<Rightarrow> axvm_error" where
  "from_io_error err = IoError err"

datatype error_severity = Sev_Info | Sev_Warning | Sev_Error | Sev_Critical | Sev_Fatal

text \<open>The derived order of \<open>ErrorSeverity\<close> is the order of its declaration.\<close>

primrec severity_rank :: "error_severity \<Rightarrow> nat" where
  "severity_rank Sev_Info = 0"
| "severity_rank Sev_Warning = 1"
| "severity_rank Sev_Error = 2"
| "severity_rank Sev_Critical = 3"
| "severity_rank Sev_Fatal = 4"

lemma severity_rank_inject: "severity_rank a = severity_rank b \<longleftrightarrow> a = b"
  by (cases a; cases b) simp_all

instantiation error_severity :: linorder
begin

definition less_eq_error_severity :: "error_severity \<Rightarrow> error_severity \<Rightarrow> bool" where
  "less_eq_error_severity a b \<longleftrightarrow> severity_rank a \<le> severity_rank b"

definition less_error_severity :: "error_severity \<Rightarrow> error_severity \<Rightarrow> bool" where
  "less_error_severity a b \<longleftrightarrow> severity_rank a < severity_rank b"

instance
  by standard
    (auto simp: less_eq_error_severity_def less_error_severity_def severity_rank_inject)

end

fun severity :: "axvm_error \<Rightarrow> error_severity" where
  "severity (KvmInit _) = Sev_Fatal"
| "severity (KvmVersion _) = Sev_Fatal"
| "severity (MissingCapability _) = Sev_Fatal"
| "severity (HardwareFailure _) = Sev_Fatal"
| "severity (VmCreation _) = Sev_Critical"
| "severity (VcpuCreation _) = Sev_Critical"
| "severity (MemoryAllocation _) = Sev_Critical"
| "severity (MemorySetup _) = Sev_Critical"
| "severity (LongModeSetup _) = Sev_Critical"
| "severity (InvalidState _) = Sev_Error"
| "severity (Timeout _) = Sev_Error"
| "severity (MaxIterations _) = Sev_Error"
| "severity (VcpuRuntime _) = Sev_Error"
| "severity (InvalidConfiguration _) = Sev_Warning"
| "severity (UnsupportedFeature _) = Sev_Warning"
| "severity (DeviceNotFound _) = Sev_Info"
| "severity (IrqInjection _) = Sev_Warning"
| "severity (LockPoisoned _) = Sev_Critical"
| "severity _ = Sev_Error"

definition is_recoverable :: "axvm_error \<Rightarrow> bool" where
  "is_recoverable e \<longleftrightarrow> severity e < Sev_Critical"

definition requires_shutdown :: "axvm_error \<Rightarrow> bool" where
  "requires_shutdown e \<longleftrightarrow> Sev_Critical \<le> severity e"

section \<open>Properties\<close>

lemma shutdown_set:
  "requires_shutdown e \<longleftrightarrow>
     (\<exists>s. e \<in> {KvmInit s, KvmVersion s, MissingCapability s, HardwareFailure s, VmCreation s,
       VcpuCreation s, MemoryAllocation s, MemorySetup s, LongModeSetup s, LockPoisoned s})"
  by (cases e) (simp_all add: requires_shutdown_def less_eq_error_severity_def)

text \<open>
  Classification of errors: every error is either recoverable or requires a shutdown, never both,
  and the errors that require one are exactly those of the KVM set-up, a hardware failure, the
  creation of the VM, of its vCPUs and of its memory, and a poisoned lock.
\<close>

theorem error_classification:
  "(is_recoverable e \<longleftrightarrow> \<not> requires_shutdown e) \<and>
   (requires_shutdown e \<longleftrightarrow>
     (\<exists>s. e \<in> {KvmInit s, KvmVersion s, MissingCapability s, HardwareFailure s, VmCreation s,
       VcpuCreation s, MemoryAllocation s, MemorySetup s, LongModeSetup s, LockPoisoned s}))"
  using shutdown_set [of e] by (auto simp: is_recoverable_def requires_shutdown_def)

end
