(* ===== verification/Ax_Serial.thy ===== *)
theory Ax_Serial
  imports Ax_Prelude
begin

text \<open>
  The emulated UART (\<open>src/axvm_core/src/serial.rs\<close>). The device has no state of its own; its effect
  is the bytes it appends to the standard output of the host.
\<close>

section \<open>Definitions\<close>

definition COM1_BASE :: u16 where "COM1_BASE = 0x3F8"
definition DATA_REGISTER :: u16 where "DATA_REGISTER = 0"
definition LINE_STATUS_REGISTER :: u16 where "LINE_STATUS_REGISTER = 5"

text \<open>\<open>write\<close>: the bytes sent to the host's output; a line feed becomes a carriage return and a line feed.\<close>

definition serial_write :: "bool \<Rightarrow> u16 \<Rightarrow> bytes \<Rightarrow> bytes exec" where
  "serial_write oc port data =
     exec_bind (usub oc port COM1_BASE) (\<lambda>offset.
       if offset = DATA_REGISTER then
         (case data of [] \<Rightarrow> Done []
          | byte # _ \<Rightarrow> if byte = 10 then Done [13, 10] else Done [byte])
       else Done [])"

definition serial_read :: "bool \<Rightarrow> u16 \<Rightarrow> u8 exec" where
  "serial_read oc port =
     exec_bind (usub oc port COM1_BASE) (\<lambda>offset.
       if offset = LINE_STATUS_REGISTER then Done (0x20 OR 0x40) else Done 0)"

section \<open>Lemmas\<close>

lemma serial_offset:
  assumes "COM1_BASE \<le> port"
  shows "usub oc port COM1_BASE = Done (port - COM1_BASE)"
  using assms by (rule usub_no_underflow)

text \<open>In the port window the device never aborts.\<close>

lemma serial_write_total:
  assumes "COM1_BASE \<le> port"
  shows "serial_write oc port data =
     Done (if port = COM1_BASE \<and> data \<noteq> [] then (if hd data = 10 then [13, 10] else [hd data]) else [])"
  using assms
  by (cases data) (auto simp: serial_write_def serial_offset DATA_REGISTER_def)

lemma serial_read_total:
  assumes "COM1_BASE \<le> port"
  shows "serial_read oc port = Done (if port = 0x3FD then 0x60 else 0)"
proof -
  have "port - COM1_BASE = 5 \<longleftrightarrow> port = 0x3FD"
    by (auto simp: COM1_BASE_def diff_eq_eq)
  with assms show ?thesis by (simp add: serial_read_def serial_offset LINE_STATUS_REGISTER_def)
qed

text \<open>
  What the guest prints, byte by byte: the driver polls the line status register, sees the
  transmitter empty, and writes one byte to the data register.
\<close>

fun serial_print :: "bool \<Rightarrow> bytes \<Rightarrow> bytes exec" where
  "serial_print oc [] = Done []"
| "serial_print oc (b # bs) =
     exec_bind (serial_write oc COM1_BASE [b]) (\<lambda>out.
       exec_bind (serial_print oc bs) (\<lambda>rest. Done (out @ rest)))"

text \<open>
  The console: whatever bytes the guest sends to the data register, all of them reach the output in
  order, with each line feed preceded by a carriage return; and the line status register always
  reports the transmitter as empty, so a polling driver never waits.
\<close>

theorem serial_console:
  "serial_print oc bs = Done (concat (map (\<lambda>b. if b = 10 then [13, 10] else [b]) bs)) \<and>
   (\<exists>st. serial_read oc (COM1_BASE + LINE_STATUS_REGISTER) = Done st \<and> bit st 5 \<and> bit st 6)"
proof (rule conjI)
  show "serial_print oc bs = Done (concat (map (\<lambda>b. if b = 10 then [13, 10] else [b]) bs))"
    by (induction bs) (simp_all add: serial_write_total)
  have "serial_read oc (COM1_BASE + LINE_STATUS_REGISTER) = Done 0x60"
    by (subst serial_read_total) (simp_all add: COM1_BASE_def LINE_STATUS_REGISTER_def)
  then show "\<exists>st. serial_read oc (COM1_BASE + LINE_STATUS_REGISTER) = Done st \<and> bit st 5 \<and> bit st 6"
    by simp
qed

end
