(* ===== verification/Ax_File.thy ===== *)
theory Ax_File
  imports Ax_Prelude
begin

text \<open>
  The operations of \<open>std::fs::File\<close> that the sources use: the kernel loader opens, seeks and reads
  the kernel image; the block device opens, seeks, reads and writes the disk image. The host's
  file system is outside the program, so the operations are a parameter (a record of functions over
  a type of file handles) of every definition that does file I/O. The locale \<open>regular_file\<close> holds
  what is documented of regular files, with the client's lemma that a write is read back; it is
  interpreted on \<open>image_ops\<close>, files as byte sequences with a position.
\<close>

section \<open>The operations\<close>

record 'f file_ops =
  fo_open :: "string \<Rightarrow> 'f result"
  fo_len :: "'f \<Rightarrow> u64 option"
  fo_seek :: "'f \<Rightarrow> u64 \<Rightarrow> 'f result"
  fo_read :: "'f \<Rightarrow> nat \<Rightarrow> bytes result \<times> 'f"
  fo_read_exact :: "'f \<Rightarrow> nat \<Rightarrow> bytes result \<times> 'f"
  fo_read_to_end :: "'f \<Rightarrow> bytes result \<times> 'f"
  fo_write_all :: "'f \<Rightarrow> bytes \<Rightarrow> bool \<times> 'f"

text \<open>
  The contract of \<open>Read::read\<close> that holds for any handle: it fills at most the buffer it is given.
\<close>

definition reads_fit :: "'f file_ops \<Rightarrow> bool" where
  "reads_fit F \<longleftrightarrow> (\<forall>f n bs f'. fo_read F f n = (Inr bs, f') \<longrightarrow> length bs \<le> n)"

lemma reads_fitD: "reads_fit F \<Longrightarrow> fo_read F f n = (Inr bs, f') \<Longrightarrow> length bs \<le> n"
  unfolding reads_fit_def by blast

section \<open>Regular files\<close>

text \<open>The most that one \<open>read\<close> call transfers (Linux, \<open>MAX_RW_COUNT\<close>); a longer one is short.\<close>

definition MAX_RW_COUNT :: nat where "MAX_RW_COUNT = 0x7FFFF000"

locale regular_file =
  fixes F :: "'f file_ops"
    and content :: "'f \<Rightarrow> bytes"
    and pos :: "'f \<Rightarrow> nat"
  assumes seek: "unat off < 2 ^ 63 \<Longrightarrow>
      \<exists>f'. fo_seek F f off = Inr f' \<and> content f' = content f \<and> pos f' = unat off"
    and read: "n \<le> MAX_RW_COUNT \<Longrightarrow> \<exists>f'. fo_read F f n = (Inr (take n (drop (pos f) (content f))), f') \<and>
      content f' = content f"
    and read_fits: "fo_read F f n = (Inr bs, f') \<Longrightarrow> length bs \<le> n"
    and read_exact: "pos f + n \<le> length (content f) \<Longrightarrow>
      \<exists>f'. fo_read_exact F f n = (Inr (take n (drop (pos f) (content f))), f') \<and>
      content f' = content f"
    and read_to_end: "\<exists>f'. fo_read_to_end F f = (Inr (drop (pos f) (content f)), f') \<and>
      content f' = content f"
    and write_all: "pos f + length d \<le> length (content f) \<Longrightarrow>
      \<exists>f'. fo_write_all F f d = (True, f') \<and>
      content f' = take (pos f) (content f) @ d @ drop (pos f + length d) (content f)"
begin

lemma fits: "reads_fit F"
  unfolding reads_fit_def using read_fits by blast

text \<open>Seek and read: the bytes at an offset, as many as there are.\<close>

lemma seek_read:
  assumes "unat off < 2 ^ 63" and "n \<le> MAX_RW_COUNT"
  obtains f1 f2 where "fo_seek F f off = Inr f1" and "content f1 = content f"
    and "fo_read F f1 n = (Inr (take n (drop (unat off) (content f))), f2)"
    and "content f2 = content f"
proof -
  obtain f1 where f1: "fo_seek F f off = Inr f1" "content f1 = content f" "pos f1 = unat off"
    using seek [OF assms(1)] by blast
  moreover obtain f2 where "fo_read F f1 n = (Inr (take n (drop (pos f1) (content f1))), f2)"
    "content f2 = content f1"
    using read [OF assms(2)] by blast
  ultimately show ?thesis using that by simp
qed

lemma seek_write:
  assumes "unat off < 2 ^ 63" and "unat off + length d \<le> length (content f)"
  obtains f1 f2 where "fo_seek F f off = Inr f1" and "fo_write_all F f1 d = (True, f2)"
    and "content f2 = take (unat off) (content f) @ d @ drop (unat off + length d) (content f)"
proof -
  obtain f1 where f1: "fo_seek F f off = Inr f1" "content f1 = content f" "pos f1 = unat off"
    using seek [OF assms(1)] by blast
  moreover obtain f2 where "fo_write_all F f1 d = (True, f2)"
    "content f2 = take (pos f1) (content f1) @ d @ drop (pos f1 + length d) (content f1)"
    using write_all [of f1 d] f1 assms(2) by auto
  ultimately show ?thesis using that by simp
qed

text \<open>What was written at an offset is what a later read at that offset returns.\<close>

lemma content_written:
  assumes "n + length d \<le> length c"
  shows "take (length d) (drop n (take n c @ d @ drop (n + length d) c)) = d"
  using assms by simp

end

section \<open>Files as byte sequences\<close>

record image =
  img_data :: bytes
  img_pos :: nat

definition img_open :: "(string \<rightharpoonup> bytes) \<Rightarrow> string \<Rightarrow> image result" where
  "img_open fs path = (case fs path of
     None \<Rightarrow> Inl ''No such file or directory (os error 2)''
   | Some d \<Rightarrow> Inr \<lparr>img_data = d, img_pos = 0\<rparr>)"

definition img_seek :: "image \<Rightarrow> u64 \<Rightarrow> image result" where
  "img_seek f off = (if unat off < 2 ^ 63 then Inr (f\<lparr>img_pos := unat off\<rparr>)
     else Inl ''Invalid argument (os error 22)'')"

definition img_read :: "image \<Rightarrow> nat \<Rightarrow> bytes result \<times> image" where
  "img_read f n = (let bs = take (min n MAX_RW_COUNT) (drop (img_pos f) (img_data f))
     in (Inr bs, f\<lparr>img_pos := img_pos f + length bs\<rparr>))"

definition img_read_exact :: "image \<Rightarrow> nat \<Rightarrow> bytes result \<times> image" where
  "img_read_exact f n = (let bs = take n (drop (img_pos f) (img_data f))
     in (if length bs = n then Inr bs else Inl ''failed to fill whole buffer'',
         f\<lparr>img_pos := img_pos f + length bs\<rparr>))"

definition img_read_to_end :: "image \<Rightarrow> bytes result \<times> image" where
  "img_read_to_end f = (let bs = drop (img_pos f) (img_data f)
     in (Inr bs, f\<lparr>img_pos := img_pos f + length bs\<rparr>))"

definition img_write_all :: "image \<Rightarrow> bytes \<Rightarrow> bool \<times> image" where
  "img_write_all f d = (if d = [] then (True, f) else
     (let c = img_data f @ replicate (img_pos f - length (img_data f)) 0
      in (True, \<lparr>img_data = take (img_pos f) c @ d @ drop (img_pos f + length d) c,
                 img_pos = img_pos f + length d\<rparr>)))"

definition image_ops :: "(string \<rightharpoonup> bytes) \<Rightarrow> image file_ops" where
  "image_ops fs = \<lparr>fo_open = img_open fs,
     fo_len = (\<lambda>f. Some (of_nat (length (img_data f)))),
     fo_seek = img_seek, fo_read = img_read, fo_read_exact = img_read_exact,
     fo_read_to_end = img_read_to_end, fo_write_all = img_write_all\<rparr>"

interpretation img: regular_file "image_ops fs" img_data img_pos
  for fs :: "string \<rightharpoonup> bytes"
proof unfold_locales
  fix f and n :: nat and d :: bytes
  show "\<exists>f'. fo_read (image_ops fs) f n = (Inr (take n (drop (img_pos f) (img_data f))), f') \<and>
      img_data f' = img_data f" if "n \<le> MAX_RW_COUNT"
    using that by (simp add: image_ops_def img_read_def Let_def min_def)
  show "length bs \<le> n" if "fo_read (image_ops fs) f n = (Inr bs, g)" for bs g
    using that by (auto simp: image_ops_def img_read_def Let_def)
  show "\<exists>f'. fo_read_to_end (image_ops fs) f = (Inr (drop (img_pos f) (img_data f)), f') \<and>
      img_data f' = img_data f"
    by (simp add: image_ops_def img_read_to_end_def Let_def)
  show "\<exists>f'. fo_seek (image_ops fs) f off = Inr f' \<and> img_data f' = img_data f \<and> img_pos f' = unat off"
    if "unat off < 2 ^ 63" for off :: u64
    using that by (simp add: image_ops_def img_seek_def)
  show "\<exists>f'. fo_read_exact (image_ops fs) f n = (Inr (take n (drop (img_pos f) (img_data f))), f') \<and>
      img_data f' = img_data f" if "img_pos f + n \<le> length (img_data f)"
    using that by (simp add: image_ops_def img_read_exact_def Let_def)
  show "\<exists>f'. fo_write_all (image_ops fs) f d = (True, f') \<and>
      img_data f' = take (img_pos f) (img_data f) @ d @ drop (img_pos f + length d) (img_data f)"
    if "img_pos f + length d \<le> length (img_data f)"
    using that by (simp add: image_ops_def img_write_all_def Let_def)
qed

end
