(* ===== verification/Ax_Virtio_Blk.thy ===== *)
theory Ax_Virtio_Blk
  imports Ax_Memory Ax_File
begin

text \<open>
  The VirtIO block device (\<open>src/axvm_core/src/virtio.rs\<close>): its register file, the MMIO read and
  write handlers, and the data plane, which walks the available ring, follows each descriptor
  chain, moves sectors between the disk file and guest memory, and fills the used ring.

  Each \<open>Mutex\<close> field of the source is a field of the record: the write handler runs under the lock
  of the guest memory and a read touches one field, so a handler is one atomic step. Two loops of
  the source need care: the walk of a descriptor chain has no bound in the code (it is an
  \<open>exec_loop\<close>, \<open>None\<close> where it never returns), while the loop over the available ring advances a
  16-bit index towards a fixed one.
\<close>

section \<open>Constants\<close>

definition VIRTIO_MMIO_MAGIC_VALUE :: u64 where "VIRTIO_MMIO_MAGIC_VALUE = 0x000"
definition VIRTIO_MMIO_VERSION :: u64 where "VIRTIO_MMIO_VERSION = 0x004"
definition VIRTIO_MMIO_DEVICE_ID :: u64 where "VIRTIO_MMIO_DEVICE_ID = 0x008"
definition VIRTIO_MMIO_VENDOR_ID :: u64 where "VIRTIO_MMIO_VENDOR_ID = 0x00c"
definition VIRTIO_MMIO_DEVICE_FEATURES :: u64 where "VIRTIO_MMIO_DEVICE_FEATURES = 0x010"
definition VIRTIO_MMIO_DEVICE_FEATURES_SEL :: u64 where "VIRTIO_MMIO_DEVICE_FEATURES_SEL = 0x014"
definition VIRTIO_MMIO_DRIVER_FEATURES :: u64 where "VIRTIO_MMIO_DRIVER_FEATURES = 0x020"
definition VIRTIO_MMIO_DRIVER_FEATURES_SEL :: u64 where "VIRTIO_MMIO_DRIVER_FEATURES_SEL = 0x024"
definition VIRTIO_MMIO_QUEUE_SEL :: u64 where "VIRTIO_MMIO_QUEUE_SEL = 0x030"
definition VIRTIO_MMIO_QUEUE_NUM_MAX :: u64 where "VIRTIO_MMIO_QUEUE_NUM_MAX = 0x034"
definition VIRTIO_MMIO_QUEUE_NUM :: u64 where "VIRTIO_MMIO_QUEUE_NUM = 0x038"
definition VIRTIO_MMIO_QUEUE_READY :: u64 where "VIRTIO_MMIO_QUEUE_READY = 0x044"
definition VIRTIO_MMIO_QUEUE_NOTIFY :: u64 where "VIRTIO_MMIO_QUEUE_NOTIFY = 0x050"
definition VIRTIO_MMIO_INTERRUPT_STATUS :: u64 where "VIRTIO_MMIO_INTERRUPT_STATUS = 0x060"
definition VIRTIO_MMIO_INTERRUPT_ACK :: u64 where "VIRTIO_MMIO_INTERRUPT_ACK = 0x064"
definition VIRTIO_MMIO_STATUS :: u64 where "VIRTIO_MMIO_STATUS = 0x070"
definition VIRTIO_MMIO_QUEUE_DESC_LOW :: u64 where "VIRTIO_MMIO_QUEUE_DESC_LOW = 0x080"
definition VIRTIO_MMIO_QUEUE_DESC_HIGH :: u64 where "VIRTIO_MMIO_QUEUE_DESC_HIGH = 0x084"
definition VIRTIO_MMIO_QUEUE_AVAIL_LOW :: u64 where "VIRTIO_MMIO_QUEUE_AVAIL_LOW = 0x090"
definition VIRTIO_MMIO_QUEUE_AVAIL_HIGH :: u64 where "VIRTIO_MMIO_QUEUE_AVAIL_HIGH = 0x094"
definition VIRTIO_MMIO_QUEUE_USED_LOW :: u64 where "VIRTIO_MMIO_QUEUE_USED_LOW = 0x0a0"
definition VIRTIO_MMIO_QUEUE_USED_HIGH :: u64 where "VIRTIO_MMIO_QUEUE_USED_HIGH = 0x0a4"
definition VIRTIO_MMIO_CONFIG :: u64 where "VIRTIO_MMIO_CONFIG = 0x100"

lemmas mmio_regs =
  VIRTIO_MMIO_MAGIC_VALUE_def VIRTIO_MMIO_VERSION_def VIRTIO_MMIO_DEVICE_ID_def
  VIRTIO_MMIO_VENDOR_ID_def VIRTIO_MMIO_DEVICE_FEATURES_def VIRTIO_MMIO_DEVICE_FEATURES_SEL_def
  VIRTIO_MMIO_DRIVER_FEATURES_def VIRTIO_MMIO_DRIVER_FEATURES_SEL_def VIRTIO_MMIO_QUEUE_SEL_def
  VIRTIO_MMIO_QUEUE_NUM_MAX_def VIRTIO_MMIO_QUEUE_NUM_def VIRTIO_MMIO_QUEUE_READY_def
  VIRTIO_MMIO_QUEUE_NOTIFY_def VIRTIO_MMIO_INTERRUPT_STATUS_def VIRTIO_MMIO_INTERRUPT_ACK_def
  VIRTIO_MMIO_STATUS_def VIRTIO_MMIO_QUEUE_DESC_LOW_def VIRTIO_MMIO_QUEUE_DESC_HIGH_def
  VIRTIO_MMIO_QUEUE_AVAIL_LOW_def VIRTIO_MMIO_QUEUE_AVAIL_HIGH_def VIRTIO_MMIO_QUEUE_USED_LOW_def
  VIRTIO_MMIO_QUEUE_USED_HIGH_def VIRTIO_MMIO_CONFIG_def

definition MAGIC_VALUE :: u32 where "MAGIC_VALUE = 0x74726976"
definition VERSION :: u32 where "VERSION = 2"
definition DEVICE_ID_BLOCK :: u32 where "DEVICE_ID_BLOCK = 2"
definition VENDOR_ID :: u32 where "VENDOR_ID = 0x554d4551"

definition VIRTIO_BLK_F_SIZE_MAX :: u64 where "VIRTIO_BLK_F_SIZE_MAX = push_bit 1 1"
definition VIRTIO_BLK_F_SEG_MAX :: u64 where "VIRTIO_BLK_F_SEG_MAX = push_bit 2 1"
definition VIRTIO_BLK_F_GEOMETRY :: u64 where "VIRTIO_BLK_F_GEOMETRY = push_bit 4 1"
definition VIRTIO_BLK_F_BLK_SIZE :: u64 where "VIRTIO_BLK_F_BLK_SIZE = push_bit 6 1"
definition VIRTIO_F_VERSION_1 :: u64 where "VIRTIO_F_VERSION_1 = push_bit 32 1"

definition SECTOR_SIZE :: u32 where "SECTOR_SIZE = 512"
definition VIRTIO_BLK_T_IN :: u32 where "VIRTIO_BLK_T_IN = 0"
definition VIRTIO_BLK_T_OUT :: u32 where "VIRTIO_BLK_T_OUT = 1"
definition VIRTIO_BLK_S_OK :: u8 where "VIRTIO_BLK_S_OK = 0"
definition VRING_DESC_F_NEXT :: u16 where "VRING_DESC_F_NEXT = 1"

section \<open>State\<close>

record 'f virtio_block =
  vb_status :: u32
  vb_features_sel :: u32
  vb_driver_features :: u64
  vb_interrupt_status :: u32
  vb_queue_sel :: u32
  vb_queue_num :: u32
  vb_queue_ready :: u32
  vb_queue_desc :: u64
  vb_queue_avail :: u64
  vb_queue_used :: u64
  vb_last_avail_idx :: u16
  vb_disk :: "'f option"
  vb_disk_size :: u64

definition vb_new :: "'f file_ops \<Rightarrow> string option \<Rightarrow> 'f virtio_block" where
  "vb_new F disk_path =
     (let (file, disk_size) =
        (case disk_path of None \<Rightarrow> (None, 0)
         | Some path \<Rightarrow> (case fo_open F path of
             Inr f \<Rightarrow> (Some f, case fo_len F f of Some n \<Rightarrow> n | None \<Rightarrow> 0)
           | Inl _ \<Rightarrow> (None, 0)))
      in \<lparr>vb_status = 0, vb_features_sel = 0, vb_driver_features = 0, vb_interrupt_status = 0,
          vb_queue_sel = 0, vb_queue_num = 0, vb_queue_ready = 0, vb_queue_desc = 0,
          vb_queue_avail = 0, vb_queue_used = 0, vb_last_avail_idx = 0,
          vb_disk = file, vb_disk_size = disk_size\<rparr>)"

section \<open>MMIO reads\<close>

definition vb_reg :: "'f virtio_block \<Rightarrow> u64 \<Rightarrow> u32" where
  "vb_reg d offset =
     (if offset = VIRTIO_MMIO_MAGIC_VALUE then MAGIC_VALUE
      else if offset = VIRTIO_MMIO_VERSION then VERSION
      else if offset = VIRTIO_MMIO_DEVICE_ID then DEVICE_ID_BLOCK
      else if offset = VIRTIO_MMIO_VENDOR_ID then VENDOR_ID
      else if offset = VIRTIO_MMIO_DEVICE_FEATURES then
        (if vb_features_sel d = 0 then
           ucast (VIRTIO_BLK_F_SIZE_MAX OR VIRTIO_BLK_F_SEG_MAX OR
                  VIRTIO_BLK_F_GEOMETRY OR VIRTIO_BLK_F_BLK_SIZE)
         else ucast (drop_bit 32 VIRTIO_F_VERSION_1))
      else if offset = VIRTIO_MMIO_QUEUE_NUM_MAX then 256
      else if offset = VIRTIO_MMIO_QUEUE_READY then vb_queue_ready d
      else if offset = VIRTIO_MMIO_INTERRUPT_STATUS then vb_interrupt_status d
      else if offset = VIRTIO_MMIO_STATUS then vb_status d
      else if offset = VIRTIO_MMIO_CONFIG then
        ucast ((vb_disk_size d div 512) AND 0xFFFFFFFF)
      else if offset = 0x104 then ucast (drop_bit 32 (vb_disk_size d div 512))
      else if offset = 0x114 then SECTOR_SIZE
      else 0)"

text \<open>\<open>read\<close>: the new contents of the caller's buffer.\<close>

definition vb_read :: "'f virtio_block \<Rightarrow> u64 \<Rightarrow> bytes \<Rightarrow> bytes" where
  "vb_read d offset data =
     (let bs = to_le_bytes 4 (vb_reg d offset); n = min (length data) 4
      in take n bs @ drop n data)"

section \<open>The data plane\<close>

text \<open>
  The recurring match of the source: \<open>read_slice(a, 2)\<close> with \<open>Ok\<close> decoded by \<open>u16::from_le_bytes\<close>.
\<close>

definition read_u16 :: "bool \<Rightarrow> guest_memory \<Rightarrow> usize \<Rightarrow> u16 option exec" where
  "read_u16 oc m a = exec_bind (read_slice oc m a 2) (\<lambda>r. case r of
     Inr bs \<Rightarrow> Done (Some (from_le_bytes [bs ! 0, bs ! 1])) | Inl _ \<Rightarrow> Done None)"

text \<open>The local variables of the loop in \<open>process_descriptor_chain\<close>.\<close>

record chain_vars =
  cv_next_idx :: u16
  cv_sector :: u64
  cv_is_write :: bool
  cv_data_addr :: u64
  cv_data_len :: u32
  cv_status_addr :: u64
  cv_phase :: nat

definition chain_init :: "u16 \<Rightarrow> chain_vars" where
  "chain_init head_idx = \<lparr>cv_next_idx = head_idx, cv_sector = 0, cv_is_write = False,
     cv_data_addr = 0, cv_data_len = 0, cv_status_addr = 0, cv_phase = 0\<rparr>"

record vring_desc =
  vd_addr :: u64
  vd_len :: u32
  vd_flags :: u16
  vd_next :: u16

definition decode_desc :: "bytes \<Rightarrow> vring_desc" where
  "decode_desc bs = \<lparr>vd_addr = from_le_bytes (take 8 bs),
     vd_len = from_le_bytes (take 4 (drop 8 bs)),
     vd_flags = from_le_bytes (take 2 (drop 12 bs)),
     vd_next = from_le_bytes (take 2 (drop 14 bs))\<rparr>"

definition has_next :: "vring_desc \<Rightarrow> bool" where
  "has_next e \<longleftrightarrow> vd_flags e AND VRING_DESC_F_NEXT \<noteq> 0"

text \<open>The \<open>match phase\<close> of one iteration.\<close>

definition chain_phase :: "bool \<Rightarrow> guest_memory \<Rightarrow> vring_desc \<Rightarrow> chain_vars \<Rightarrow> chain_vars exec" where
  "chain_phase oc m e v =
     (if cv_phase v = 0 then
        exec_bind (read_slice oc m (vd_addr e) (min 16 (ucast (vd_len e)))) (\<lambda>r.
          Done ((case r of
            Inr header \<Rightarrow> (if 16 \<le> length header
              then v\<lparr>cv_sector := from_le_bytes (take 8 (drop 8 header)),
                     cv_is_write := ((from_le_bytes (take 4 header) :: u32) = VIRTIO_BLK_T_OUT)\<rparr>
              else v)
          | Inl _ \<Rightarrow> v)\<lparr>cv_phase := 1\<rparr>))
      else if cv_phase v = 1 then
        (if has_next e then Done (v\<lparr>cv_data_addr := vd_addr e, cv_data_len := vd_len e\<rparr>)
         else Done (v\<lparr>cv_status_addr := vd_addr e, cv_phase := 2\<rparr>))
      else Done (v\<lparr>cv_status_addr := vd_addr e\<rparr>))"

text \<open>One iteration of the loop: \<open>Inr\<close> is a \<open>break\<close>.\<close>

definition chain_step :: "bool \<Rightarrow> guest_memory \<Rightarrow> u64 \<Rightarrow> chain_vars \<Rightarrow> (chain_vars + chain_vars) exec" where
  "chain_step oc m desc_table v =
     exec_bind (umul oc (ucast (cv_next_idx v)) 16) (\<lambda>i16.
     exec_bind (uadd oc desc_table i16) (\<lambda>desc_offset.
     exec_bind (read_slice oc m desc_offset 16) (\<lambda>r.
       case r of Inl _ \<Rightarrow> Done (Inr v)
       | Inr desc_bytes \<Rightarrow>
           (let e = decode_desc desc_bytes in
            exec_bind (chain_phase oc m e v) (\<lambda>v'.
              if has_next e then Done (Inl (v'\<lparr>cv_next_idx := vd_next e\<rparr>))
              else Done (Inr v'))))))"

definition chain_walk :: "bool \<Rightarrow> guest_memory \<Rightarrow> u64 \<Rightarrow> u16 \<Rightarrow> chain_vars run" where
  "chain_walk oc m desc_table head_idx =
     exec_loop (\<lambda>v. Some (chain_step oc m desc_table v)) (chain_init head_idx)"

text \<open>The transfer between the disk file and guest memory that follows the walk.\<close>

definition chain_transfer ::
  "bool \<Rightarrow> 'f file_ops \<Rightarrow> 'f virtio_block \<Rightarrow> guest_memory \<Rightarrow> chain_vars \<Rightarrow>
   ('f virtio_block \<times> guest_memory \<times> u32) exec" where
  "chain_transfer oc F d m v =
     (if cv_data_addr v \<noteq> 0 \<and> 0 < cv_data_len v then
        exec_bind (umul oc (cv_sector v) 512) (\<lambda>offset.
          case vb_disk d of None \<Rightarrow> Done (d, m, 0)
          | Some file \<Rightarrow> (case fo_seek F file offset of Inl _ \<Rightarrow> Done (d, m, 0)
            | Inr f1 \<Rightarrow>
                if cv_is_write v then
                  exec_bind (read_slice oc m (cv_data_addr v) (ucast (cv_data_len v))) (\<lambda>r.
                    case r of
                      Inr data \<Rightarrow> Done (d\<lparr>vb_disk := Some (snd (fo_write_all F f1 data))\<rparr>, m, 0)
                    | Inl _ \<Rightarrow> Done (d\<lparr>vb_disk := Some f1\<rparr>, m, 0))
                else
                  (let (r, f2) = fo_read F f1 (unat (cv_data_len v));
                       buf = (case r of Inr bs \<Rightarrow> bs | Inl _ \<Rightarrow> []);
                       d' = d\<lparr>vb_disk := Some f2\<rparr>
                   in if 0 < length buf then
                        exec_bind (ignore_err m (write_slice oc m (cv_data_addr v) buf)) (\<lambda>m'.
                          exec_bind (uadd oc 0 (of_nat (length buf))) (\<lambda>total.
                            Done (d', m', total)))
                      else Done (d', m, 0))))
      else Done (d, m, 0))"

definition chain_status ::
  "bool \<Rightarrow> guest_memory \<Rightarrow> chain_vars \<Rightarrow> u32 \<Rightarrow> (guest_memory \<times> u32) exec" where
  "chain_status oc m v total_written =
     (if cv_status_addr v \<noteq> 0 then
        exec_bind (ignore_err m (write_u8 oc m (cv_status_addr v) VIRTIO_BLK_S_OK)) (\<lambda>m'.
          exec_bind (uadd oc total_written 1) (\<lambda>total. Done (m', total)))
      else Done (m, total_written))"

definition process_descriptor_chain ::
  "bool \<Rightarrow> 'f file_ops \<Rightarrow> 'f virtio_block \<Rightarrow> guest_memory \<Rightarrow> u64 \<Rightarrow> u16 \<Rightarrow>
   ('f virtio_block \<times> guest_memory \<times> u32) run" where
  "process_descriptor_chain oc F d m desc_table head_idx =
     run_bind (chain_walk oc m desc_table head_idx) (\<lambda>v.
       Some (exec_bind (chain_transfer oc F d m v) (\<lambda>(d', m', total).
         exec_bind (chain_status oc m' v total) (\<lambda>(m'', total'). Done (d', m'', total')))))"

text \<open>Publishing one completion: the tail of the loop body in \<open>process_queue\<close>.\<close>

definition push_used ::
  "bool \<Rightarrow> guest_memory \<Rightarrow> u64 \<Rightarrow> u16 \<Rightarrow> u16 \<Rightarrow> u32 \<Rightarrow> guest_memory exec" where
  "push_used oc m used_addr queue_size head_idx written =
     exec_bind (uadd oc used_addr 2) (\<lambda>idx_addr.
     exec_bind (read_u16 oc m idx_addr) (\<lambda>u.
     let used_idx = (case u of Some i \<Rightarrow> i | None \<Rightarrow> 0);
         used_ring_offset = 4 + ucast (used_idx mod queue_size) * 8 in
     exec_bind (uadd oc used_addr used_ring_offset) (\<lambda>slot.
     exec_bind (ignore_err m (write_u32 oc m slot (ucast head_idx))) (\<lambda>m1.
     exec_bind (uadd oc slot 4) (\<lambda>slot4.
     exec_bind (ignore_err m1 (write_u32 oc m1 slot4 written)) (\<lambda>m2.
     exec_bind (uadd oc used_addr 2) (\<lambda>idx_addr'.
     ignore_err m2 (write_u16 oc m2 idx_addr' (used_idx + 1)))))))))"

record 'f queue_vars =
  qv_last_idx :: u16
  qv_work_done :: bool
  qv_dev :: "'f virtio_block"
  qv_mem :: guest_memory

definition queue_step ::
  "bool \<Rightarrow> 'f file_ops \<Rightarrow> u16 \<Rightarrow> u64 \<Rightarrow> u64 \<Rightarrow> u64 \<Rightarrow> u16 \<Rightarrow> 'f queue_vars \<Rightarrow>
   ('f queue_vars + 'f queue_vars) run" where
  "queue_step oc F queue_size desc_addr avail_addr used_addr avail_idx q =
     (if qv_last_idx q = avail_idx then Some (Done (Inr q)) else
      run_bind (Some (uadd oc avail_addr (4 + ucast (qv_last_idx q mod queue_size) * 2))) (\<lambda>ring.
      run_bind (Some (read_u16 oc (qv_mem q) ring)) (\<lambda>h.
        case h of None \<Rightarrow> Some (Done (Inr q))
        | Some head_idx \<Rightarrow>
            run_bind (process_descriptor_chain oc F (qv_dev q) (qv_mem q) desc_addr head_idx)
              (\<lambda>(d, m, written).
                Some (exec_bind (push_used oc m used_addr queue_size head_idx written) (\<lambda>m'.
                  Done (Inl \<lparr>qv_last_idx = qv_last_idx q + 1, qv_work_done = True,
                             qv_dev = d, qv_mem = m'\<rparr>)))))))"

definition process_queue ::
  "bool \<Rightarrow> 'f file_ops \<Rightarrow> 'f virtio_block \<Rightarrow> guest_memory \<Rightarrow>
   (bool \<times> 'f virtio_block \<times> guest_memory) run" where
  "process_queue oc F d m =
     (let queue_size = (ucast (vb_queue_num d) :: u16) in
      if queue_size = 0 \<or> vb_queue_ready d = 0 then Some (Done (False, d, m)) else
      run_bind (Some (uadd oc (vb_queue_avail d) 2)) (\<lambda>idx_addr.
      run_bind (Some (read_u16 oc m idx_addr)) (\<lambda>a.
        case a of None \<Rightarrow> Some (Done (False, d, m))
        | Some avail_idx \<Rightarrow>
            run_bind (exec_loop
                (queue_step oc F queue_size (vb_queue_desc d) (vb_queue_avail d) (vb_queue_used d)
                   avail_idx)
                \<lparr>qv_last_idx = vb_last_avail_idx d, qv_work_done = False, qv_dev = d, qv_mem = m\<rparr>)
              (\<lambda>q. let d' = (qv_dev q)\<lparr>vb_last_avail_idx := qv_last_idx q\<rparr> in
                 if qv_work_done q
                 then Some (Done (True,
                        d'\<lparr>vb_interrupt_status := vb_interrupt_status d' OR 1\<rparr>, qv_mem q))
                 else Some (Done (False, d', qv_mem q))))))"

section \<open>MMIO writes\<close>

definition set_low :: "u64 \<Rightarrow> u32 \<Rightarrow> u64" where
  "set_low g val = (g AND 0xFFFFFFFF00000000) OR ucast val"

definition set_high :: "u64 \<Rightarrow> u32 \<Rightarrow> u64" where
  "set_high g val = (g AND 0x00000000FFFFFFFF) OR push_bit 32 (ucast val)"

text \<open>The registers whose write only changes the register file.\<close>

definition vb_set_reg :: "'f virtio_block \<Rightarrow> u64 \<Rightarrow> u32 \<Rightarrow> 'f virtio_block" where
  "vb_set_reg d offset val =
     (if offset = VIRTIO_MMIO_DEVICE_FEATURES_SEL then d\<lparr>vb_features_sel := val\<rparr>
      else if offset = VIRTIO_MMIO_DRIVER_FEATURES_SEL then d\<lparr>vb_features_sel := val\<rparr>
      else if offset = VIRTIO_MMIO_DRIVER_FEATURES then
        (let feat = vb_driver_features d in
         if vb_features_sel d = 0
         then d\<lparr>vb_driver_features := (feat AND NOT 0xFFFFFFFF) OR ucast val\<rparr>
         else d\<lparr>vb_driver_features := (feat AND 0xFFFFFFFF) OR push_bit 32 (ucast val)\<rparr>)
      else if offset = VIRTIO_MMIO_QUEUE_SEL then d\<lparr>vb_queue_sel := val\<rparr>
      else if offset = VIRTIO_MMIO_QUEUE_NUM then d\<lparr>vb_queue_num := val\<rparr>
      else if offset = VIRTIO_MMIO_QUEUE_READY then d\<lparr>vb_queue_ready := val\<rparr>
      else if offset = VIRTIO_MMIO_INTERRUPT_ACK then
        d\<lparr>vb_interrupt_status := vb_interrupt_status d AND NOT val\<rparr>
      else if offset = VIRTIO_MMIO_STATUS then
        (let old = vb_status d; d' = d\<lparr>vb_status := val\<rparr> in
         if val = 0 \<and> old \<noteq> 0 then d'\<lparr>vb_queue_ready := 0, vb_last_avail_idx := 0\<rparr> else d')
      else if offset = VIRTIO_MMIO_QUEUE_DESC_LOW then d\<lparr>vb_queue_desc := set_low (vb_queue_desc d) val\<rparr>
      else if offset = VIRTIO_MMIO_QUEUE_DESC_HIGH then d\<lparr>vb_queue_desc := set_high (vb_queue_desc d) val\<rparr>
      else if offset = VIRTIO_MMIO_QUEUE_AVAIL_LOW then d\<lparr>vb_queue_avail := set_low (vb_queue_avail d) val\<rparr>
      else if offset = VIRTIO_MMIO_QUEUE_AVAIL_HIGH then d\<lparr>vb_queue_avail := set_high (vb_queue_avail d) val\<rparr>
      else if offset = VIRTIO_MMIO_QUEUE_USED_LOW then d\<lparr>vb_queue_used := set_low (vb_queue_used d) val\<rparr>
      else if offset = VIRTIO_MMIO_QUEUE_USED_HIGH then d\<lparr>vb_queue_used := set_high (vb_queue_used d) val\<rparr>
      else d)"

text \<open>\<open>write\<close>: the \<open>Result<bool, String>\<close> it returns, the device and the guest memory after it.\<close>

definition vb_write ::
  "bool \<Rightarrow> 'f file_ops \<Rightarrow> 'f virtio_block \<Rightarrow> guest_memory \<Rightarrow> u64 \<Rightarrow> bytes \<Rightarrow>
   (bool result \<times> 'f virtio_block \<times> guest_memory) run" where
  "vb_write oc F d m offset data =
     (if length data < 4 then Some (Done (Inr False, d, m)) else
      (let val = from_le_bytes (take 4 data) in
       if offset = VIRTIO_MMIO_QUEUE_NOTIFY then
         run_bind (process_queue oc F d m) (\<lambda>(irq, d', m'). Some (Done (Inr irq, d', m')))
       else Some (Done (Inr False, vb_set_reg d offset val, m))))"

section \<open>What a request can change\<close>

text \<open>A request changes the disk handle of the device and nothing else of it.\<close>

definition same_regs :: "'f virtio_block \<Rightarrow> 'f virtio_block \<Rightarrow> bool" where
  "same_regs d d' \<longleftrightarrow> d'\<lparr>vb_disk := None\<rparr> = d\<lparr>vb_disk := None\<rparr>"

lemma same_regs_refl [simp]: "same_regs d d"
  by (simp add: same_regs_def)

lemma same_regs_trans [trans]: "same_regs a b \<Longrightarrow> same_regs b c \<Longrightarrow> same_regs a c"
  by (simp add: same_regs_def)

lemma same_regs_disk [simp]: "same_regs d (d\<lparr>vb_disk := x\<rparr>)"
  by (simp add: same_regs_def)

lemma same_regs_fields:
  assumes "same_regs d d'"
  shows "vb_status d' = vb_status d" "vb_features_sel d' = vb_features_sel d"
    "vb_driver_features d' = vb_driver_features d" "vb_interrupt_status d' = vb_interrupt_status d"
    "vb_queue_sel d' = vb_queue_sel d" "vb_queue_num d' = vb_queue_num d"
    "vb_queue_ready d' = vb_queue_ready d" "vb_queue_desc d' = vb_queue_desc d"
    "vb_queue_avail d' = vb_queue_avail d" "vb_queue_used d' = vb_queue_used d"
    "vb_last_avail_idx d' = vb_last_avail_idx d" "vb_disk_size d' = vb_disk_size d"
  using assms by (cases d; cases d'; simp add: same_regs_def)+

lemma chain_transfer_frame:
  assumes "chain_transfer oc F d m v = Done (d', m', t)"
  shows "same_regs d d'" and "same_shape m m'"
  using assms
  by (auto simp: chain_transfer_def Let_def dest: ignore_err_shape
      split: if_splits option.splits sum.splits prod.splits)

lemma push_used_shape: "push_used oc m used qs h w = Done m' \<Longrightarrow> same_shape m m'"
  by (auto simp: push_used_def Let_def dest!: ignore_err_typed_shape intro: same_shape_trans)

text \<open>The loop over the available ring, as an invariant of its variables.\<close>

end
