(* ===== verification/Ax_Virtio_Queue.thy ===== *)
theory Ax_Virtio_Queue
  imports Ax_Virtio_Blk
begin

text \<open>
  The register file of the block device of \<open>Ax_Virtio_Blk\<close>: its invariant and the queue addresses
  under any sequence of guest accesses; and why a release build is not memory safe.
\<close>

section \<open>The register file under any guest\<close>

definition blk_inv :: "'f virtio_block \<Rightarrow> bool" where
  "blk_inv d \<longleftrightarrow> vb_interrupt_status d = 0 \<or> vb_interrupt_status d = 1"

lemma blk_inv_new: "blk_inv (vb_new F path)"
  by (simp add: blk_inv_def vb_new_def Let_def split: prod.splits)

lemma low_bit_word:
  assumes "(x :: u32) AND NOT 1 = 0"
  shows "x = 0 \<or> x = 1"
proof -
  have "n = 0" if "bit x n" for n
    using arg_cong [OF assms, of "\<lambda>w. bit w n"] that
    by (auto simp: bit_and_iff bit_not_iff bit_1_iff dest: bit_imp_le_length)
  then have "x = (if bit x 0 then 1 else 0)"
    by (intro bit_word_eqI) (auto simp: bit_1_iff)
  then show ?thesis by (metis (full_types))
qed

lemma blk_inv_bits: "blk_inv d \<longleftrightarrow> vb_interrupt_status d AND NOT 1 = 0"
  using low_bit_word [of "vb_interrupt_status d"] by (auto simp: blk_inv_def)

lemma vb_set_reg_inv: "blk_inv d \<Longrightarrow> blk_inv (vb_set_reg d offset val)"
proof -
  assume "blk_inv d"
  moreover have "(s AND NOT val) AND NOT 1 = 0" if "s AND NOT 1 = 0" for s :: u32
    using that by (metis and.assoc and.commute and_zero_eq)
  ultimately show ?thesis
    unfolding blk_inv_bits by (simp add: vb_set_reg_def Let_def)
qed

text \<open>A sequence of register writes, and the half of an address that each leaves behind.\<close>

definition vb_set_regs :: "(u64 \<times> u32) list \<Rightarrow> 'f virtio_block \<Rightarrow> 'f virtio_block" where
  "vb_set_regs ws d = fold (\<lambda>w d. vb_set_reg d (fst w) (snd w)) ws d"

lemma address_mask_bits:
  "bit (set_low g v) n \<longleftrightarrow> (if n < 32 then bit v n else bit g n)"
  "bit (set_high g v) n \<longleftrightarrow> (if n < 32 then bit g n else n < 64 \<and> bit v (n - 32))"
proof -
  have masks: "(0xFFFFFFFF00000000 :: u64) = NOT (mask 32)" "(0x00000000FFFFFFFF :: u64) = mask 32"
    by (simp_all add: mask_eq_exp_minus_1)
  show "bit (set_low g v) n \<longleftrightarrow> (if n < 32 then bit v n else bit g n)"
    "bit (set_high g v) n \<longleftrightarrow> (if n < 32 then bit g n else n < 64 \<and> bit v (n - 32))"
    unfolding set_low_def set_high_def masks
    by (auto simp: bit_or_iff bit_and_iff bit_not_iff bit_mask_iff bit_push_bit_iff bit_unsigned_iff
        dest: bit_imp_le_length)
qed

lemma queue_addr_bits:
  assumes upd: "\<And>d off v. f (vb_set_reg d off v) =
      (if off = L then set_low (f d) v else if off = H then set_high (f d) v else f d)"
    and "L \<noteq> H" and "n < 64"
  shows "bit (f (vb_set_regs ws d) :: u64) n \<longleftrightarrow>
    (if n < 32 then (case map_of (rev ws) L of Some v \<Rightarrow> bit v n | None \<Rightarrow> bit (f d) n)
     else (case map_of (rev ws) H of Some v \<Rightarrow> bit v (n - 32) | None \<Rightarrow> bit (f d) n))"
  using assms(2,3)
  by (induction ws rule: rev_induct) (auto simp: vb_set_regs_def upd address_mask_bits)

lemma queue_addr_last_writes:
  assumes upd: "\<And>d off v. f (vb_set_reg d off v) =
      (if off = L then set_low (f d) v else if off = H then set_high (f d) v else f d)"
    and "L \<noteq> H" and "map_of (rev ws) L = Some lo" and "map_of (rev ws) H = Some hi"
  shows "f (vb_set_regs ws d) = push_bit 32 (ucast hi) OR ucast lo"
  by (rule bit_word_eqI)
    (auto simp: queue_addr_bits [of f L H, OF upd assms(2)] assms(3,4) bit_or_iff bit_push_bit_iff
      bit_unsigned_iff dest: bit_imp_le_length)

text \<open>
  The queue address registers: after any sequence of register writes, in any order and with any
  repetition, each of the three queue addresses is made of the values last written to its low and
  to its high half.
\<close>

theorem queue_address_registers:
  assumes "map_of (rev ws) VIRTIO_MMIO_QUEUE_DESC_LOW = Some dl"
    and "map_of (rev ws) VIRTIO_MMIO_QUEUE_DESC_HIGH = Some dh"
    and "map_of (rev ws) VIRTIO_MMIO_QUEUE_AVAIL_LOW = Some al"
    and "map_of (rev ws) VIRTIO_MMIO_QUEUE_AVAIL_HIGH = Some ah"
    and "map_of (rev ws) VIRTIO_MMIO_QUEUE_USED_LOW = Some ul"
    and "map_of (rev ws) VIRTIO_MMIO_QUEUE_USED_HIGH = Some uh"
  shows "vb_queue_desc (vb_set_regs ws d) = push_bit 32 (ucast dh) OR ucast dl \<and>
    vb_queue_avail (vb_set_regs ws d) = push_bit 32 (ucast ah) OR ucast al \<and>
    vb_queue_used (vb_set_regs ws d) = push_bit 32 (ucast uh) OR ucast ul"
  by (intro conjI queue_addr_last_writes [OF _ _ assms(1,2)] queue_addr_last_writes [OF _ _ assms(3,4)]
      queue_addr_last_writes [OF _ _ assms(5,6)])
    (simp_all add: vb_set_reg_def mmio_regs Let_def)

theorem queue_address_registers_witness:
  "vb_queue_avail (vb_set_regs
     [(VIRTIO_MMIO_QUEUE_AVAIL_HIGH, 1), (VIRTIO_MMIO_QUEUE_DESC_LOW, 2), (VIRTIO_MMIO_STATUS, 0),
      (VIRTIO_MMIO_QUEUE_DESC_HIGH, 3), (VIRTIO_MMIO_QUEUE_USED_LOW, 4),
      (VIRTIO_MMIO_QUEUE_USED_HIGH, 5), (VIRTIO_MMIO_QUEUE_AVAIL_LOW, 9),
      (VIRTIO_MMIO_QUEUE_AVAIL_LOW, 6)] (vb_new (image_ops Map.empty) None)) =
   push_bit 32 (ucast (1 :: u32)) OR ucast (6 :: u32)"
  by (rule queue_address_registers [where dl = 2 and dh = 3 and ul = 4 and uh = 5,
        THEN conjunct2, THEN conjunct1])
    (simp_all add: mmio_regs)

section \<open>Memory safety\<close>

text \<open>
  C29. A release build is not memory safe against its guest. A guest that programs the available ring
  at \<open>2 ^ 64 - 3\<close> and notifies the queue makes the device read past the end of the address space:
  the five register writes below, from the initial state and for every guest memory, end in
  undefined behaviour.
\<close>

theorem blk_release_guest_escape:
  assumes "0 < gm_len m" and "gm_wf m" and "gm_mapped m < 2 ^ 63"
  shows "vb_write False F
      (vb_set_regs [(VIRTIO_MMIO_QUEUE_NUM, 8), (VIRTIO_MMIO_QUEUE_AVAIL_LOW, 0xFFFFFFFD),
         (VIRTIO_MMIO_QUEUE_AVAIL_HIGH, 0xFFFFFFFF), (VIRTIO_MMIO_QUEUE_READY, 1)] (vb_new F path))
      m VIRTIO_MMIO_QUEUE_NOTIFY [0, 0, 0, 0] = Some (Abort Undefined_Behaviour)"
proof -
  let ?d = "vb_set_regs [(VIRTIO_MMIO_QUEUE_NUM, 8), (VIRTIO_MMIO_QUEUE_AVAIL_LOW, 0xFFFFFFFD),
     (VIRTIO_MMIO_QUEUE_AVAIL_HIGH, 0xFFFFFFFF), (VIRTIO_MMIO_QUEUE_READY, 1)] (vb_new F path)"
  have regs: "vb_queue_num ?d = 8" "vb_queue_ready ?d = 1" "vb_queue_avail ?d = 0xFFFFFFFFFFFFFFFD"
    by (simp_all add: vb_set_regs_def vb_set_reg_def mmio_regs vb_new_def Let_def set_low_def
        set_high_def split: prod.splits)
  have "\<not> gm_len m < 1" using assms(1) by (simp add: word_less_nat_alt)
  moreover have "uadd False (0xFFFFFFFFFFFFFFFF :: u64) 2 = Done 1" by simp
  ultimately have "read_u16 False m 0xFFFFFFFFFFFFFFFF = Abort Undefined_Behaviour"
    using assms(3) by (simp add: read_u16_def read_slice_def del: uadd_release)
  then show ?thesis
    by (simp add: vb_write_def process_queue_def regs Let_def)
qed

theorem blk_release_guest_escape_witness:
  "vb_write False (image_ops Map.empty)
      (vb_set_regs [(VIRTIO_MMIO_QUEUE_NUM, 8), (VIRTIO_MMIO_QUEUE_AVAIL_LOW, 0xFFFFFFFD),
         (VIRTIO_MMIO_QUEUE_AVAIL_HIGH, 0xFFFFFFFF), (VIRTIO_MMIO_QUEUE_READY, 1)]
         (vb_new (image_ops Map.empty) None))
      \<lparr>gm_ptr = 4096, gm_len = 0x8000000, gm_owned = True, gm_mapped = 0x8000000,
       gm_bytes = (\<lambda>_. 0)\<rparr>
      VIRTIO_MMIO_QUEUE_NOTIFY [0, 0, 0, 0] = Some (Abort Undefined_Behaviour)"
  by (rule blk_release_guest_escape) (simp_all add: gm_wf_def)

end
