(* ===== verification/Ax_Virtio_Chain.thy ===== *)
theory Ax_Virtio_Chain
  imports Ax_Virtio_Queue
begin

text \<open>
  Descriptor chains of the block device: what \<open>process_descriptor_chain\<close> of
  \<open>src/axvm_core/src/virtio.rs\<close> does with the chain a driver has built. The layout of the descriptor
  table is stated over the bytes of the guest memory, so the hypotheses of the theorems are
  conditions on what the guest wrote. The walk is characterised for chains of any length, of which the last data
  descriptor is the one that counts; the request itself for a disk that is a regular file, with one data buffer,
  and with several, where data is lost.
\<close>

section \<open>Descriptors in memory\<close>

definition mem_u16 :: "guest_memory \<Rightarrow> nat \<Rightarrow> u16" where
  "mem_u16 m a = from_le_bytes (mem_get (gm_bytes m) a 2)"

definition desc_in :: "guest_memory \<Rightarrow> u64 \<Rightarrow> u16 \<Rightarrow> bool" where
  "desc_in m t i \<longleftrightarrow> gm_range m t (16 * unat i + 16)"

definition desc_entry :: "guest_memory \<Rightarrow> u64 \<Rightarrow> u16 \<Rightarrow> vring_desc" where
  "desc_entry m t i = decode_desc (mem_get (gm_bytes m) (unat t + 16 * unat i) 16)"

lemma bytes2: "length bs = 2 \<Longrightarrow> [bs ! 0, bs ! Suc 0] = bs"
  by (rule nth_equalityI) (auto simp: nth_Cons less_Suc_eq_0_disj split: nat.splits)

lemma read_u16_ok:
  assumes "gm_wf m" and "gm_range m a 2"
  shows "read_u16 oc m a = Done (Some (mem_u16 m (unat a)))"
  using assms bytes2 [of "mem_get (gm_bytes m) (unat a) 2"]
  by (simp add: read_u16_def read_slice_ok mem_u16_def)

lemma chain_step_in:
  assumes "gm_wf m" and "desc_in m t (cv_next_idx v)"
  shows "chain_step oc m t v =
    (let e = desc_entry m t (cv_next_idx v) in
     exec_bind (chain_phase oc m e v) (\<lambda>v'.
       if has_next e then Done (Inl (v'\<lparr>cv_next_idx := vd_next e\<rparr>)) else Done (Inr v')))"
proof -
  let ?i = "cv_next_idx v"
  note mul = index_scale [where c = 16 and i = ?i, simplified]
  note off = range_offset [OF assms(2) [unfolded desc_in_def], of "ucast ?i * 16"]
  have "read_slice oc m (t + ucast ?i * 16) 16 =
      Done (Inr (mem_get (gm_bytes m) (unat t + 16 * unat ?i) 16))"
    using assms(1) off(2,3) mul(2) by (subst read_slice_ok) simp_all
  then show ?thesis using off(1) mul by (simp add: chain_step_def desc_entry_def Let_def)
qed

section \<open>When the walk ends\<close>

lemma chain_phase_later:
  "0 < cv_phase v \<Longrightarrow> \<exists>v'. chain_phase oc m e v = Done v' \<and> 0 < cv_phase v'"
  by (simp add: chain_phase_def)

lemma chain_phase_nonzero: "chain_phase oc m e v = Done v' \<Longrightarrow> 0 < cv_phase v'"
  by (auto simp: chain_phase_def split: if_splits)

lemma chain_step_phase: "chain_step oc m t v = Done (Inl u) \<Longrightarrow> 0 < cv_phase u"
  by (auto simp: chain_step_def Let_def dest!: chain_phase_nonzero split: sum.splits if_splits)

text \<open>After the first descriptor, how the walk goes on depends on the next index alone.\<close>

lemma chain_step_key:
  assumes "0 < cv_phase v" and "0 < cv_phase v'" and "cv_next_idx v = cv_next_idx v'"
    and "chain_step oc m t v = Done (Inl u)"
  shows "\<exists>u'. chain_step oc m t v' = Done (Inl u') \<and> cv_next_idx u' = cv_next_idx u"
proof -
  from assms(4) obtain i a bs w where
    s: "umul oc (ucast (cv_next_idx v)) 16 = Done i" "uadd oc t i = Done a"
      "read_slice oc m a 16 = Done (Inr bs)" "has_next (decode_desc bs)"
      "u = w\<lparr>cv_next_idx := vd_next (decode_desc bs)\<rparr>"
    by (auto simp: chain_step_def Let_def split: sum.splits if_splits)
  obtain w' where "chain_phase oc m (decode_desc bs) v' = Done w'"
    using chain_phase_later [OF assms(2)] by blast
  with s assms(3) show ?thesis by (simp add: chain_step_def Let_def)
qed

lemma chain_walk_long:
  assumes "loop_state (\<lambda>v. Some (chain_step oc m t v)) 65537 (chain_init h) \<noteq> None"
  shows "chain_walk oc m t h = None"
  unfolding chain_walk_def
proof (rule exec_loop_survives)
  let ?body = "\<lambda>v. Some (chain_step oc m t v)"
  fix n
  have split: "loop_state ?body (Suc k) (chain_init h) =
      (case loop_state ?body 1 (chain_init h) of None \<Rightarrow> None | Some v \<Rightarrow> loop_state ?body k v)" for k
    using loop_state_add [of ?body 1 k "chain_init h"] by simp
  from assms split [of 65536] obtain v where v: "loop_state ?body 1 (chain_init h) = Some v"
    "loop_state ?body 65536 v \<noteq> None"
    by (auto split: option.splits)
  have "0 < cv_phase v"
    using v(1) by (auto simp: loop_state_Suc_Some simp del: loop_state.simps dest: chain_step_phase)
  have "loop_state ?body k v \<noteq> None" for k
    by (rule loop_key_recurs [where I = "\<lambda>v. 0 < cv_phase v" and k = cv_next_idx])
      (use v(2) \<open>0 < cv_phase v\<close> in \<open>auto dest: chain_step_phase chain_step_key simp: card_word\<close>)
  then have "loop_state ?body (Suc n) (chain_init h) \<noteq> None"
    using v(1) split [of n] by simp
  then show "loop_state ?body n (chain_init h) \<noteq> None"
    by (rule loop_state_prefix [rotated]) simp
qed

text \<open>
  C31. Termination of the descriptor walk, for every memory and every head: either the loop of
  \<open>process_descriptor_chain\<close> leaves within 65537 descriptors, or it never does. The bound is what a
  cut-off in the code would need; the code has none.
\<close>

theorem chain_walk_bound:
  "chain_walk oc m t h = None \<longleftrightarrow>
     loop_state (\<lambda>v. Some (chain_step oc m t v)) 65537 (chain_init h) \<noteq> None"
proof
  assume n: "chain_walk oc m t h = None"
  show "loop_state (\<lambda>v. Some (chain_step oc m t v)) 65537 (chain_init h) \<noteq> None"
    using n exec_loop_ends [of "\<lambda>v. Some (chain_step oc m t v)" 65537 "chain_init h"]
    unfolding chain_walk_def by blast
qed (rule chain_walk_long)

section \<open>What the walk yields\<close>

text \<open>The chain that starts at the first index of the list and ends at the last one.\<close>

fun chain_path :: "guest_memory \<Rightarrow> u64 \<Rightarrow> u16 list \<Rightarrow> bool" where
  "chain_path m t [] \<longleftrightarrow> False"
| "chain_path m t [i] \<longleftrightarrow> desc_in m t i \<and> \<not> has_next (desc_entry m t i)"
| "chain_path m t (i # j # is) \<longleftrightarrow> desc_in m t i \<and> has_next (desc_entry m t i) \<and>
     vd_next (desc_entry m t i) = j \<and> chain_path m t (j # is)"

definition hdr_type :: "guest_memory \<Rightarrow> vring_desc \<Rightarrow> u32" where
  "hdr_type m e = from_le_bytes (mem_get (gm_bytes m) (unat (vd_addr e)) 4)"

definition hdr_sector :: "guest_memory \<Rightarrow> vring_desc \<Rightarrow> u64" where
  "hdr_sector m e = from_le_bytes (mem_get (gm_bytes m) (unat (vd_addr e) + 8) 8)"

definition hdr_in :: "guest_memory \<Rightarrow> vring_desc \<Rightarrow> bool" where
  "hdr_in m e \<longleftrightarrow> 16 \<le> vd_len e \<and> gm_range m (vd_addr e) 16"

text \<open>The request that a chain of at least three descriptors is read as.\<close>

definition chain_request :: "guest_memory \<Rightarrow> u64 \<Rightarrow> u16 list \<Rightarrow> chain_vars" where
  "chain_request m t p =
     (let e0 = desc_entry m t (hd p); ed = desc_entry m t (last (butlast p));
          es = desc_entry m t (last p)
      in \<lparr>cv_next_idx = last p, cv_sector = hdr_sector m e0,
          cv_is_write = (hdr_type m e0 = VIRTIO_BLK_T_OUT),
          cv_data_addr = vd_addr ed, cv_data_len = vd_len ed, cv_status_addr = vd_addr es,
          cv_phase = 2\<rparr>)"

lemma chain_phase_header:
  assumes "gm_wf m" and "hdr_in m e" and "cv_phase v = 0"
  shows "chain_phase oc m e v = Done (v\<lparr>cv_sector := hdr_sector m e,
     cv_is_write := (hdr_type m e = VIRTIO_BLK_T_OUT), cv_phase := 1\<rparr>)"
proof -
  have "min 16 (ucast (vd_len e)) = (16 :: u64)"
    using assms(2) by (simp add: hdr_in_def min_def word_le_nat_alt)
  then have "read_slice oc m (vd_addr e) (min 16 (ucast (vd_len e))) =
      Done (Inr (mem_get (gm_bytes m) (unat (vd_addr e)) 16))"
    using assms by (simp add: read_slice_ok hdr_in_def)
  then show ?thesis
    using assms(3) by (simp add: chain_phase_def hdr_sector_def hdr_type_def take_mem_get drop_mem_get)
qed

lemma chain_walk_data:
  assumes "gm_wf m"
  shows "chain_path m t (i # ks) \<Longrightarrow> cv_phase v = 1 \<Longrightarrow> cv_next_idx v = i \<Longrightarrow>
   exec_loop (\<lambda>v. Some (chain_step oc m t v)) v =
   Some (Done (v\<lparr>cv_next_idx := last (i # ks),
      cv_data_addr := (if ks = [] then cv_data_addr v else vd_addr (desc_entry m t (last (butlast (i # ks))))),
      cv_data_len := (if ks = [] then cv_data_len v else vd_len (desc_entry m t (last (butlast (i # ks))))),
      cv_status_addr := vd_addr (desc_entry m t (last (i # ks))), cv_phase := 2\<rparr>))"
proof (induction ks arbitrary: i v)
  case Nil
  then have "chain_step oc m t v =
      Done (Inr (v\<lparr>cv_status_addr := vd_addr (desc_entry m t i), cv_phase := 2\<rparr>))"
    using assms by (simp add: chain_step_in chain_phase_def)
  with Nil.prems(3) show ?case by (auto simp: exec_loop_Inr)
next
  case (Cons j js)
  let ?e = "desc_entry m t i"
  let ?v = "v\<lparr>cv_next_idx := j, cv_data_addr := vd_addr ?e, cv_data_len := vd_len ?e\<rparr>"
  have "chain_step oc m t v = Done (Inl ?v)"
    using assms Cons.prems by (simp add: chain_step_in chain_phase_def Let_def)
  then have "exec_loop (\<lambda>v. Some (chain_step oc m t v)) v = exec_loop (\<lambda>v. Some (chain_step oc m t v)) ?v"
    by (simp add: exec_loop_Inl)
  also have "\<dots> = Some (Done (?v\<lparr>cv_next_idx := last (j # js),
      cv_data_addr := (if js = [] then vd_addr ?e else vd_addr (desc_entry m t (last (butlast (j # js))))),
      cv_data_len := (if js = [] then vd_len ?e else vd_len (desc_entry m t (last (butlast (j # js))))),
      cv_status_addr := vd_addr (desc_entry m t (last (j # js))), cv_phase := 2\<rparr>))"
    using Cons.IH [of j ?v] Cons.prems by simp
  finally show ?case by (cases js) simp_all
qed

lemma chain_walk_path:
  assumes "gm_wf m" and "chain_path m t p" and "3 \<le> length p" and "hdr_in m (desc_entry m t (hd p))"
  shows "chain_walk oc m t (hd p) = Some (Done (chain_request m t p))"
proof -
  obtain h i ks where p: "p = h # i # ks" and ne: "ks \<noteq> []"
    using assms(3) by (cases p; cases "tl p"; cases "tl (tl p)") auto
  let ?v = "(chain_init h)\<lparr>cv_next_idx := i, cv_sector := hdr_sector m (desc_entry m t h),
     cv_is_write := (hdr_type m (desc_entry m t h) = VIRTIO_BLK_T_OUT), cv_phase := 1\<rparr>"
  have "chain_step oc m t (chain_init h) = Done (Inl ?v)"
    using assms p by (simp add: chain_step_in chain_phase_header chain_init_def Let_def)
  then have "chain_walk oc m t h = exec_loop (\<lambda>v. Some (chain_step oc m t v)) ?v"
    by (simp add: chain_walk_def exec_loop_Inl)
  also have "\<dots> = Some (Done (chain_request m t p))"
    using assms(1,2) p ne
    by (subst chain_walk_data [where i = i and ks = ks])
      (simp_all add: chain_request_def Let_def chain_init_def)
  finally show ?thesis using p by simp
qed

section \<open>Requests on a disk that is a regular file\<close>

text \<open>The buffers of a request lie in guest memory and its sector is one a file can have.\<close>

definition request_ok :: "guest_memory \<Rightarrow> chain_vars \<Rightarrow> bool" where
  "request_ok m v \<longleftrightarrow> cv_data_addr v \<noteq> 0 \<and> 0 < cv_data_len v \<and> cv_data_len v < 0xFFFFFFFF \<and>
     gm_range m (cv_data_addr v) (unat (cv_data_len v)) \<and>
     cv_status_addr v \<noteq> 0 \<and> gm_range m (cv_status_addr v) 1 \<and> unat (cv_sector v) * 512 < 2 ^ 63"

lemma request_offset:
  assumes "unat (s :: u64) * 512 < 2 ^ 63"
  shows "umul oc s 512 = Done (s * 512)" and "unat (s * 512) = unat s * 512"
  using assms by (simp_all add: umul_no_overflow unat_word_ariths)

lemma chain_status_ok:
  assumes "gm_wf m" and "cv_status_addr v \<noteq> 0" and "gm_range m (cv_status_addr v) 1"
    and "unat (t :: u32) + 1 < 2 ^ 32"
  shows "chain_status oc m v t =
    Done (m\<lparr>gm_bytes := mem_upd (gm_bytes m) (unat (cv_status_addr v)) [VIRTIO_BLK_S_OK]\<rparr>, t + 1)"
proof -
  have "uadd oc t 1 = Done (t + 1)" using assms(4) by (intro uadd_no_overflow) simp
  then show ?thesis using assms(1-3) by (simp add: chain_status_def write_u8_def write_slice_ok)
qed

context regular_file
begin

lemma transfer_read:
  assumes "gm_wf m" and "request_ok m v" and "\<not> cv_is_write v" and "vb_disk d = Some f"
    and "unat (cv_sector v) * 512 < length (content f)" and "unat (cv_data_len v) \<le> MAX_RW_COUNT"
  defines "bs \<equiv> take (unat (cv_data_len v)) (drop (unat (cv_sector v) * 512) (content f))"
  shows "\<exists>f'. content f' = content f \<and>
    chain_transfer oc F d m v = Done (d\<lparr>vb_disk := Some f'\<rparr>,
      m\<lparr>gm_bytes := mem_upd (gm_bytes m) (unat (cv_data_addr v)) bs\<rparr>, of_nat (length bs))"
proof -
  note off = request_offset [of "cv_sector v"]
  have small: "unat (cv_sector v) * 512 < 2 ^ 63" and len: "length bs \<le> unat (cv_data_len v)"
    and ne: "0 < length bs"
    using assms(2,5) by (auto simp: request_ok_def bs_def word_less_nat_alt)
  obtain f1 f2 where f: "fo_seek F f (cv_sector v * 512) = Inr f1"
    "fo_read F f1 (unat (cv_data_len v)) = (Inr bs, f2)" "content f2 = content f"
    using seek_read [of "cv_sector v * 512" "unat (cv_data_len v)" f] small off(2) assms(6)
    by (metis bs_def)
  have "gm_range m (cv_data_addr v) (length bs)"
    using assms(2) len by (auto simp: request_ok_def intro: gm_range_mono)
  moreover have "uadd oc 0 (of_nat (length bs) :: u32) = Done (of_nat (length bs))"
    using uadd_no_overflow [of "0 :: u32" "of_nat (length bs)" oc] unat_bound [of "of_nat (length bs) :: u32"]
    by simp
  ultimately show ?thesis
    using assms(1-4) off(1) [OF small] f ne
    by (intro exI [of _ f2]) (simp add: chain_transfer_def request_ok_def write_slice_ok)
qed

lemma transfer_write:
  assumes "gm_wf m" and "request_ok m v" and "cv_is_write v" and "vb_disk d = Some f"
    and "unat (cv_sector v) * 512 + unat (cv_data_len v) \<le> length (content f)"
  defines "bs \<equiv> mem_get (gm_bytes m) (unat (cv_data_addr v)) (unat (cv_data_len v))"
  shows "\<exists>f'. content f' = take (unat (cv_sector v) * 512) (content f) @ bs @
      drop (unat (cv_sector v) * 512 + length bs) (content f) \<and>
    chain_transfer oc F d m v = Done (d\<lparr>vb_disk := Some f'\<rparr>, m, 0)"
proof -
  have small: "unat (cv_sector v) * 512 < 2 ^ 63" using assms(2) by (simp add: request_ok_def)
  note off = request_offset [OF small]
  obtain f1 f2 where f: "fo_seek F f (cv_sector v * 512) = Inr f1" "fo_write_all F f1 bs = (True, f2)"
    "content f2 = take (unat (cv_sector v) * 512) (content f) @ bs @
      drop (unat (cv_sector v) * 512 + length bs) (content f)"
    using seek_write [of "cv_sector v * 512" bs f] small off(2) assms(5) by (auto simp: bs_def)
  have "read_slice oc m (cv_data_addr v) (ucast (cv_data_len v)) = Done (Inr bs)"
    using assms(1,2) by (simp add: read_slice_ok request_ok_def bs_def)
  then show ?thesis
    using assms(2-4) off(1) f by (intro exI [of _ f2]) (simp add: chain_transfer_def request_ok_def)
qed

end

lemma process_chain_steps:
  assumes "chain_walk oc m t h = Some (Done v)" and "chain_transfer oc F d m v = Done (d1, m1, n)"
    and "chain_status oc m1 v n = Done (m2, w)"
  shows "process_descriptor_chain oc F d m t h = Some (Done (d1, m2, w))"
  using assms by (simp add: process_descriptor_chain_def)

lemma request_read:
  fixes d :: "image virtio_block"
  assumes "gm_wf m" and "chain_path m t p" and "3 \<le> length p" and "hdr_in m (desc_entry m t (hd p))"
    and "v = chain_request m t p" and "request_ok m v" and "\<not> cv_is_write v" and "vb_disk d = Some f"
    and "unat (cv_sector v) * 512 < length (img_data f)" and "unat (cv_data_len v) \<le> MAX_RW_COUNT"
    and "bs = take (unat (cv_data_len v)) (drop (unat (cv_sector v) * 512) (img_data f))"
  shows "\<exists>f'. img_data f' = img_data f \<and>
    process_descriptor_chain oc (image_ops fs) d m t (hd p) = Some (Done (d\<lparr>vb_disk := Some f'\<rparr>,
      m\<lparr>gm_bytes := mem_upd (mem_upd (gm_bytes m) (unat (cv_data_addr v)) bs)
          (unat (cv_status_addr v)) [VIRTIO_BLK_S_OK]\<rparr>, of_nat (length bs) + 1))"
proof -
  from img.transfer_read [OF assms(1,6,7,8,9,10)] assms(11) obtain f' where f': "img_data f' = img_data f"
    "chain_transfer oc (image_ops fs) d m v = Done (d\<lparr>vb_disk := Some f'\<rparr>,
      m\<lparr>gm_bytes := mem_upd (gm_bytes m) (unat (cv_data_addr v)) bs\<rparr>, of_nat (length bs))"
    by blast
  have "length bs \<le> unat (cv_data_len v)" using assms(11) by simp
  also have "\<dots> < 4294967295" using assms(6) by (simp add: request_ok_def word_less_nat_alt)
  finally have n: "unat (of_nat (length bs) :: u32) + 1 < 2 ^ 32"
    by (subst unat_of_nat_small) simp_all
  have "chain_walk oc m t (hd p) = Some (Done v)"
    using chain_walk_path [OF assms(1-4)] assms(5) by simp
  from process_chain_steps [OF this f'(2) chain_status_ok [OF _ _ _ n]] assms(1,6) f'(1) show ?thesis
    by (auto simp: request_ok_def)
qed

lemma request_write:
  fixes d :: "image virtio_block"
  assumes "gm_wf m" and "chain_path m t p" and "3 \<le> length p" and "hdr_in m (desc_entry m t (hd p))"
    and "v = chain_request m t p" and "request_ok m v" and "cv_is_write v" and "vb_disk d = Some f"
    and "unat (cv_sector v) * 512 + unat (cv_data_len v) \<le> length (img_data f)"
    and "bs = mem_get (gm_bytes m) (unat (cv_data_addr v)) (unat (cv_data_len v))"
  shows "\<exists>f'. img_data f' = take (unat (cv_sector v) * 512) (img_data f) @ bs @
      drop (unat (cv_sector v) * 512 + length bs) (img_data f) \<and>
    process_descriptor_chain oc (image_ops fs) d m t (hd p) = Some (Done (d\<lparr>vb_disk := Some f'\<rparr>,
      m\<lparr>gm_bytes := mem_upd (gm_bytes m) (unat (cv_status_addr v)) [VIRTIO_BLK_S_OK]\<rparr>, 1))"
proof -
  from img.transfer_write [OF assms(1,6,7,8,9)] assms(10) obtain f' where f':
    "img_data f' = take (unat (cv_sector v) * 512) (img_data f) @ bs @
      drop (unat (cv_sector v) * 512 + length bs) (img_data f)"
    "chain_transfer oc (image_ops fs) d m v = Done (d\<lparr>vb_disk := Some f'\<rparr>, m, 0)"
    by blast
  have "chain_walk oc m t (hd p) = Some (Done v)"
    using chain_walk_path [OF assms(1-4)] assms(5) by simp
  from process_chain_steps [OF this f'(2) chain_status_ok] assms(1,6) f'(1) show ?thesis
    by (auto simp: request_ok_def)
qed

text \<open>A request, as the conditions on what the driver laid out in memory.\<close>

definition driver_request :: "guest_memory \<Rightarrow> u64 \<Rightarrow> u16 list \<Rightarrow> bool" where
  "driver_request m t p \<longleftrightarrow> gm_wf m \<and> chain_path m t p \<and> 3 \<le> length p \<and>
     hdr_in m (desc_entry m t (hd p)) \<and> request_ok m (chain_request m t p)"

text \<open>
  A driver's memory image for a request of the given type on sector 0: a table of three descriptors
  at \<open>0x100\<close>, the header at \<open>0x200\<close>, four bytes of data at \<open>0x300\<close>, the status at \<open>0x400\<close>.
\<close>

definition encode_desc :: "u64 \<Rightarrow> u32 \<Rightarrow> u16 \<Rightarrow> u16 \<Rightarrow> bytes" where
  "encode_desc addr len flags next =
     to_le_bytes 8 addr @ to_le_bytes 4 len @ to_le_bytes 2 flags @ to_le_bytes 2 next"

definition example_mem :: "u32 \<Rightarrow> bytes \<Rightarrow> guest_memory" where
  "example_mem ty data = \<lparr>gm_ptr = 4096, gm_len = 0x1000, gm_owned = True, gm_mapped = 0x1000,
     gm_bytes = mem_upd (mem_upd (mem_upd (\<lambda>_. 0)
       0x100 (encode_desc 0x200 16 1 1 @ encode_desc 0x300 4 1 2 @ encode_desc 0x400 1 2 0))
       0x200 (to_le_bytes 4 ty @ to_le_bytes 4 (0 :: u32) @ to_le_bytes 8 (0 :: u64)))
       0x300 data\<rparr>"

lemma example_mem_shape [simp]:
  "gm_len (example_mem ty data) = 0x1000" "gm_mapped (example_mem ty data) = 0x1000"
  by (simp_all add: example_mem_def)

lemma length_encode_desc [simp]: "length (encode_desc a l f n) = 16"
  by (simp add: encode_desc_def)

lemma decode_encode_desc [simp]:
  "decode_desc (encode_desc a l f n) = \<lparr>vd_addr = a, vd_len = l, vd_flags = f, vd_next = n\<rparr>"
  by (simp add: decode_desc_def encode_desc_def)

lemmas mem_eval = mem_get_upd_inside mem_get_upd_disjoint

lemma mem_get_zero: "mem_get (\<lambda>_. 0) a n = replicate n 0"
  by (rule nth_equalityI) simp_all

lemma from_le_zero: "from_le_bytes (replicate n 0) = 0"
  by (induction n) simp_all

lemma example_entries:
  assumes "length bs \<le> 4"
  shows "desc_entry (example_mem ty bs) 0x100 0 = \<lparr>vd_addr = 0x200, vd_len = 16, vd_flags = 1, vd_next = 1\<rparr>"
    "desc_entry (example_mem ty bs) 0x100 1 = \<lparr>vd_addr = 0x300, vd_len = 4, vd_flags = 1, vd_next = 2\<rparr>"
    "desc_entry (example_mem ty bs) 0x100 2 = \<lparr>vd_addr = 0x400, vd_len = 1, vd_flags = 2, vd_next = 0\<rparr>"
    "mem_get (gm_bytes (example_mem ty bs)) 0x200 4 = to_le_bytes 4 ty"
    "mem_get (gm_bytes (example_mem ty bs)) 0x208 8 = to_le_bytes 8 (0 :: u64)"
  using assms by (simp_all add: desc_entry_def example_mem_def mem_eval)

lemma example_request:
  assumes "length bs \<le> 4"
  shows "chain_request (example_mem ty bs) 0x100 [0, 1, 2] =
     \<lparr>cv_next_idx = 2, cv_sector = 0, cv_is_write = (ty = 1), cv_data_addr = 0x300, cv_data_len = 4,
      cv_status_addr = 0x400, cv_phase = 2\<rparr>"
    and "chain_path (example_mem ty bs) 0x100 [0, 1, 2]"
    and "hdr_in (example_mem ty bs) (desc_entry (example_mem ty bs) 0x100 0)"
  by (simp_all add: chain_request_def example_entries [OF assms] hdr_sector_def hdr_type_def VIRTIO_BLK_T_OUT_def
      desc_in_def gm_range_def has_next_def VRING_DESC_F_NEXT_def hdr_in_def)

lemmas example_write = example_request [of "[1, 2, 3, 4]" 1, simplified]
  and example_read = example_request [of "[]" 0, simplified]

lemma example_requests:
  "driver_request (example_mem 1 [1, 2, 3, 4]) 0x100 [0, 1, 2]"
  "driver_request (example_mem 0 []) 0x100 [0, 1, 2]"
  by (simp_all add: driver_request_def request_ok_def gm_range_def gm_wf_def example_write example_read)

definition example_disk :: "image virtio_block" where
  "example_disk = (vb_new (image_ops [''disk'' \<mapsto> [9, 8, 7, 6, 5, 4]]) (Some ''disk''))"

lemma example_disk_file: "vb_disk example_disk = Some \<lparr>img_data = [9, 8, 7, 6, 5, 4], img_pos = 0\<rparr>"
  by (simp add: example_disk_def vb_new_def image_ops_def img_open_def)

text \<open>
  C7. A block request, as the specification lays it out: a header descriptor, one data buffer and a
  status byte, all within guest memory, for a range of the disk image that lies inside of it and that
  the host can read in one call. In both build profiles the request is served; an \<open>IN\<close> request puts the bytes
  of the image from the header's sector on into the buffer, an \<open>OUT\<close> request puts the buffer into
  the image there; the status byte becomes \<open>VIRTIO_BLK_S_OK\<close>; no other byte of guest memory, no other
  byte of the image and no register changes; the reported length counts the data read and the status.
\<close>

theorem blk_request_correct:
  fixes d :: "image virtio_block"
  assumes "gm_wf m" and "chain_path m t [h, i, j]"
    and "e0 = desc_entry m t h" and "ed = desc_entry m t i" and "es = desc_entry m t j"
    and "hdr_in m e0" and "hdr_type m e0 = VIRTIO_BLK_T_IN \<or> hdr_type m e0 = VIRTIO_BLK_T_OUT"
    and "vd_addr ed \<noteq> 0" and "0 < n" and "n = unat (vd_len ed)" and "n \<le> MAX_RW_COUNT" and "gm_range m (vd_addr ed) n"
    and "vd_addr es \<noteq> 0" and "gm_range m (vd_addr es) 1"
    and "vb_disk d = Some f" and "off = unat (hdr_sector m e0) * 512" and "off < 2 ^ 63" and "off + n \<le> length (img_data f)"
  shows "\<exists>f' m' w. process_descriptor_chain oc (image_ops fs) d m t h = Some (Done (d\<lparr>vb_disk := Some f'\<rparr>, m', w)) \<and>
    same_shape m m' \<and>
    (if hdr_type m e0 = VIRTIO_BLK_T_IN
     then img_data f' = img_data f \<and>
          gm_bytes m' = mem_upd (mem_upd (gm_bytes m) (unat (vd_addr ed)) (take n (drop off (img_data f))))
            (unat (vd_addr es)) [VIRTIO_BLK_S_OK] \<and> w = of_nat n + 1
     else img_data f' = take off (img_data f) @ mem_get (gm_bytes m) (unat (vd_addr ed)) n @ drop (off + n) (img_data f) \<and>
          gm_bytes m' = mem_upd (gm_bytes m) (unat (vd_addr es)) [VIRTIO_BLK_S_OK] \<and> w = 1)"
proof -
  let ?v = "chain_request m t [h, i, j]"
  have v: "cv_sector ?v = hdr_sector m e0" "cv_is_write ?v = (hdr_type m e0 = VIRTIO_BLK_T_OUT)"
    "cv_data_addr ?v = vd_addr ed" "cv_data_len ?v = vd_len ed" "cv_status_addr ?v = vd_addr es"
    by (simp_all add: chain_request_def assms(3-5) Let_def)
  have ok: "request_ok m ?v" using assms by (simp add: request_ok_def v word_less_nat_alt MAX_RW_COUNT_def)
  have ne: "VIRTIO_BLK_T_IN \<noteq> VIRTIO_BLK_T_OUT" by (simp add: VIRTIO_BLK_T_IN_def VIRTIO_BLK_T_OUT_def)
  from assms(7) show ?thesis
  proof
    assume "hdr_type m e0 = VIRTIO_BLK_T_IN"
    with request_read [OF assms(1,2) _ _ refl ok _ assms(15), of _ oc fs] assms v ne show ?thesis by fastforce
  next
    assume "hdr_type m e0 = VIRTIO_BLK_T_OUT"
    with request_write [OF assms(1,2) _ _ refl ok _ assms(15), of _ oc fs] assms v ne show ?thesis by fastforce
  qed
qed

theorem blk_request_correct_witness:
  "\<exists>f' m' w. process_descriptor_chain False (image_ops Map.empty) example_disk (example_mem 0 [])
      0x100 0 = Some (Done (example_disk\<lparr>vb_disk := Some f'\<rparr>, m', w)) \<and>
    img_data f' = [9, 8, 7, 6, 5, 4] \<and> mem_get (gm_bytes m') 0x300 4 = [9, 8, 7, 6] \<and> w = 5"
proof -
  let ?m = "example_mem 0 []"
  note e = example_entries [of "[]" 0, simplified]
  have h: "hdr_type ?m \<lparr>vd_addr = 0x200, vd_len = 16, vd_flags = 1, vd_next = 1\<rparr> = 0"
    "hdr_sector ?m \<lparr>vd_addr = 0x200, vd_len = 16, vd_flags = 1, vd_next = 1\<rparr> = 0"
    by (simp_all add: hdr_type_def hdr_sector_def e)
  have w: "gm_wf ?m" by (simp add: gm_wf_def)
  obtain f' m' w where r: "process_descriptor_chain False (image_ops Map.empty) example_disk
      ?m 0x100 0 = Some (Done (example_disk\<lparr>vb_disk := Some f'\<rparr>, m', w))"
    "img_data f' = [9, 8, 7, 6, 5, 4]" "w = 5"
    "gm_bytes m' = mem_upd (mem_upd (gm_bytes ?m) 0x300 [9, 8, 7, 6]) 0x400 [0]"
    using blk_request_correct [OF w example_request(2) [of "[]" 0] refl refl refl example_read(3) _ _ _ refl _ _ _ _ example_disk_file refl,
        of False "Map.empty"]
    by (auto simp: e h VIRTIO_BLK_S_OK_def VIRTIO_BLK_T_IN_def MAX_RW_COUNT_def gm_range_def)
  moreover from r(4) have "mem_get (gm_bytes m') 0x300 4 = [9, 8, 7, 6]"
    by (simp add: mem_get_upd_disjoint)
  ultimately show ?thesis by blast
qed

text \<open>The bytes behind a descriptor, and a disk image after writing a list of them from an offset on.\<close>

definition segment :: "guest_memory \<Rightarrow> vring_desc \<Rightarrow> bytes" where
  "segment m e = mem_get (gm_bytes m) (unat (vd_addr e)) (unat (vd_len e))"

definition written_image :: "bytes \<Rightarrow> nat \<Rightarrow> bytes list \<Rightarrow> bytes" where
  "written_image disk off bss = take off disk @ concat bss @ drop (off + length (concat bss)) disk"

text \<open>
  C33. Data that a request loses. The specification allows the data of a request to be scattered over
  several buffers, one after the other on the disk. In a chain with more than one data descriptor the
  device transfers the last of them only, and at the sector of the whole request: a write puts the
  last buffer where the first belongs and drops the others, a read leaves every other buffer as it was and
  fills the last one with the first bytes of the range. The status byte reports success, and
  the reported length is that of the last buffer.
\<close>

theorem blk_scattered_request_loses:
  fixes d :: "image virtio_block"
  assumes "driver_request m t p" and "4 \<le> length p" and "ds = map (desc_entry m t) (butlast (tl p))"
    and "e0 = desc_entry m t (hd p)" and "es = desc_entry m t (last p)" and "n = unat (vd_len (last ds))"
    and "vb_disk d = Some f" and "off = unat (hdr_sector m e0) * 512" and "off + n \<le> length (img_data f)" and "n \<le> MAX_RW_COUNT"
  shows "2 \<le> length ds \<and> (\<exists>f' m' w. process_descriptor_chain oc (image_ops fs) d m t (hd p) =
      Some (Done (d\<lparr>vb_disk := Some f'\<rparr>, m', w)) \<and> gm_bytes m' (unat (vd_addr es)) = VIRTIO_BLK_S_OK \<and>
    (if hdr_type m e0 = VIRTIO_BLK_T_OUT
     then img_data f' = written_image (img_data f) off [segment m (last ds)] \<and> w = 1
     else img_data f' = img_data f \<and> w = of_nat n + 1 \<and>
       gm_bytes m' = mem_upd (mem_upd (gm_bytes m) (unat (vd_addr (last ds))) (take n (drop off (img_data f))))
         (unat (vd_addr es)) [VIRTIO_BLK_S_OK]))"
proof -
  let ?v = "chain_request m t p"
  note dr = assms(1) [unfolded driver_request_def]
  obtain a b xs where p: "p = a # b # xs" using assms(2) by (cases p; cases "tl p") auto
  have ne: "butlast (tl p) \<noteq> []" "last (butlast (tl p)) = last (butlast p)" "2 \<le> length ds"
    using assms(2,3) by (auto simp: p)
  then have v: "cv_sector ?v = hdr_sector m e0" "cv_is_write ?v = (hdr_type m e0 = VIRTIO_BLK_T_OUT)"
    "cv_data_addr ?v = vd_addr (last ds)" "cv_data_len ?v = vd_len (last ds)" "cv_status_addr ?v = vd_addr es"
    using assms(3-5) by (simp_all add: chain_request_def Let_def last_map)
  have n: "0 < n" using dr assms(6) v by (simp add: request_ok_def word_less_nat_alt)
  show ?thesis
  proof (cases "hdr_type m e0 = VIRTIO_BLK_T_OUT")
    case True
    with request_write [of m t p ?v d f _ oc fs] dr assms v ne show ?thesis
      by (fastforce simp: written_image_def segment_def mem_upd_def)
  next
    case False
    with request_read [of m t p ?v d f _ oc fs] dr assms v ne n show ?thesis by (fastforce simp: mem_upd_def)
  qed
qed

text \<open>Four bytes to be written to sector 0 from two buffers of two.\<close>

definition scattered_mem :: guest_memory where
  "scattered_mem = \<lparr>gm_ptr = 4096, gm_len = 0x1000, gm_owned = True, gm_mapped = 0x1000,
     gm_bytes = mem_upd (mem_upd (mem_upd (mem_upd (\<lambda>_. 0)
       0x100 (encode_desc 0x200 16 1 1 @ encode_desc 0x300 2 1 2 @ encode_desc 0x310 2 1 3 @ encode_desc 0x400 1 2 0))
       0x200 (to_le_bytes 4 (1 :: u32) @ to_le_bytes 4 (0 :: u32) @ to_le_bytes 8 (0 :: u64)))
       0x300 [1, 2]) 0x310 [3, 4]\<rparr>"

lemma scattered_entries:
  "desc_entry scattered_mem 0x100 0 = \<lparr>vd_addr = 0x200, vd_len = 16, vd_flags = 1, vd_next = 1\<rparr>"
  "desc_entry scattered_mem 0x100 1 = \<lparr>vd_addr = 0x300, vd_len = 2, vd_flags = 1, vd_next = 2\<rparr>"
  "desc_entry scattered_mem 0x100 2 = \<lparr>vd_addr = 0x310, vd_len = 2, vd_flags = 1, vd_next = 3\<rparr>"
  "desc_entry scattered_mem 0x100 3 = \<lparr>vd_addr = 0x400, vd_len = 1, vd_flags = 2, vd_next = 0\<rparr>"
  "mem_get (gm_bytes scattered_mem) 0x200 4 = to_le_bytes 4 (1 :: u32)"
  "mem_get (gm_bytes scattered_mem) 0x208 8 = to_le_bytes 8 (0 :: u64)"
  "mem_get (gm_bytes scattered_mem) 0x300 2 = [1, 2]" "mem_get (gm_bytes scattered_mem) 0x310 2 = [3, 4]"
  "gm_len scattered_mem = 0x1000" "gm_mapped scattered_mem = 0x1000"
  by (simp_all add: desc_entry_def scattered_mem_def mem_eval)

lemma scattered_header:
  "hdr_type scattered_mem \<lparr>vd_addr = 0x200, vd_len = 16, vd_flags = 1, vd_next = 1\<rparr> = 1"
  "hdr_sector scattered_mem \<lparr>vd_addr = 0x200, vd_len = 16, vd_flags = 1, vd_next = 1\<rparr> = 0"
  by (simp_all add: hdr_type_def hdr_sector_def scattered_entries)

lemma scattered_request: "driver_request scattered_mem 0x100 [0, 1, 2, 3]"
  by (simp add: driver_request_def gm_wf_def scattered_entries scattered_header desc_in_def gm_range_def has_next_def
      VRING_DESC_F_NEXT_def hdr_in_def request_ok_def chain_request_def)

theorem blk_scattered_request_loses_witness:
  "\<exists>f' m' w. process_descriptor_chain False (image_ops Map.empty) example_disk scattered_mem 0x100 0 =
      Some (Done (example_disk\<lparr>vb_disk := Some f'\<rparr>, m', w)) \<and> gm_bytes m' 0x400 = 0 \<and>
    img_data f' = [3, 4, 7, 6, 5, 4] \<and> written_image [9, 8, 7, 6, 5, 4] 0 [[1, 2], [3, 4]] = [1, 2, 3, 4, 5, 4]"
  using blk_scattered_request_loses [OF scattered_request _ refl refl refl refl example_disk_file refl,
      of False Map.empty]
  by (auto simp: scattered_entries scattered_header VIRTIO_BLK_T_OUT_def VIRTIO_BLK_S_OK_def MAX_RW_COUNT_def
      segment_def written_image_def)

text \<open>
  C15. Round trip through the disk: data that a write request has stored is what a later read request
  for the same sector and length, one the host reads in one call, delivers, whatever the guest did to its memory in between and
  wherever the second buffer lies.
\<close>

theorem blk_write_read_roundtrip:
  fixes d :: "image virtio_block"
  assumes "driver_request m1 t1 p1" and "v1 = chain_request m1 t1 p1" and "cv_is_write v1"
    and "driver_request m2 t2 p2" and "v2 = chain_request m2 t2 p2" and "\<not> cv_is_write v2"
    and "cv_sector v2 = cv_sector v1" and "cv_data_len v2 = cv_data_len v1"
    and "vb_disk d = Some f"
    and "unat (cv_sector v1) * 512 + unat (cv_data_len v1) \<le> length (img_data f)" and "unat (cv_data_len v1) \<le> MAX_RW_COUNT"
    and "unat (cv_status_addr v2) < unat (cv_data_addr v2) \<or>
      unat (cv_data_addr v2) + unat (cv_data_len v2) \<le> unat (cv_status_addr v2)"
  shows "\<exists>d' m1' w1 d'' m2' w2.
    process_descriptor_chain oc (image_ops fs) d m1 t1 (hd p1) = Some (Done (d', m1', w1)) \<and>
    process_descriptor_chain oc (image_ops fs) d' m2 t2 (hd p2) = Some (Done (d'', m2', w2)) \<and>
    mem_get (gm_bytes m2') (unat (cv_data_addr v2)) (unat (cv_data_len v2)) =
      mem_get (gm_bytes m1) (unat (cv_data_addr v1)) (unat (cv_data_len v1))"
proof -
  let ?bs = "mem_get (gm_bytes m1) (unat (cv_data_addr v1)) (unat (cv_data_len v1))"
  let ?off = "unat (cv_sector v1) * 512"
  note dr1 = assms(1) [unfolded driver_request_def] and dr2 = assms(4) [unfolded driver_request_def]
  obtain f' where f': "img_data f' = take ?off (img_data f) @ ?bs @ drop (?off + length ?bs) (img_data f)"
    "process_descriptor_chain oc (image_ops fs) d m1 t1 (hd p1) = Some (Done (d\<lparr>vb_disk := Some f'\<rparr>,
      m1\<lparr>gm_bytes := mem_upd (gm_bytes m1) (unat (cv_status_addr v1)) [VIRTIO_BLK_S_OK]\<rparr>, 1))"
    using request_write [of m1 t1 p1 v1 d f ?bs oc fs] dr1 assms by auto
  have "0 < unat (cv_data_len v1)"
    using dr1 assms(2) by (simp add: request_ok_def word_less_nat_alt)
  then have off: "?off < length (img_data f')" using f'(1) assms(10) by simp
  have bs: "take (unat (cv_data_len v1)) (drop ?off (img_data f')) = ?bs"
    using img.content_written [of ?off ?bs "img_data f"] assms(10) by (simp add: f'(1))
  have "\<exists>f''. img_data f'' = img_data f' \<and>
      process_descriptor_chain oc (image_ops fs) (d\<lparr>vb_disk := Some f'\<rparr>) m2 t2 (hd p2) =
      Some (Done (d\<lparr>vb_disk := Some f'\<rparr>\<lparr>vb_disk := Some f''\<rparr>,
      m2\<lparr>gm_bytes := mem_upd (mem_upd (gm_bytes m2) (unat (cv_data_addr v2)) ?bs)
          (unat (cv_status_addr v2)) [VIRTIO_BLK_S_OK]\<rparr>, of_nat (length ?bs) + 1))"
    by (rule request_read [where v = v2]) (use dr2 assms(5-8,11) off bs in simp_all)
  then obtain d'' m2' w2 where
    "process_descriptor_chain oc (image_ops fs) (d\<lparr>vb_disk := Some f'\<rparr>) m2 t2 (hd p2) = Some (Done (d'', m2', w2))"
    "gm_bytes m2' = mem_upd (mem_upd (gm_bytes m2) (unat (cv_data_addr v2)) ?bs)
       (unat (cv_status_addr v2)) [VIRTIO_BLK_S_OK]" by fastforce
  moreover have "mem_get (mem_upd (mem_upd (gm_bytes m2) (unat (cv_data_addr v2)) ?bs)
       (unat (cv_status_addr v2)) [VIRTIO_BLK_S_OK]) (unat (cv_data_addr v2)) (unat (cv_data_len v2)) = ?bs"
    using assms(8,12) by (subst mem_get_upd_disjoint) auto
  ultimately show ?thesis using f'(2) by metis
qed

theorem blk_write_read_roundtrip_witness:
  "\<exists>d' m1' w1 d'' m2' w2.
    process_descriptor_chain False (image_ops Map.empty) example_disk (example_mem 1 [1, 2, 3, 4]) 0x100 0 =
      Some (Done (d', m1', w1)) \<and>
    process_descriptor_chain False (image_ops Map.empty) d' (example_mem 0 []) 0x100 0 =
      Some (Done (d'', m2', w2)) \<and>
    mem_get (gm_bytes m2') 0x300 4 = mem_get (gm_bytes (example_mem 1 [1, 2, 3, 4])) 0x300 4"
  using blk_write_read_roundtrip [OF example_requests(1) refl _ example_requests(2) refl _ _ _
      example_disk_file, of False "Map.empty"]
  by (simp add: example_write(1) example_read(1) MAX_RW_COUNT_def)

end
