(* ===== verification/Ax_Virtio_Ring.thy ===== *)
theory Ax_Virtio_Ring
  imports Ax_Virtio_Chain
begin

text \<open>
  The rings of the block device: \<open>process_queue\<close> of \<open>src/axvm_core/src/virtio.rs\<close> against what a
  driver expects of a virtqueue. The pending entries of the available ring are the abstract queue;
  the theorem on batches says that a notification takes them all, in order and once each, and
  publishes one completion for each of them. The other theorems are about queues that a guest
  sets up badly: a chain that leads back to itself, a request whose disk is not there.
\<close>

section \<open>The rings in memory\<close>

definition q_size :: "'f virtio_block \<Rightarrow> u16" where
  "q_size d = ucast (vb_queue_num d)"

definition ring_ok :: "'f virtio_block \<Rightarrow> guest_memory \<Rightarrow> bool" where
  "ring_ok d m \<longleftrightarrow> q_size d \<noteq> 0 \<and> vb_queue_ready d \<noteq> 0 \<and> gm_wf m \<and>
     gm_range m (vb_queue_avail d) (4 + 2 * unat (q_size d)) \<and>
     gm_range m (vb_queue_used d) (4 + 8 * unat (q_size d))"

definition avail_idx :: "'f virtio_block \<Rightarrow> guest_memory \<Rightarrow> u16" where
  "avail_idx d m = mem_u16 m (unat (vb_queue_avail d) + 2)"

definition avail_slot :: "'f virtio_block \<Rightarrow> u16 \<Rightarrow> nat" where
  "avail_slot d i = unat (vb_queue_avail d) + (4 + 2 * unat (i mod q_size d))"

definition avail_head :: "'f virtio_block \<Rightarrow> guest_memory \<Rightarrow> u16 \<Rightarrow> u16" where
  "avail_head d m i = mem_u16 m (avail_slot d i)"

definition used_idx :: "'f virtio_block \<Rightarrow> guest_memory \<Rightarrow> u16" where
  "used_idx d m = mem_u16 m (unat (vb_queue_used d) + 2)"

definition used_slot :: "'f virtio_block \<Rightarrow> u16 \<Rightarrow> nat" where
  "used_slot d i = unat (vb_queue_used d) + (4 + 8 * unat (i mod q_size d))"

definition used_id :: "'f virtio_block \<Rightarrow> guest_memory \<Rightarrow> u16 \<Rightarrow> u32" where
  "used_id d m i = from_le_bytes (mem_get (gm_bytes m) (used_slot d i) 4)"

definition used_len :: "'f virtio_block \<Rightarrow> guest_memory \<Rightarrow> u16 \<Rightarrow> u32" where
  "used_len d m i = from_le_bytes (mem_get (gm_bytes m) (used_slot d i + 4) 4)"

text \<open>The entries made available and not yet taken.\<close>

definition pending :: "'f virtio_block \<Rightarrow> guest_memory \<Rightarrow> nat" where
  "pending d m = unat (avail_idx d m - vb_last_avail_idx d)"

lemma mod_size_less: "q_size d \<noteq> 0 \<Longrightarrow> unat (i mod q_size d) < unat (q_size d)"
  by (simp add: unat_mod unat_gt_0)

lemma ring_slot_ranges:
  assumes "ring_ok d m"
  shows "gm_range m (vb_queue_avail d) ((4 + 2 * unat (i mod q_size d)) + 2)"
    and "gm_range m (vb_queue_used d) ((4 + 8 * unat (i mod q_size d)) + 8)"
    and "gm_range m (vb_queue_avail d) (2 + 2)" and "gm_range m (vb_queue_used d) (2 + 2)"
  using assms mod_size_less [of d i] by (auto simp: ring_ok_def gm_range_def)

lemma slot_word:
  assumes "c < 2 ^ 16"
  shows "unat (4 + ucast (j :: u16) * of_nat c :: u64) = 4 + c * unat j"
proof -
  have "unat j * c < 2 ^ 32"
    using mult_strict_mono [of "unat j" "2 ^ 16" c "2 ^ 16"] unat_u16_bound [of j] assms by simp
  then show ?thesis
    using index_scale(2) [OF assms, of j] by (simp add: unat_word_ariths mult.commute)
qed

lemma used_slot_bounds: "unat (vb_queue_used d) + 4 \<le> used_slot d i"
  by (simp add: used_slot_def)

text \<open>Publishing a completion in a ring that is in range: three stores, nothing else.\<close>

lemma push_used_in:
  assumes "ring_ok d m"
  shows "push_used oc m (vb_queue_used d) (q_size d) h w =
    Done (m\<lparr>gm_bytes := mem_upd (mem_upd (mem_upd (gm_bytes m)
       (used_slot d (used_idx d m)) (to_le_bytes 4 (ucast h :: u32)))
       (used_slot d (used_idx d m) + 4) (to_le_bytes 4 w))
       (unat (vb_queue_used d) + 2) (to_le_bytes 2 (used_idx d m + 1))\<rparr>)"
proof -
  let ?u = "used_idx d m" and ?b = "vb_queue_used d"
  let ?j = "?u mod q_size d"
  have wf: "gm_wf m" using assms by (simp add: ring_ok_def)
  note idx = range_offset [OF ring_slot_ranges(4) [OF assms], of 2, simplified]
  have off: "unat (4 + ucast ?j * 8 :: u64) = 4 + 8 * unat ?j"
    using slot_word [of 8 ?j] by simp
  note slot = range_offset [OF ring_slot_ranges(2) [OF assms] off]
  have r8: "gm_range m (?b + (4 + ucast ?j * 8)) (4 + 4)" using slot(3) by simp
  note slot4 = range_offset [OF r8, of 4, simplified]
  note r4 = gm_range_mono [OF r8, of 4]
  have u: "read_u16 oc m (?b + 2) = Done (Some ?u)"
    using wf idx by (simp add: read_u16_ok used_idx_def)
  show ?thesis
    using wf slot(1) slot4 r4 idx slot(2)
    by (simp add: push_used_def u Let_def write_u32_def write_u16_def write_slice_ok
        used_slot_def add.assoc)
qed

lemma push_used_entry:
  assumes "ring_ok d m" and "push_used oc m (vb_queue_used d) (q_size d) h w = Done m'"
  shows "used_id d m' (used_idx d m) = ucast h" and "used_len d m' (used_idx d m) = w"
    and "used_idx d m' = used_idx d m + 1"
  using assms push_used_in [OF assms(1), of oc h w] used_slot_bounds [of d "used_idx d m"]
  by (auto simp: used_id_def used_len_def used_idx_def mem_u16_def mem_get_upd_disjoint)

lemma push_used_frame:
  assumes "ring_ok d m" and "push_used oc m (vb_queue_used d) (q_size d) h w = Done m'"
    and "a < unat (vb_queue_used d) \<or> unat (vb_queue_used d) + (4 + 8 * unat (q_size d)) \<le> a"
  shows "gm_bytes m' a = gm_bytes m a"
proof -
  have "unat (used_idx d m mod q_size d) < unat (q_size d)"
    using assms(1) by (intro mod_size_less) (simp add: ring_ok_def)
  with assms push_used_in [OF assms(1), of oc h w] show ?thesis
    by (auto simp: used_slot_def mem_upd_out)
qed

lemma push_used_other_slot:
  assumes "ring_ok d m" and "push_used oc m (vb_queue_used d) (q_size d) h w = Done m'"
    and "i mod q_size d \<noteq> used_idx d m mod q_size d"
  shows "used_id d m' i = used_id d m i"
proof -
  have "unat (i mod q_size d) \<noteq> unat (used_idx d m mod q_size d)"
    using assms(3) by (simp only: word_eq_iff_unsigned [where ?'a = nat, symmetric] not_False_eq_True)
  then have "used_slot d i + 8 \<le> used_slot d (used_idx d m) \<or>
      used_slot d (used_idx d m) + 8 \<le> used_slot d i"
    by (simp add: used_slot_def) arith
  with assms(2) push_used_in [OF assms(1), of oc h w] used_slot_bounds [of d i] show ?thesis
    by (auto simp: used_id_def mem_get_upd_disjoint)
qed

section \<open>A request stays within its buffers\<close>

definition buffers :: "chain_vars \<Rightarrow> nat set" where
  "buffers v = {unat (cv_data_addr v)..<unat (cv_data_addr v) + unat (cv_data_len v)} \<union>
     {unat (cv_status_addr v)}"

text \<open>
  The transfer of a well-formed request, whatever the host file does, aborts in no profile and
  writes at most its data buffer.
\<close>

lemma transfer_confined:
  assumes "gm_wf m" and "request_ok m v" and "reads_fit F"
  shows "\<exists>d' m' n. chain_transfer oc F d m v = Done (d', m', n) \<and>
    agree_on (- {unat (cv_data_addr v)..<unat (cv_data_addr v) + unat (cv_data_len v)}) m m' \<and>
    unat n + 1 < 2 ^ 32"
proof -
  have r: "gm_range m (cv_data_addr v) (unat (cv_data_len v))" and nz: "cv_data_addr v \<noteq> 0" "0 < cv_data_len v"
    and len: "unat (cv_data_len v) < 2 ^ 32 - 1" and "unat (cv_sector v) * 512 < 2 ^ 63"
    using assms(2) by (simp_all add: request_ok_def word_less_nat_alt)
  then have mul: "umul oc (cv_sector v) 512 = Done (cv_sector v * 512)" by (simp add: request_offset)
  have rd: "read_slice oc m (cv_data_addr v) (ucast (cv_data_len v)) =
      Done (Inr (mem_get (gm_bytes m) (unat (cv_data_addr v)) (unat (cv_data_len v))))"
    using assms(1) r by (simp add: read_slice_ok)
  have buf: "unat (of_nat (length bs) :: u32) + 1 < 2 ^ 32 \<and>
      uadd oc 0 (of_nat (length bs) :: u32) = Done (of_nat (length bs)) \<and>
      write_slice oc m (cv_data_addr v) bs =
        Done (Inr (m\<lparr>gm_bytes := mem_upd (gm_bytes m) (unat (cv_data_addr v)) bs\<rparr>)) \<and>
      agree_on (- {unat (cv_data_addr v)..<unat (cv_data_addr v) + unat (cv_data_len v)}) m
        (m\<lparr>gm_bytes := mem_upd (gm_bytes m) (unat (cv_data_addr v)) bs\<rparr>)"
    if "fo_read F f (unat (cv_data_len v)) = (Inr bs, f')" for f bs f'
  proof -
    have l: "length bs \<le> unat (cv_data_len v)" using reads_fitD [OF assms(3) that] .
    with len have "unat (of_nat (length bs) :: u32) = length bs" by (intro unat_of_nat_small) simp
    moreover have "gm_range m (cv_data_addr v) (length bs)" using r l by (rule gm_range_mono)
    ultimately show ?thesis
      using l len assms(1) by (auto simp: uadd_no_overflow write_slice_ok intro!: agree_on_upd)
  qed
  show ?thesis
    using nz mul rd buf
    by (auto simp: chain_transfer_def Let_def split: option.splits sum.splits prod.splits)
qed

lemma request_confined:
  assumes "driver_request m t p" and "v = chain_request m t p" and "reads_fit F"
    and "buffers v \<inter> S = {}"
  shows "\<exists>d' m' w. process_descriptor_chain oc F d m t (hd p) = Some (Done (d', m', w)) \<and>
    same_regs d d' \<and> agree_on S m m'"
proof -
  note dr = assms(1) [unfolded driver_request_def]
  have walk: "chain_walk oc m t (hd p) = Some (Done v)"
    using chain_walk_path [of m t p oc] dr assms(2) by simp
  obtain d1 m1 n where tr: "chain_transfer oc F d m v = Done (d1, m1, n)"
    "agree_on (- {unat (cv_data_addr v)..<unat (cv_data_addr v) + unat (cv_data_len v)}) m m1"
    "unat n + 1 < 2 ^ 32"
    using transfer_confined [of m v F oc d] dr assms(2,3) by blast
  have "gm_wf m1" "gm_range m1 (cv_status_addr v) 1" "cv_status_addr v \<noteq> 0"
    using tr(2) dr assms(2) by (auto simp: agree_on_def same_shape_wf same_shape_range request_ok_def)
  note st = chain_status_ok [OF this(1,3,2) tr(3)]
  have "agree_on S m m1" using tr(2) by (rule agree_on_subset) (use assms(4) in \<open>auto simp: buffers_def\<close>)
  then have "agree_on S m (m1\<lparr>gm_bytes := mem_upd (gm_bytes m1) (unat (cv_status_addr v)) [VIRTIO_BLK_S_OK]\<rparr>)"
    by (rule agree_on_trans) (use assms(4) in \<open>auto simp: buffers_def intro!: agree_on_upd\<close>)
  then show ?thesis
    using process_chain_steps [OF walk tr(1) st] chain_transfer_frame(1) [OF tr(1)] by blast
qed

section \<open>A batch of requests\<close>

definition avail_region :: "'f virtio_block \<Rightarrow> nat set" where
  "avail_region d = {unat (vb_queue_avail d)..<unat (vb_queue_avail d) + (4 + 2 * unat (q_size d))}"

definition used_region :: "'f virtio_block \<Rightarrow> nat set" where
  "used_region d = {unat (vb_queue_used d)..<unat (vb_queue_used d) + (4 + 8 * unat (q_size d))}"

definition table_region :: "'f virtio_block \<Rightarrow> nat set" where
  "table_region d = {unat (vb_queue_desc d)..<unat (vb_queue_desc d) + 16 * unat (q_size d)}"

definition header_region :: "'f virtio_block \<Rightarrow> guest_memory \<Rightarrow> u16 list \<Rightarrow> nat set" where
  "header_region d m p = (let a = unat (vd_addr (desc_entry m (vb_queue_desc d) (hd p))) in {a..<a + 16})"

text \<open>What the device must not disturb while it works: the driver's part of the queue.\<close>

definition driver_region :: "'f virtio_block \<Rightarrow> guest_memory \<Rightarrow> u16 list list \<Rightarrow> nat set" where
  "driver_region d m ps = avail_region d \<union> table_region d \<union> (\<Union>p \<in> set ps. header_region d m p)"

text \<open>
  A batch that a driver has queued: the list of chains of all pending entries, in ring order. The
  queue size divides \<open>2 ^ 16\<close>, the rings, the table and the headers lie apart from each other's
  writers, and so do the buffers of every request.
\<close>

definition batch :: "'f virtio_block \<Rightarrow> guest_memory \<Rightarrow> u16 list list \<Rightarrow> bool" where
  "batch d m ps \<longleftrightarrow> ring_ok d m \<and> unat (q_size d) dvd 65536 \<and>
     length ps = pending d m \<and> length ps \<le> unat (q_size d) \<and>
     (\<forall>k < length ps. avail_head d m (vb_last_avail_idx d + of_nat k) = hd (ps ! k)) \<and>
     (\<forall>p \<in> set ps. driver_request m (vb_queue_desc d) p \<and> (\<forall>i \<in> set p. i < q_size d) \<and>
        buffers (chain_request m (vb_queue_desc d) p) \<inter> (driver_region d m ps \<union> used_region d) = {}) \<and>
     used_region d \<inter> driver_region d m ps = {}"

lemma batch_request:
  assumes "batch d m ps" and "p \<in> set ps"
  shows "driver_request m (vb_queue_desc d) p" and "\<And>i. i \<in> set p \<Longrightarrow> i < q_size d"
    and "buffers (chain_request m (vb_queue_desc d) p) \<inter> (driver_region d m ps \<union> used_region d) = {}"
  using assms by (auto simp: batch_def)

text \<open>A request is read from the driver's region only.\<close>

lemma desc_entry_agree:
  assumes "agree_on (table_region d) m m'" and "i < q_size d"
  shows "desc_entry m' (vb_queue_desc d) i = desc_entry m (vb_queue_desc d) i"
proof -
  have "unat i < unat (q_size d)" using assms(2) by (simp add: word_less_nat_alt)
  then have "{unat (vb_queue_desc d) + 16 * unat i..<unat (vb_queue_desc d) + 16 * unat i + 16}
      \<subseteq> table_region d"
    by (auto simp: table_region_def)
  then show ?thesis by (simp add: desc_entry_def agree_on_get [OF assms(1)])
qed

lemma chain_path_agree:
  assumes "agree_on (table_region d) m m'" and "\<And>i. i \<in> set p \<Longrightarrow> i < q_size d"
  shows "chain_path m' (vb_queue_desc d) p = chain_path m (vb_queue_desc d) p"
proof -
  have shape: "same_shape m m'" using assms(1) by (simp add: agree_on_def)
  show ?thesis
    using assms(2)
    by (induction p rule: induct_list012)
      (simp_all add: desc_entry_agree [OF assms(1)] desc_in_def same_shape_range [OF shape])
qed

lemma driver_request_agree:
  assumes "agree_on (table_region d \<union> header_region d m p) m m'" and "\<And>i. i \<in> set p \<Longrightarrow> i < q_size d"
    and "driver_request m (vb_queue_desc d) p"
  shows "driver_request m' (vb_queue_desc d) p"
    and "chain_request m' (vb_queue_desc d) p = chain_request m (vb_queue_desc d) p"
proof -
  let ?t = "vb_queue_desc d"
  have tab: "agree_on (table_region d) m m'" and shape: "same_shape m m'"
    using assms(1) by (auto simp: agree_on_def)
  have p: "p \<noteq> []" "butlast p \<noteq> []"
    using assms(3) by (auto simp: driver_request_def simp flip: length_greater_0_conv)
  then have mem: "hd p \<in> set p" "last p \<in> set p" "last (butlast p) \<in> set p"
    using in_set_butlastD [OF last_in_set [OF p(2)]] by simp_all
  note e = desc_entry_agree [OF tab assms(2)]
  have hdr: "{unat (vd_addr (desc_entry m ?t (hd p)))..<unat (vd_addr (desc_entry m ?t (hd p))) + 16}
      \<subseteq> table_region d \<union> header_region d m p"
    by (auto simp: header_region_def Let_def)
  have hs: "hdr_sector m' (desc_entry m ?t (hd p)) = hdr_sector m (desc_entry m ?t (hd p))"
    "hdr_type m' (desc_entry m ?t (hd p)) = hdr_type m (desc_entry m ?t (hd p))"
    unfolding hdr_sector_def hdr_type_def
    by (subst agree_on_get [OF assms(1)]; use hdr in \<open>auto simp: subset_iff\<close>)+
  show r: "chain_request m' ?t p = chain_request m ?t p"
    using mem by (simp add: chain_request_def e hs)
  show "driver_request m' ?t p"
    using assms(3) mem same_shape_wf [OF shape]
    by (simp add: driver_request_def r chain_path_agree [OF tab assms(2)] hdr_in_def e request_ok_def
        same_shape_range [OF shape])
qed


text \<open>The ring slots of a batch are distinct, because the size divides the range of the index.\<close>

lemma unat_ring_slot:
  assumes "unat (q :: u16) dvd 65536" and "q \<noteq> 0"
  shows "unat ((u + of_nat j) mod q) = (unat u + j) mod unat q"
proof -
  have "unat (u + of_nat j) = (unat u + j) mod 65536"
    by (simp add: unat_word_ariths unsigned_of_nat take_bit_eq_mod mod_add_right_eq)
  then show ?thesis using assms by (simp add: unat_mod mod_mod_cancel)
qed

lemma ring_slots_distinct:
  assumes "unat (q :: u16) dvd 65536" and "q \<noteq> 0" and "j < k" and "k < j + unat q"
  shows "(u + of_nat j) mod q \<noteq> (u + of_nat k) mod q"
proof
  assume "(u + of_nat j) mod q = (u + of_nat k) mod q"
  then have "(unat u + j) mod unat q = (unat u + k) mod unat q"
    using unat_ring_slot [OF assms(1,2)] by metis
  then have "unat q dvd (unat u + k) - (unat u + j)"
    using assms(3) by (subst mod_eq_dvd_iff_nat [symmetric]) simp_all
  then have "unat q dvd k - j" by simp
  with assms(3,4) show False by (auto dest: dvd_imp_le)
qed

definition batch_buffers :: "'f virtio_block \<Rightarrow> guest_memory \<Rightarrow> u16 list list \<Rightarrow> nat set" where
  "batch_buffers d m ps = (\<Union>p \<in> set ps. buffers (chain_request m (vb_queue_desc d) p))"

text \<open>The state of the loop after \<open>k\<close> requests of a batch.\<close>

definition batch_done ::
  "'f virtio_block \<Rightarrow> guest_memory \<Rightarrow> u16 list list \<Rightarrow> nat \<Rightarrow> 'f queue_vars \<Rightarrow> bool" where
  "batch_done d m ps k q \<longleftrightarrow> same_regs d (qv_dev q) \<and>
     agree_on (- (used_region d \<union> batch_buffers d m ps)) m (qv_mem q) \<and>
     qv_last_idx q = vb_last_avail_idx d + of_nat k \<and> qv_work_done q = (0 < k) \<and>
     used_idx d (qv_mem q) = used_idx d m + of_nat k \<and>
     (\<forall>j < k. used_id d (qv_mem q) (used_idx d m + of_nat j) = ucast (hd (ps ! j)))"

lemma ring_ok_agree: "agree_on S m m' \<Longrightarrow> ring_ok d m' = ring_ok d m"
  by (auto simp: ring_ok_def agree_on_def same_shape_def gm_wf_def gm_range_def)

lemma avail_head_agree:
  assumes "agree_on (avail_region d) m m'" and "q_size d \<noteq> 0"
  shows "avail_head d m' i = avail_head d m i"
proof -
  have "{avail_slot d i..<avail_slot d i + 2} \<subseteq> avail_region d"
    using mod_size_less [OF assms(2), of i] by (auto simp: avail_slot_def avail_region_def)
  then show ?thesis by (simp add: avail_head_def mem_u16_def agree_on_get [OF assms(1)])
qed

lemma used_ring_agree:
  assumes "agree_on (used_region d) m m'" and "q_size d \<noteq> 0"
  shows "used_idx d m' = used_idx d m" and "used_id d m' i = used_id d m i"
proof -
  have "{unat (vb_queue_used d) + 2..<unat (vb_queue_used d) + 2 + 2} \<subseteq> used_region d"
    "{used_slot d i..<used_slot d i + 4} \<subseteq> used_region d"
    using mod_size_less [OF assms(2), of i] by (auto simp: used_slot_def used_region_def)
  then show "used_idx d m' = used_idx d m" and "used_id d m' i = used_id d m i"
    by (simp_all add: used_idx_def used_id_def mem_u16_def agree_on_get [OF assms(1)])
qed

lemma driver_region_kept:
  assumes "batch d m ps" and "agree_on (- (used_region d \<union> batch_buffers d m ps)) m m'"
  shows "agree_on (driver_region d m ps) m m'"
  using assms(2) by (rule agree_on_subset) (use assms(1) in \<open>auto simp: batch_def batch_buffers_def\<close>)

text \<open>One iteration of the loop on a ring that is in range.\<close>

lemma queue_step_in:
  assumes "ring_ok d mem" and "qv_mem q = mem" and "qv_last_idx q \<noteq> aidx"
    and "process_descriptor_chain oc F (qv_dev q) mem desc (avail_head d mem (qv_last_idx q)) =
      Some (Done (d1, m1, w))"
    and "push_used oc m1 used (q_size d) (avail_head d mem (qv_last_idx q)) w = Done m2"
  shows "queue_step oc F (q_size d) desc (vb_queue_avail d) used aidx q =
    Some (Done (Inl \<lparr>qv_last_idx = qv_last_idx q + 1, qv_work_done = True, qv_dev = d1, qv_mem = m2\<rparr>))"
proof -
  let ?j = "qv_last_idx q mod q_size d"
  have off: "unat (4 + ucast ?j * 2 :: u64) = 4 + 2 * unat ?j" using slot_word [of 2 ?j] by simp
  note slot = range_offset [OF ring_slot_ranges(1) [OF assms(1)] off]
  have "read_u16 oc mem (vb_queue_avail d + (4 + ucast ?j * 2)) =
      Done (Some (avail_head d mem (qv_last_idx q)))"
    using assms(1) slot(2,3) by (simp add: read_u16_ok ring_ok_def avail_head_def avail_slot_def)
  then show ?thesis using assms(2-5) slot(1) by (simp add: queue_step_def)
qed

text \<open>
  The next iteration on a batch, step by step: the request is still the one the driver queued, it is
  processed within its buffers, and its completion is published.
\<close>

lemma batch_iteration:
  assumes b: "batch d m ps" and F: "reads_fit F" and k: "k < length ps" and q: "batch_done d m ps k q"
  defines "p \<equiv> ps ! k" and "t \<equiv> vb_queue_desc d"
  obtains d1 m1 w m2 where "driver_request (qv_mem q) t p" and "chain_request (qv_mem q) t p = chain_request m t p"
    and "process_descriptor_chain oc F (qv_dev q) (qv_mem q) t (hd p) = Some (Done (d1, m1, w))"
    and "same_regs (qv_dev q) d1" and "agree_on (- buffers (chain_request m t p)) (qv_mem q) m1"
    and "ring_ok d m1" and "push_used oc m1 (vb_queue_used d) (q_size d) (hd p) w = Done m2"
    and "queue_step oc F (q_size d) t (vb_queue_avail d) (vb_queue_used d) (avail_idx d m) q =
      Some (Done (Inl \<lparr>qv_last_idx = qv_last_idx q + 1, qv_work_done = True, qv_dev = d1, qv_mem = m2\<rparr>))"
proof -
  let ?mem = "qv_mem q" and ?R = "- (used_region d \<union> batch_buffers d m ps)"
  have p: "p \<in> set ps" using k by (simp add: p_def)
  have qs: "q_size d \<noteq> 0" "length ps \<le> unat (q_size d)"
    and n: "length ps = unat (avail_idx d m - vb_last_avail_idx d)"
    using b by (simp_all add: batch_def ring_ok_def pending_def)
  have ag: "agree_on ?R m ?mem" and li: "qv_last_idx q = vb_last_avail_idx d + of_nat k"
    using q by (simp_all add: batch_done_def)
  have dr: "agree_on (driver_region d m ps) m ?mem" using b ag by (rule driver_region_kept)
  have ring: "ring_ok d ?mem" using ring_ok_agree [OF ag, of d] b by (simp add: batch_def)
  have "avail_head d ?mem (qv_last_idx q) = avail_head d m (qv_last_idx q)"
    by (rule avail_head_agree [OF agree_on_subset [OF dr] qs(1)]) (auto simp: driver_region_def)
  then have head: "avail_head d ?mem (qv_last_idx q) = hd p"
    using b k li by (simp add: batch_def p_def)
  have "agree_on (table_region d \<union> header_region d m p) m ?mem"
    using dr by (rule agree_on_subset) (use p in \<open>auto simp: driver_region_def\<close>)
  note req = driver_request_agree [OF this batch_request(2) [OF b p] batch_request(1) [OF b p], folded t_def]
  obtain d1 m1 w where pc: "process_descriptor_chain oc F (qv_dev q) ?mem t (hd p) = Some (Done (d1, m1, w))"
    "same_regs (qv_dev q) d1" "agree_on (- buffers (chain_request m t p)) ?mem m1"
    using request_confined [OF req(1) refl F, of "- buffers (chain_request m t p)" oc "qv_dev q"] req(2) by auto
  have ring1: "ring_ok d m1" using ring_ok_agree [OF pc(3), of d] ring by simp
  obtain m2 where m2: "push_used oc m1 (vb_queue_used d) (q_size d) (hd p) w = Done m2"
    using push_used_in [OF ring1] by simp
  have "k < 65536" using k qs(2) unat_u16_bound [of "q_size d"] by linarith
  then have "unat (of_nat k :: u16) < unat (avail_idx d m - vb_last_avail_idx d)"
    using k n by (simp add: unat_of_nat_small)
  then have "of_nat k \<noteq> avail_idx d m - vb_last_avail_idx d" by (metis less_irrefl)
  then have "qv_last_idx q \<noteq> avail_idx d m" using li by (auto simp: algebra_simps)
  from that [OF req pc ring1 m2 queue_step_in [OF ring refl this, unfolded head, OF pc(1) m2]] show ?thesis .
qed

lemma push_used_agree:
  assumes "ring_ok d m" and "push_used oc m (vb_queue_used d) (q_size d) h w = Done m'"
  shows "agree_on (- used_region d) m m'"
  using push_used_frame [OF assms] push_used_shape [OF assms(2)] by (auto simp: agree_on_def used_region_def)

text \<open>The loop takes the next request of a batch.\<close>

lemma batch_step:
  assumes b: "batch d m ps" and F: "reads_fit F" and k: "k < length ps" and q: "batch_done d m ps k q"
  shows "\<exists>q'. queue_step oc F (q_size d) (vb_queue_desc d) (vb_queue_avail d) (vb_queue_used d)
      (avail_idx d m) q = Some (Done (Inl q')) \<and> batch_done d m ps (Suc k) q'"
proof -
  let ?p = "ps ! k" and ?mem = "qv_mem q" and ?t = "vb_queue_desc d"
  let ?R = "- (used_region d \<union> batch_buffers d m ps)" and ?u = "used_idx d m"
  have p: "?p \<in> set ps" using k by simp
  have qs: "q_size d \<noteq> 0" "unat (q_size d) dvd 65536" "length ps \<le> unat (q_size d)"
    using b by (simp_all add: batch_def ring_ok_def)
  have ag: "agree_on ?R m ?mem" and ui: "used_idx d ?mem = ?u + of_nat k"
    and li: "qv_last_idx q = vb_last_avail_idx d + of_nat k" and regs: "same_regs d (qv_dev q)"
    and ids: "\<And>j. j < k \<Longrightarrow> used_id d ?mem (?u + of_nat j) = ucast (hd (ps ! j))"
    using q by (simp_all add: batch_done_def)
  obtain d1 m1 w m2 where pc: "same_regs (qv_dev q) d1" "agree_on (- buffers (chain_request m ?t ?p)) ?mem m1"
    and ring1: "ring_ok d m1" and m2: "push_used oc m1 (vb_queue_used d) (q_size d) (hd ?p) w = Done m2"
    and step: "queue_step oc F (q_size d) ?t (vb_queue_avail d) (vb_queue_used d) (avail_idx d m) q =
      Some (Done (Inl \<lparr>qv_last_idx = qv_last_idx q + 1, qv_work_done = True, qv_dev = d1, qv_mem = m2\<rparr>))"
    by (rule batch_iteration [OF b F k q, of oc])
  have "agree_on (used_region d) ?mem m1"
    using pc(2) by (rule agree_on_subset) (use batch_request(3) [OF b p] in auto)
  note used1 = used_ring_agree [OF this qs(1)] and entry = push_used_entry [OF ring1 m2]
  have same1: "agree_on ?R ?mem m1"
    using pc(2) by (rule agree_on_subset) (use p in \<open>auto simp: batch_buffers_def\<close>)
  have same2: "agree_on ?R m1 m2" using push_used_agree [OF ring1 m2] by (rule agree_on_subset) auto
  have "used_id d m2 (?u + of_nat j) = ucast (hd (ps ! j))" if "j < Suc k" for j
  proof (cases "j = k")
    case True
    with entry(1) used1(1) ui show ?thesis by simp
  next
    case False
    with that have j: "j < k" by simp
    then have "(?u + of_nat j) mod q_size d \<noteq> used_idx d m1 mod q_size d"
      using ring_slots_distinct [OF qs(2,1) j, of ?u] k qs(3) used1(1) ui by simp
    then show ?thesis using push_used_other_slot [OF ring1 m2] used1(2) ids [OF j] by simp
  qed
  then have "batch_done d m ps (Suc k)
      \<lparr>qv_last_idx = qv_last_idx q + 1, qv_work_done = True, qv_dev = d1, qv_mem = m2\<rparr>"
    using agree_on_trans [OF agree_on_trans [OF ag same1] same2] same_regs_trans [OF regs pc(1)]
      entry(3) used1(1) ui li by (simp add: batch_done_def algebra_simps)
  with step show ?thesis by blast
qed

lemma process_queue_start:
  assumes "ring_ok d m"
    and "exec_loop (queue_step oc F (q_size d) (vb_queue_desc d) (vb_queue_avail d) (vb_queue_used d)
       (avail_idx d m)) \<lparr>qv_last_idx = vb_last_avail_idx d, qv_work_done = False, qv_dev = d, qv_mem = m\<rparr>
      = r"
  shows "process_queue oc F d m = run_bind r
    (\<lambda>q. let d' = (qv_dev q)\<lparr>vb_last_avail_idx := qv_last_idx q\<rparr> in
       if qv_work_done q
       then Some (Done (True, d'\<lparr>vb_interrupt_status := vb_interrupt_status d' OR 1\<rparr>, qv_mem q))
       else Some (Done (False, d', qv_mem q)))"
proof -
  note idx = range_offset [OF ring_slot_ranges(3) [OF assms(1)], of 2, simplified]
  have "read_u16 oc m (vb_queue_avail d + 2) = Done (Some (avail_idx d m))"
    using assms(1) idx by (simp add: read_u16_ok avail_idx_def ring_ok_def)
  then show ?thesis
    using assms idx(1) by (simp add: process_queue_def Let_def q_size_def ring_ok_def)
qed

lemma batch_processed:
  assumes "batch d m ps" and "reads_fit F"
  shows "\<exists>d' m'. process_queue oc F d m = Some (Done (ps \<noteq> [], d', m')) \<and>
    vb_last_avail_idx d' = avail_idx d m \<and>
    used_idx d m' = used_idx d m + of_nat (length ps) \<and>
    (\<forall>k < length ps. used_id d m' (used_idx d m + of_nat k) = ucast (hd (ps ! k))) \<and>
    vb_interrupt_status d' = (if ps = [] then vb_interrupt_status d else vb_interrupt_status d OR 1) \<and>
    agree_on (- (used_region d \<union> batch_buffers d m ps)) m m'"
proof -
  let ?body = "queue_step oc F (q_size d) (vb_queue_desc d) (vb_queue_avail d) (vb_queue_used d) (avail_idx d m)"
  let ?q0 = "\<lparr>qv_last_idx = vb_last_avail_idx d, qv_work_done = False, qv_dev = d, qv_mem = m\<rparr>"
  have n: "length ps = unat (avail_idx d m - vb_last_avail_idx d)" and ring: "ring_ok d m"
    using assms(1) by (simp_all add: batch_def pending_def)
  have leave: "?body q = Some (Done (Inr q))" if "batch_done d m ps (length ps) q" for q
    using that by (simp add: batch_done_def n queue_step_def)
  obtain q where q: "exec_loop ?body ?q0 = Some (Done q)" "batch_done d m ps (length ps) q"
    using exec_loop_counted [where P = "batch_done d m ps" and body = ?body and s = ?q0 and r = "\<lambda>q. q",
        OF _ batch_step [OF assms] leave] by (auto simp: batch_done_def)
  have last: "qv_last_idx q = avail_idx d m" using q(2) by (simp add: batch_done_def n)
  note r = process_queue_start [OF ring q(1)]
  show ?thesis
    using r q(2) last same_regs_fields(4) [of d "qv_dev q"]
    by (cases "ps = []") (auto simp: batch_done_def Let_def)
qed

text \<open>
  C3. A notification completes every request the driver has queued. For a batch of well-formed
  requests, any host file and both build profiles, \<open>process_queue\<close> returns; it has taken all the
  pending entries, published one completion for each of them in ring order at the next free slots,
  advanced the used index by their number and raised the interrupt bit exactly when there was work;
  besides the used ring and the buffers of the requests no byte of guest memory has changed.
\<close>

theorem blk_batch_completed:
  assumes "batch d m ps" and "reads_fit F"
  shows "\<exists>d' m'. process_queue oc F d m = Some (Done (ps \<noteq> [], d', m')) \<and>
    vb_last_avail_idx d' = avail_idx d m \<and>
    used_idx d m' = used_idx d m + of_nat (length ps) \<and>
    (\<forall>k < length ps. used_id d m' (used_idx d m + of_nat k) = ucast (hd (ps ! k))) \<and>
    vb_interrupt_status d' = (if ps = [] then vb_interrupt_status d else vb_interrupt_status d OR 1) \<and>
    agree_on (- (used_region d \<union> batch_buffers d m ps)) m m'"
  using assms by (rule batch_processed)

text \<open>The request of \<open>example_mem\<close> queued on rings of four entries at \<open>0x500\<close> and \<open>0x600\<close>.\<close>

definition ring_mem :: guest_memory where
  "ring_mem = (example_mem 1 [1, 2, 3, 4])\<lparr>gm_bytes :=
     mem_upd (gm_bytes (example_mem 1 [1, 2, 3, 4])) 0x502 [1, 0, 0, 0]\<rparr>"

definition ring_disk :: "image virtio_block" where
  "ring_disk = example_disk\<lparr>vb_queue_num := 4, vb_queue_ready := 1, vb_queue_desc := 0x100,
     vb_queue_avail := 0x500, vb_queue_used := 0x600\<rparr>"

lemma ring_example_regs:
  "vb_queue_desc ring_disk = 0x100" "vb_queue_avail ring_disk = 0x500" "vb_queue_used ring_disk = 0x600"
  "vb_queue_num ring_disk = 4" "vb_queue_ready ring_disk = 1" "vb_last_avail_idx ring_disk = 0"
  by (simp_all add: ring_disk_def example_disk_def vb_new_def image_ops_def img_open_def)

lemma ring_example_size: "q_size ring_disk = 4"
  by (simp add: q_size_def ring_example_regs)

lemma ring_example_request:
  "chain_request ring_mem 0x100 [0, 1, 2] =
     \<lparr>cv_next_idx = 2, cv_sector = 0, cv_is_write = True, cv_data_addr = 0x300, cv_data_len = 4,
      cv_status_addr = 0x400, cv_phase = 2\<rparr>"
  "chain_path ring_mem 0x100 [0, 1, 2]" "hdr_in ring_mem (desc_entry ring_mem 0x100 0)"
  "vd_addr (desc_entry ring_mem 0x100 0) = 0x200"
  "mem_u16 ring_mem 0x502 = 1" "mem_u16 ring_mem 0x504 = 0"
  "mem_u16 ring_mem 0x602 = 0"
proof -
  have ag: "agree_on {0x100..<0x500} (example_mem 1 [1, 2, 3, 4]) ring_mem"
    by (simp add: ring_mem_def agree_on_upd)
  have e: "desc_entry ring_mem 0x100 i = desc_entry (example_mem 1 [1, 2, 3, 4]) 0x100 i" if "i < 4" for i
    using that by (simp add: desc_entry_def agree_on_get [OF ag] word_less_nat_alt)
  show "chain_request ring_mem 0x100 [0, 1, 2] =
     \<lparr>cv_next_idx = 2, cv_sector = 0, cv_is_write = True, cv_data_addr = 0x300, cv_data_len = 4,
      cv_status_addr = 0x400, cv_phase = 2\<rparr>"
    "chain_path ring_mem 0x100 [0, 1, 2]" "hdr_in ring_mem (desc_entry ring_mem 0x100 0)"
    "vd_addr (desc_entry ring_mem 0x100 0) = 0x200"
    by (simp_all add: e chain_request_def example_entries hdr_sector_def hdr_type_def VIRTIO_BLK_T_OUT_def
      desc_in_def gm_range_def has_next_def VRING_DESC_F_NEXT_def hdr_in_def agree_on_get [OF ag] agree_len [OF ag])
  show  "mem_u16 ring_mem 0x502 = 1" "mem_u16 ring_mem 0x504 = 0" "mem_u16 ring_mem 0x602 = 0"
    by (simp_all add: mem_u16_def ring_mem_def example_mem_def mem_eval mem_get_zero numeral_2_eq_2)
qed

lemma ring_example_shape [simp]: "gm_len ring_mem = 0x1000" "gm_mapped ring_mem = 0x1000"
  by (simp_all add: ring_mem_def)

lemma ring_example_batch: "batch ring_disk ring_mem [[0, 1, 2]]"
  by (simp add: batch_def ring_ok_def ring_example_regs ring_example_size ring_example_request
      gm_wf_def gm_range_def pending_def avail_idx_def avail_head_def avail_slot_def driver_request_def
      request_ok_def buffers_def driver_region_def used_region_def avail_region_def table_region_def
      header_region_def Int_Un_distrib Int_Un_distrib2 del: chain_path.simps)

theorem blk_batch_completed_witness:
  "\<exists>d' m'. process_queue True (image_ops Map.empty) ring_disk ring_mem = Some (Done (True, d', m')) \<and>
    vb_last_avail_idx d' = 1 \<and> used_idx ring_disk m' = 1 \<and> used_id ring_disk m' 0 = 0 \<and>
    vb_interrupt_status d' = 1"
  using blk_batch_completed [OF ring_example_batch img.fits, of True "Map.empty"]
  by (auto simp: used_idx_def avail_idx_def ring_example_regs ring_example_request ring_disk_def
      example_disk_def vb_new_def image_ops_def img_open_def)

section \<open>Queues a guest sets up badly\<close>

lemma chain_walk_cycle:
  assumes "gm_wf m" and "h \<in> S" and "hdr_in m (desc_entry m t h)"
    and "\<And>i. i \<in> S \<Longrightarrow> desc_in m t i \<and> has_next (desc_entry m t i) \<and> vd_next (desc_entry m t i) \<in> S"
  shows "chain_walk oc m t h = None"
  unfolding chain_walk_def
proof (rule exec_loop_diverges [where I = "\<lambda>v. cv_next_idx v \<in> S \<and> (cv_phase v = 0 \<longrightarrow> cv_next_idx v = h)"])
  show "cv_next_idx (chain_init h) \<in> S \<and> (cv_phase (chain_init h) = 0 \<longrightarrow> cv_next_idx (chain_init h) = h)"
    using assms(2) by (simp add: chain_init_def)
next
  fix v :: chain_vars assume I: "cv_next_idx v \<in> S \<and> (cv_phase v = 0 \<longrightarrow> cv_next_idx v = h)"
  let ?e = "desc_entry m t (cv_next_idx v)"
  have "\<exists>v'. chain_phase oc m ?e v = Done v' \<and> 0 < cv_phase v'"
  proof (cases "cv_phase v = 0")
    case True
    with I assms(1,3) show ?thesis by (simp add: chain_phase_header)
  qed (simp add: chain_phase_later)
  with assms(1) assms(4) [of "cv_next_idx v"] I
  show "\<exists>v'. Some (chain_step oc m t v) = Some (Done (Inl v')) \<and> cv_next_idx v' \<in> S \<and>
      (cv_phase v' = 0 \<longrightarrow> cv_next_idx v' = h)"
    by (auto simp: chain_step_in Let_def)
qed

text \<open>
  C30. A guest can hang the device: if the pending head leads into descriptors whose links never
  leave them (a descriptor that names itself is enough), the notification handler does not return,
  in either build profile. The handler holds the lock of the guest memory while it spins.
\<close>

theorem blk_cyclic_chain_hangs:
  assumes "ring_ok d m" and "avail_idx d m \<noteq> vb_last_avail_idx d"
    and "t = vb_queue_desc d" and "h = avail_head d m (vb_last_avail_idx d)" and "h \<in> S"
    and "\<forall>i \<in> S. desc_in m t i \<and> has_next (desc_entry m t i) \<and> vd_next (desc_entry m t i) \<in> S"
    and "hdr_in m (desc_entry m t h)" and "4 \<le> length data"
  shows "vb_write oc F d m VIRTIO_MMIO_QUEUE_NOTIFY data = None"
proof -
  let ?q0 = "\<lparr>qv_last_idx = vb_last_avail_idx d, qv_work_done = False, qv_dev = d, qv_mem = m\<rparr>"
  have wf: "gm_wf m" using assms(1) by (simp add: ring_ok_def)
  have "chain_walk oc m t h = None"
    by (rule chain_walk_cycle [OF wf assms(5,7)]) (use assms(6) in blast)
  then have pc: "process_descriptor_chain oc F d m t h = None" by (simp add: process_descriptor_chain_def)
  let ?j = "vb_last_avail_idx d mod q_size d"
  have off: "unat (4 + ucast ?j * 2 :: u64) = 4 + 2 * unat ?j" using slot_word [of 2 ?j] by simp
  note slot = range_offset [OF ring_slot_ranges(1) [OF assms(1)] off]
  have "read_u16 oc m (vb_queue_avail d + (4 + ucast ?j * 2)) = Done (Some h)"
    using slot(2,3) wf by (simp add: read_u16_ok assms(4) avail_head_def avail_slot_def)
  then have "queue_step oc F (q_size d) t (vb_queue_avail d) (vb_queue_used d) (avail_idx d m) ?q0 = None"
    using pc slot(1) assms(2) by (simp add: queue_step_def)
  then have "exec_loop (queue_step oc F (q_size d) t (vb_queue_avail d) (vb_queue_used d)
      (avail_idx d m)) ?q0 = None" by (rule exec_loop_None)
  from process_queue_start [OF assms(1) this [unfolded assms(3)]] assms(8) show ?thesis
    by (simp add: vb_write_def)
qed

text \<open>The same rings with a descriptor whose link names itself.\<close>

definition cyclic_mem :: guest_memory where
  "cyclic_mem = ring_mem\<lparr>gm_bytes := mem_upd (gm_bytes ring_mem) 0x100 (encode_desc 0x200 16 1 0)\<rparr>"

lemma cyclic_example:
  "desc_in cyclic_mem 0x100 0" "has_next (desc_entry cyclic_mem 0x100 0)"
  "vd_next (desc_entry cyclic_mem 0x100 0) = 0" "hdr_in cyclic_mem (desc_entry cyclic_mem 0x100 0)"
  "mem_u16 cyclic_mem 0x502 = 1" "mem_u16 cyclic_mem 0x504 = 0"
proof -
  have e: "desc_entry cyclic_mem 0x100 0 = \<lparr>vd_addr = 0x200, vd_len = 16, vd_flags = 1, vd_next = 0\<rparr>"
    by (simp add: desc_entry_def cyclic_mem_def)
  show "desc_in cyclic_mem 0x100 0" "has_next (desc_entry cyclic_mem 0x100 0)"
    "vd_next (desc_entry cyclic_mem 0x100 0) = 0" "hdr_in cyclic_mem (desc_entry cyclic_mem 0x100 0)"
    unfolding e by (simp_all add: desc_in_def has_next_def VRING_DESC_F_NEXT_def hdr_in_def gm_range_def cyclic_mem_def ring_mem_def example_mem_def)
  show "mem_u16 cyclic_mem 0x502 = 1" "mem_u16 cyclic_mem 0x504 = 0"
    using ring_example_request(5,6) by (simp_all add: mem_u16_def cyclic_mem_def mem_eval)
qed

theorem blk_cyclic_chain_hangs_witness:
  "vb_write True (image_ops Map.empty) ring_disk cyclic_mem VIRTIO_MMIO_QUEUE_NOTIFY [0, 0, 0, 0] = None"
proof (rule blk_cyclic_chain_hangs [where S = "{0}" and t = "0x100" and h = "0"])
  show "ring_ok ring_disk cyclic_mem"
    by (simp add: ring_ok_def ring_example_regs ring_example_size gm_wf_def gm_range_def cyclic_mem_def)
qed (simp_all add: avail_idx_def avail_head_def avail_slot_def ring_example_regs ring_example_size
    cyclic_example)

text \<open>
  How the host can fail a request: there is no disk, the file cannot be positioned, writing stops with
  an error (having written part of the data or not), reading gives an error or fewer bytes than were asked
  for. The value is the disk afterwards and what was read.
\<close>

definition failed_transfer ::
  "'f file_ops \<Rightarrow> 'f virtio_block \<Rightarrow> guest_memory \<Rightarrow> chain_vars \<Rightarrow> ('f option \<times> bytes) option" where
  "failed_transfer F d m v = (case vb_disk d of None \<Rightarrow> Some (None, [])
     | Some f \<Rightarrow> (case fo_seek F f (cv_sector v * 512) of Inl _ \<Rightarrow> Some (Some f, [])
       | Inr f1 \<Rightarrow>
           if cv_is_write v then
             (let (ok, f2) = fo_write_all F f1 (mem_get (gm_bytes m) (unat (cv_data_addr v)) (unat (cv_data_len v)))
              in if ok then None else Some (Some f2, []))
           else
             (let (r, f2) = fo_read F f1 (unat (cv_data_len v))
              in case r of Inl _ \<Rightarrow> Some (Some f2, [])
                 | Inr bs \<Rightarrow> if length bs < unat (cv_data_len v) then Some (Some f2, bs) else None)))"

text \<open>
  C32. The status byte of a request says nothing about the host. For a well-formed request, however the host
  fails it (no disk, a seek error, a write that stops with an error, a read error, a read that comes up short),
  the guest reads \<open>VIRTIO_BLK_S_OK\<close> and a length that counts the status and the bytes that were read.
  Those bytes are at the start of the buffer and the rest of guest memory is as it was; the disk is as the failed
  calls have left it, which after a failed write may be with part of the data.
\<close>

theorem blk_failed_request_reports_ok:
  assumes "driver_request m t p" and "v = chain_request m t p" and "failed_transfer F d m v = Some (disk', bs)"
  shows "process_descriptor_chain oc F d m t (hd p) = Some (Done (d\<lparr>vb_disk := disk'\<rparr>,
    m\<lparr>gm_bytes := mem_upd (mem_upd (gm_bytes m) (unat (cv_data_addr v)) bs) (unat (cv_status_addr v)) [VIRTIO_BLK_S_OK]\<rparr>,
    of_nat (length bs) + 1))"
proof -
  note dr = assms(1) [unfolded driver_request_def]
  let ?m1 = "m\<lparr>gm_bytes := mem_upd (gm_bytes m) (unat (cv_data_addr v)) bs\<rparr>"
  have ok: "request_ok m v" and walk: "chain_walk oc m t (hd p) = Some (Done v)" and wf: "gm_wf m"
    using chain_walk_path [of m t p oc] dr assms(2) by simp_all
  then have mul: "umul oc (cv_sector v) 512 = Done (cv_sector v * 512)"
    by (intro request_offset) (simp add: request_ok_def)
  have rd: "read_slice oc m (cv_data_addr v) (ucast (cv_data_len v)) =
      Done (Inr (mem_get (gm_bytes m) (unat (cv_data_addr v)) (unat (cv_data_len v))))"
    using ok wf by (simp add: read_slice_ok request_ok_def)
  have len: "bs = [] \<or> length bs < unat (cv_data_len v)" "0 < unat (cv_data_len v)" "unat (cv_data_len v) < 2 ^ 32 - 1"
    using assms(3) ok
    by (auto simp: failed_transfer_def request_ok_def word_less_nat_alt split: option.splits sum.splits if_splits prod.splits)
  then have n: "unat (of_nat (length bs) :: u32) = length bs" by (intro unat_of_nat_small) auto
  have "gm_range m (cv_data_addr v) (length bs)"
    using ok len by (auto simp: request_ok_def intro: gm_range_mono)
  then have wr: "write_slice oc m (cv_data_addr v) bs = Done (Inr ?m1)" using wf by (simp add: write_slice_ok)
  have add: "uadd oc 0 (of_nat (length bs) :: u32) = Done (of_nat (length bs))"
    using uadd_no_overflow [of "0 :: u32" "of_nat (length bs)" oc] unat_bound [of "of_nat (length bs) :: u32"] by simp
  have "m\<lparr>gm_bytes := gm_bytes m\<rparr> = m" and "d\<lparr>vb_disk := vb_disk d\<rparr> = d" by simp_all
  then have "chain_transfer oc F d m v = Done (d\<lparr>vb_disk := disk'\<rparr>, ?m1, of_nat (length bs))"
    using assms(3) mul rd wr add ok
    by (auto simp: failed_transfer_def chain_transfer_def request_ok_def Let_def
        split: option.splits sum.splits if_splits prod.splits)
  moreover have "chain_status oc ?m1 v (of_nat (length bs)) =
      Done (?m1\<lparr>gm_bytes := mem_upd (gm_bytes ?m1) (unat (cv_status_addr v)) [VIRTIO_BLK_S_OK]\<rparr>, of_nat (length bs) + 1)"
    by (rule chain_status_ok) (use ok wf n len in \<open>auto simp: request_ok_def gm_wf_def gm_range_def\<close>)
  ultimately show ?thesis using process_chain_steps [OF walk] by simp
qed

text \<open>A file on a device that is full after two bytes of a write.\<close>

definition full_ops :: "(string \<rightharpoonup> bytes) \<Rightarrow> image file_ops" where
  "full_ops fs = (image_ops fs)\<lparr>fo_write_all := (\<lambda>f d. (length d \<le> 2, snd (img_write_all f (take 2 d))))\<rparr>"

theorem blk_failed_request_reports_ok_witness:
  "(\<exists>m'. process_descriptor_chain False (image_ops Map.empty) (vb_new (image_ops Map.empty) None)
     (example_mem 1 [1, 2, 3, 4]) 0x100 0 = Some (Done (vb_new (image_ops Map.empty) None, m', 1)) \<and> gm_bytes m' 0x400 = 0) \<and>
   (\<exists>m' f'. process_descriptor_chain False (full_ops Map.empty) example_disk
     (example_mem 1 [1, 2, 3, 4]) 0x100 0 = Some (Done (example_disk\<lparr>vb_disk := Some f'\<rparr>, m', 1)) \<and> gm_bytes m' 0x400 = 0 \<and>
     img_data f' = [1, 2, 7, 6, 5, 4])"
proof -
  let ?m = "example_mem 1 [1, 2, 3, 4]"
  let ?d = "vb_new (image_ops Map.empty) None"
  have none: "vb_disk ?d = None" "?d\<lparr>vb_disk := None\<rparr> = ?d" by (simp_all add: vb_new_def)
  have data: "mem_get (gm_bytes ?m) 0x300 4 = [1, 2, 3, 4]" by (simp add: example_mem_def)
  have full: "failed_transfer (full_ops Map.empty) example_disk ?m (chain_request ?m 0x100 [0, 1, 2]) =
      Some (Some \<lparr>img_data = [1, 2, 7, 6, 5, 4], img_pos = 2\<rparr>, [])"
    by (simp add: failed_transfer_def example_disk_file example_write(1) data full_ops_def image_ops_def img_seek_def img_write_all_def)
  show ?thesis
    using blk_failed_request_reports_ok [OF example_requests(1) refl, of "image_ops Map.empty" ?d None "[]" False]
      blk_failed_request_reports_ok [OF example_requests(1) refl full, of False] none
    by (auto simp: example_write(1) failed_transfer_def VIRTIO_BLK_S_OK_def mem_upd_def)
qed

end
