(* ===== verification/Ax_Block_Spec.thy ===== *)
theory Ax_Block_Spec
  imports Ax_Virtio_Ring
begin

text \<open>
  What the block device promises, without queues and memory: a disk that takes a list of requests,
  and the refinement between the two. A notification on a batch of requests does to the disk image
  what the abstract disk does, and leaves in the driver's buffers what the abstract disk delivers.
\<close>

section \<open>The abstract disk\<close>

datatype disk_request =
    Disk_Read nat nat
  | Disk_Write nat bytes

fun disk_step :: "disk_request \<Rightarrow> bytes \<Rightarrow> bytes \<times> bytes" where
  "disk_step (Disk_Read off n) disk = (disk, take n (drop off disk))"
| "disk_step (Disk_Write off bs) disk = (take off disk @ bs @ drop (off + length bs) disk, [])"

fun disk_run :: "disk_request list \<Rightarrow> bytes \<Rightarrow> bytes \<times> bytes list" where
  "disk_run [] disk = (disk, [])"
| "disk_run (r # rs) disk =
     (let (disk1, out) = disk_step r disk; (disk2, outs) = disk_run rs disk1 in (disk2, out # outs))"

text \<open>Requests within the disk, reads of a length that the host delivers in one call.\<close>

fun request_fits :: "nat \<Rightarrow> disk_request \<Rightarrow> bool" where
  "request_fits n (Disk_Read off len) \<longleftrightarrow> off + len \<le> n \<and> len \<le> MAX_RW_COUNT"
| "request_fits n (Disk_Write off bs) \<longleftrightarrow> off + length bs \<le> n"

lemma disk_step_length: "request_fits (length disk) r \<Longrightarrow> length (fst (disk_step r disk)) = length disk"
  by (cases r) auto

lemma disk_run_snoc:
  "disk_run (rs @ [r]) disk =
     (let (disk1, outs) = disk_run rs disk; (disk2, out) = disk_step r disk1 in (disk2, outs @ [out]))"
  by (induction rs arbitrary: disk) (auto simp: Let_def split: prod.splits)

lemma disk_run_length:
  "\<forall>r \<in> set rs. request_fits (length disk) r \<Longrightarrow> length (fst (disk_run rs disk)) = length disk"
proof (induction rs arbitrary: disk)
  case (Cons r rs)
  with Cons.IH [of "fst (disk_step r disk)"] disk_step_length [of disk r] show ?case
    by (auto simp: case_prod_beta Let_def)
qed simp

section \<open>Abstraction\<close>

definition abs_request :: "guest_memory \<Rightarrow> chain_vars \<Rightarrow> disk_request" where
  "abs_request m v =
     (if cv_is_write v
      then Disk_Write (unat (cv_sector v) * 512) (mem_get (gm_bytes m) (unat (cv_data_addr v)) (unat (cv_data_len v)))
      else Disk_Read (unat (cv_sector v) * 512) (unat (cv_data_len v)))"

definition read_back :: "guest_memory \<Rightarrow> chain_vars \<Rightarrow> bytes" where
  "read_back m v = (if cv_is_write v then []
     else mem_get (gm_bytes m) (unat (cv_data_addr v)) (unat (cv_data_len v)))"

definition status_byte :: "guest_memory \<Rightarrow> chain_vars \<Rightarrow> u8" where
  "status_byte m v = gm_bytes m (unat (cv_status_addr v))"

lemma buffer_reads_agree:
  assumes "agree_on (buffers v) m m'"
  shows "abs_request m' v = abs_request m v" and "read_back m' v = read_back m v"
    and "status_byte m' v = status_byte m v"
proof -
  have "mem_get (gm_bytes m') (unat (cv_data_addr v)) (unat (cv_data_len v)) =
      mem_get (gm_bytes m) (unat (cv_data_addr v)) (unat (cv_data_len v))"
    by (rule agree_on_get [OF assms]) (auto simp: buffers_def)
  with assms show "abs_request m' v = abs_request m v" and "read_back m' v = read_back m v"
    and "status_byte m' v = status_byte m v"
    by (simp_all add: abs_request_def read_back_def status_byte_def buffers_def agree_on_def)
qed

text \<open>One request: the image follows the abstract disk.\<close>

lemma request_refines:
  fixes d :: "image virtio_block"
  assumes "driver_request m t p" and "v = chain_request m t p" and "vb_disk d = Some f"
    and "request_fits (length (img_data f)) (abs_request m v)"
    and "unat (cv_status_addr v) \<notin> {unat (cv_data_addr v)..<unat (cv_data_addr v) + unat (cv_data_len v)}"
    and "process_descriptor_chain oc (image_ops fs) d m t (hd p) = Some (Done (d1, m1, w))"
  shows "\<exists>f1. vb_disk d1 = Some f1 \<and>
    disk_step (abs_request m v) (img_data f) = (img_data f1, read_back m1 v) \<and> status_byte m1 v = VIRTIO_BLK_S_OK"
proof -
  note dr = assms(1) [unfolded driver_request_def]
  let ?a = "unat (cv_data_addr v)" and ?n = "unat (cv_data_len v)" and ?s = "unat (cv_status_addr v)"
  have n: "0 < ?n" using dr assms(2) by (simp add: request_ok_def word_less_nat_alt)
  show ?thesis
  proof (cases "cv_is_write v")
    case True
    with request_write [of m t p v d f _ oc fs] dr assms(2-4,6) show ?thesis
      by (fastforce simp: abs_request_def read_back_def status_byte_def mem_upd_def)
  next
    case False
    let ?bs = "take ?n (drop (unat (cv_sector v) * 512) (img_data f))"
    have len: "length ?bs = ?n" and fit: "unat (cv_sector v) * 512 < length (img_data f)" and max: "?n \<le> MAX_RW_COUNT"
      using assms(4) False n by (auto simp: abs_request_def)
    obtain f1 where f1: "img_data f1 = img_data f" "vb_disk d1 = Some f1"
      "gm_bytes m1 = mem_upd (mem_upd (gm_bytes m) ?a ?bs) ?s [VIRTIO_BLK_S_OK]"
      using request_read [of m t p v d f ?bs oc fs] dr assms(2,3,6) False fit max by fastforce
    have "mem_get (gm_bytes m1) ?a ?n = mem_get (mem_upd (gm_bytes m) ?a ?bs) ?a (length ?bs)"
      unfolding f1(3) len using assms(5) by (subst mem_get_upd_disjoint) auto
    also have "\<dots> = ?bs" by (rule mem_get_upd_same [OF refl])
    finally show ?thesis
      using False f1 by (simp add: abs_request_def read_back_def status_byte_def mem_upd_def)
  qed
qed


section \<open>A batch\<close>

text \<open>The conditions on a batch that make its requests independent of each other.\<close>

definition separate_buffers :: "chain_vars list \<Rightarrow> bool" where
  "separate_buffers vs \<longleftrightarrow>
     (\<forall>v \<in> set vs. unat (cv_status_addr v) \<notin> {unat (cv_data_addr v)..<unat (cv_data_addr v) + unat (cv_data_len v)}) \<and>
     (\<forall>j < length vs. \<forall>k < length vs. j \<noteq> k \<longrightarrow> buffers (vs ! j) \<inter> buffers (vs ! k) = {})"

abbreviation batch_requests :: "'f virtio_block \<Rightarrow> guest_memory \<Rightarrow> u16 list list \<Rightarrow> chain_vars list" where
  "batch_requests d m ps \<equiv> map (chain_request m (vb_queue_desc d)) ps"

text \<open>The abstract disk has taken the first \<open>k\<close> requests; the buffers of the others are as they were.\<close>

definition disk_done ::
  "bytes \<Rightarrow> guest_memory \<Rightarrow> chain_vars list \<Rightarrow> nat \<Rightarrow> image queue_vars \<Rightarrow> bool" where
  "disk_done disk m vs k q \<longleftrightarrow>
     (\<exists>f. vb_disk (qv_dev q) = Some f \<and>
        disk_run (map (abs_request m) (take k vs)) disk = (img_data f, map (read_back (qv_mem q)) (take k vs))) \<and>
     (\<forall>j < k. status_byte (qv_mem q) (vs ! j) = VIRTIO_BLK_S_OK) \<and>
     (\<forall>j < length vs. k \<le> j \<longrightarrow> agree_on (buffers (vs ! j)) m (qv_mem q))"

lemma disk_done_extend:
  assumes D: "disk_done disk m vs k q" and k: "k < length vs" and f: "vb_disk (qv_dev q) = Some f"
    and f1: "vb_disk d1 = Some f1"
      "disk_step (abs_request m (vs ! k)) (img_data f) = (img_data f1, read_back m2 (vs ! k))"
      "status_byte m2 (vs ! k) = VIRTIO_BLK_S_OK"
    and other: "\<And>j. j < length vs \<Longrightarrow> j \<noteq> k \<Longrightarrow> agree_on (buffers (vs ! j)) (qv_mem q) m2"
  shows "disk_done disk m vs (Suc k) \<lparr>qv_last_idx = l, qv_work_done = w, qv_dev = d1, qv_mem = m2\<rparr>"
proof -
  have "map (read_back m2) (take k vs) = map (read_back (qv_mem q)) (take k vs)"
    using other buffer_reads_agree(2) k by (auto simp: in_set_conv_nth)
  with D k f f1(2) have run: "disk_run (map (abs_request m) (take (Suc k) vs)) disk =
      (img_data f1, map (read_back m2) (take (Suc k) vs))"
    by (auto simp: disk_done_def take_Suc_conv_app_nth disk_run_snoc)
  have status: "status_byte m2 (vs ! j) = VIRTIO_BLK_S_OK" if "j < Suc k" for j
  proof (cases "j = k")
    case False
    with that k buffer_reads_agree(3) [OF other [of j]] D show ?thesis by (simp add: disk_done_def)
  qed (simp add: f1(3))
  have rest: "agree_on (buffers (vs ! j)) m m2" if "j < length vs" "Suc k \<le> j" for j
    using D that other [of j] by (auto simp: disk_done_def intro: agree_on_trans)
  from run f1(1) status rest show ?thesis by (auto simp: disk_done_def)
qed

lemma disk_done_step:
  assumes b: "batch d m ps" and k: "k < length ps" and q: "batch_done d m ps k q"
    and vs: "vs = batch_requests d m ps" and sep: "separate_buffers vs"
    and fits: "\<forall>v \<in> set vs. request_fits (length disk) (abs_request m v)" and D: "disk_done disk m vs k q"
  shows "\<exists>q'. queue_step oc (image_ops fs) (q_size d) (vb_queue_desc d) (vb_queue_avail d) (vb_queue_used d)
      (avail_idx d m) q = Some (Done (Inl q')) \<and> disk_done disk m vs (Suc k) q'"
proof -
  let ?v = "vs ! k" and ?mem = "qv_mem q"
  have kv: "k < length vs" "?v = chain_request m (vb_queue_desc d) (ps ! k)" "?v \<in> set vs"
    using k vs by simp_all
  obtain f where f: "vb_disk (qv_dev q) = Some f"
    "disk_run (map (abs_request m) (take k vs)) disk = (img_data f, map (read_back ?mem) (take k vs))"
    using D by (auto simp: disk_done_def)
  have "length (img_data f) = length disk"
    using disk_run_length [of "map (abs_request m) (take k vs)" disk] fits f(2) in_set_takeD [of _ k vs] by auto
  moreover have abs: "abs_request ?mem ?v = abs_request m ?v"
    using D kv(1) by (intro buffer_reads_agree(1)) (simp add: disk_done_def)
  ultimately have fit: "request_fits (length (img_data f)) (abs_request ?mem ?v)" using fits kv by simp
  obtain d1 m1 w m2 where it: "driver_request ?mem (vb_queue_desc d) (ps ! k)"
      "chain_request ?mem (vb_queue_desc d) (ps ! k) = ?v"
      "process_descriptor_chain oc (image_ops fs) (qv_dev q) ?mem (vb_queue_desc d) (hd (ps ! k)) = Some (Done (d1, m1, w))"
      "agree_on (- buffers ?v) ?mem m1" "ring_ok d m1"
      "push_used oc m1 (vb_queue_used d) (q_size d) (hd (ps ! k)) w = Done m2"
    and step: "queue_step oc (image_ops fs) (q_size d) (vb_queue_desc d) (vb_queue_avail d) (vb_queue_used d)
      (avail_idx d m) q =
      Some (Done (Inl \<lparr>qv_last_idx = qv_last_idx q + 1, qv_work_done = True, qv_dev = d1, qv_mem = m2\<rparr>))"
    using batch_iteration [OF b img.fits k q, of oc] kv(2) by metis
  obtain f1 where f1: "vb_disk d1 = Some f1" "disk_step (abs_request m ?v) (img_data f) = (img_data f1, read_back m1 ?v)"
    "status_byte m1 ?v = VIRTIO_BLK_S_OK"
    using request_refines [OF it(1) it(2) [symmetric] f(1) fit _ it(3)] sep kv(3) abs
    by (auto simp: separate_buffers_def)
  have used: "agree_on (buffers v) m1 m2" if "v \<in> set vs" for v
    using push_used_agree [OF it(5,6)] by (rule agree_on_subset) (use batch_request(3) [OF b] that vs in auto)
  have other: "agree_on (buffers (vs ! j)) ?mem m2" if "j < length vs" "j \<noteq> k" for j
  proof (rule agree_on_trans)
    show "agree_on (buffers (vs ! j)) ?mem m1"
      using it(4) by (rule agree_on_subset) (use sep that kv(1) in \<open>auto simp: separate_buffers_def\<close>)
    show "agree_on (buffers (vs ! j)) m1 m2" using used that by simp
  qed
  note kept = buffer_reads_agree [OF used [OF kv(3)]]
  show ?thesis using step disk_done_extend [OF D kv(1) f(1) f1(1) _ _ other] f1(2,3) kept(2,3) by simp
qed


text \<open>
  The refinement in isolation: the notification returns, the image is what the abstract disk becomes, the
  delivered data is in the buffers of the read requests and every status byte says success.
\<close>

lemma batch_refines_disk:
  assumes "batch d m ps" and "vs = batch_requests d m ps" and "vb_disk d = Some f" and "separate_buffers vs"
    and "\<forall>v \<in> set vs. request_fits (length (img_data f)) (abs_request m v)"
  shows "\<exists>d' f' m'. process_queue oc (image_ops fs) d m = Some (Done (ps \<noteq> [], d', m')) \<and> vb_disk d' = Some f' \<and>
    disk_run (map (abs_request m) vs) (img_data f) = (img_data f', map (read_back m') vs) \<and>
    (\<forall>v \<in> set vs. status_byte m' v = VIRTIO_BLK_S_OK)"
proof -
  let ?body = "queue_step oc (image_ops fs) (q_size d) (vb_queue_desc d) (vb_queue_avail d) (vb_queue_used d) (avail_idx d m)"
  let ?q0 = "\<lparr>qv_last_idx = vb_last_avail_idx d, qv_work_done = False, qv_dev = d, qv_mem = m\<rparr>"
  let ?P = "\<lambda>k q. batch_done d m ps k q \<and> disk_done (img_data f) m vs k q"
  have n: "length ps = unat (avail_idx d m - vb_last_avail_idx d)" and ring: "ring_ok d m"
    using assms(1) by (simp_all add: batch_def pending_def)
  have leave: "?body q = Some (Done (Inr q))" if "?P (length ps) q" for q
    using that by (simp add: batch_done_def n queue_step_def)
  have step: "\<exists>q'. ?body q = Some (Done (Inl q')) \<and> ?P (Suc k) q'" if "k < length ps" "?P k q" for k q
    using batch_step [OF assms(1) img.fits that(1), of q oc fs]
      disk_done_step [OF assms(1) that(1) _ assms(2,4,5), of q oc fs] that(2) by fastforce
  have "?P 0 ?q0" using assms(3) by (simp add: batch_done_def disk_done_def)
  from exec_loop_counted [where P = ?P and body = ?body and r = "\<lambda>q. q", OF this step leave]
  obtain q where q: "exec_loop ?body ?q0 = Some (Done q)" "?P (length ps) q" by blast
  note r = process_queue_start [OF ring q(1)]
  obtain f' where f': "vb_disk (qv_dev q) = Some f'"
    "disk_run (map (abs_request m) vs) (img_data f) = (img_data f', map (read_back (qv_mem q)) vs)"
    "\<forall>v \<in> set vs. status_byte (qv_mem q) v = VIRTIO_BLK_S_OK"
    using q(2) assms(2) by (auto simp: disk_done_def all_set_conv_all_nth)
  have w: "qv_work_done q = (ps \<noteq> [])" using q(2) by (simp add: batch_done_def)
  show ?thesis
    using r f' by (cases "ps = []") (auto simp: Let_def w)
qed


text \<open>Two requests on a queue of eight entries: four bytes are written to sector 0 and read back.\<close>

definition two_mem :: guest_memory where
  "two_mem = \<lparr>gm_ptr = 4096, gm_len = 0x1000, gm_owned = True, gm_mapped = 0x1000,
     gm_bytes = mem_upd (mem_upd (mem_upd (mem_upd (\<lambda>_. 0)
       0x100 (encode_desc 0x200 16 1 1 @ encode_desc 0x300 4 1 2 @ encode_desc 0x400 1 2 0 @
              encode_desc 0x210 16 1 4 @ encode_desc 0x310 4 3 5 @ encode_desc 0x401 1 2 0))
       0x200 (to_le_bytes 4 (1 :: u32))) 0x300 [1, 2, 3, 4]) 0x502 [2, 0, 0, 0, 3, 0]\<rparr>"

definition two_disk :: "image virtio_block" where
  "two_disk = example_disk\<lparr>vb_queue_num := 8, vb_queue_ready := 1, vb_queue_desc := 0x100,
     vb_queue_avail := 0x500, vb_queue_used := 0x600\<rparr>"

lemma two_regs:
  "vb_queue_desc two_disk = 0x100" "vb_queue_avail two_disk = 0x500" "vb_queue_used two_disk = 0x600"
  "q_size two_disk = 8" "vb_queue_ready two_disk = 1" "vb_last_avail_idx two_disk = 0"
  "vb_disk two_disk = Some \<lparr>img_data = [9, 8, 7, 6, 5, 4], img_pos = 0\<rparr>"
  by (simp_all add: two_disk_def q_size_def example_disk_def vb_new_def image_ops_def img_open_def)

lemma two_shape [simp]: "gm_len two_mem = 0x1000" "gm_mapped two_mem = 0x1000"
  by (simp_all add: two_mem_def)

lemma two_entries:
  "desc_entry two_mem 0x100 0 = \<lparr>vd_addr = 0x200, vd_len = 16, vd_flags = 1, vd_next = 1\<rparr>"
  "desc_entry two_mem 0x100 1 = \<lparr>vd_addr = 0x300, vd_len = 4, vd_flags = 1, vd_next = 2\<rparr>"
  "desc_entry two_mem 0x100 2 = \<lparr>vd_addr = 0x400, vd_len = 1, vd_flags = 2, vd_next = 0\<rparr>"
  "desc_entry two_mem 0x100 3 = \<lparr>vd_addr = 0x210, vd_len = 16, vd_flags = 1, vd_next = 4\<rparr>"
  "desc_entry two_mem 0x100 4 = \<lparr>vd_addr = 0x310, vd_len = 4, vd_flags = 3, vd_next = 5\<rparr>"
  "desc_entry two_mem 0x100 5 = \<lparr>vd_addr = 0x401, vd_len = 1, vd_flags = 2, vd_next = 0\<rparr>"
  by (simp_all add: desc_entry_def two_mem_def mem_eval)

lemma two_headers:
  "mem_get (gm_bytes two_mem) 0x200 4 = to_le_bytes 4 (1 :: u32)"
  "mem_get (gm_bytes two_mem) 0x208 8 = replicate 8 0"
  "mem_get (gm_bytes two_mem) 0x210 4 = replicate 4 0" "mem_get (gm_bytes two_mem) 0x218 8 = replicate 8 0"
  by (simp_all only: two_mem_def guest_memory.simps, simp_all add: mem_eval mem_get_zero del: to_le_bytes.simps)

lemma two_ring:
  "mem_u16 two_mem 0x502 = 2" "mem_u16 two_mem 0x504 = 0" "mem_u16 two_mem 0x506 = 3"
  "mem_get (gm_bytes two_mem) 0x300 4 = [1, 2, 3, 4]"
  by (simp_all add: two_mem_def mem_u16_def mem_eval)

lemma two_requests:
  "chain_request two_mem 0x100 [0, 1, 2] =
     \<lparr>cv_next_idx = 2, cv_sector = 0, cv_is_write = True, cv_data_addr = 0x300, cv_data_len = 4,
      cv_status_addr = 0x400, cv_phase = 2\<rparr>"
  "chain_request two_mem 0x100 [3, 4, 5] =
     \<lparr>cv_next_idx = 5, cv_sector = 0, cv_is_write = False, cv_data_addr = 0x310, cv_data_len = 4,
      cv_status_addr = 0x401, cv_phase = 2\<rparr>"
  "chain_path two_mem 0x100 [0, 1, 2]" "hdr_in two_mem (desc_entry two_mem 0x100 0)"
  "chain_path two_mem 0x100 [3, 4, 5]" "hdr_in two_mem (desc_entry two_mem 0x100 3)"
  "vd_addr (desc_entry two_mem 0x100 0) = 0x200" "vd_addr (desc_entry two_mem 0x100 3) = 0x210"
  by (simp_all add: chain_request_def two_entries two_headers hdr_sector_def hdr_type_def VIRTIO_BLK_T_OUT_def from_le_zero
      desc_in_def gm_range_def has_next_def VRING_DESC_F_NEXT_def hdr_in_def)

lemma all_less_two: "(\<forall>k < Suc (Suc 0). P k) \<longleftrightarrow> P 0 \<and> P (Suc 0)"
  by (auto simp: less_Suc_eq)

lemma two_batch: "batch two_disk two_mem [[0, 1, 2], [3, 4, 5]]"
  by (simp add: batch_def ring_ok_def two_regs two_requests two_ring all_less_two
      gm_wf_def gm_range_def pending_def avail_idx_def avail_head_def avail_slot_def driver_request_def
      request_ok_def buffers_def driver_region_def used_region_def avail_region_def table_region_def
      header_region_def Int_Un_distrib Int_Un_distrib2 del: chain_path.simps)

lemma two_separate: "separate_buffers (batch_requests two_disk two_mem [[0, 1, 2], [3, 4, 5]])"
  by (simp add: separate_buffers_def two_regs two_requests two_ring buffers_def all_less_two)

end
