(* ===== verification/Ax_Tap.thy ===== *)
theory Ax_Tap
  imports Ax_Prelude
begin

text \<open>
  The TAP interface (\<open>src/axvm_core/src/tap.rs\<close>). Opening the device, the \<open>ioctl\<close> that names the
  interface, \<open>fcntl\<close> and the packet reads and writes are system calls, so they are a parameter (a
  record of functions over a type of handles). The name that the kernel answers with is kept as
  the bytes of its C string.

  The locale \<open>packet_tap\<close> is what the network device relies on: a read takes the oldest packet or none,
  and a write that succeeds puts the packet on the wire. It is interpreted on \<open>wire_ops\<close>, an interface
  with a list of packets to receive and a list of packets sent, and on \<open>choosy_ops\<close>, which refuses
  some of the packets.
\<close>

section \<open>Definitions\<close>

definition IFF_TAP :: u16 where "IFF_TAP = 0x0002"
definition IFF_NO_PI :: u16 where "IFF_NO_PI = 0x1000"
definition TUNSETIFF :: u64 where "TUNSETIFF = 0x400454ca"
definition O_NONBLOCK :: u32 where "O_NONBLOCK = 0x800"

record ifreq =
  ifr_name :: bytes
  ifr_flags :: u16
  ifr_pad :: bytes

record 'p tap_ops =
  to_open :: "string \<Rightarrow> 'p result"
  to_ioctl :: "'p \<Rightarrow> u64 \<Rightarrow> ifreq \<Rightarrow> int \<times> ifreq \<times> 'p"
  to_last_error :: "'p \<Rightarrow> string"
  to_getfl :: "'p \<Rightarrow> u32"
  to_setfl :: "'p \<Rightarrow> u32 \<Rightarrow> 'p"
  to_read :: "'p \<Rightarrow> nat \<Rightarrow> bytes result \<times> 'p"
  to_write :: "'p \<Rightarrow> bytes \<Rightarrow> nat result \<times> 'p"

record 'p tap_interface =
  ti_file :: 'p
  ti_name :: bytes

definition ifr_zeroed :: ifreq where
  "ifr_zeroed = \<lparr>ifr_name = replicate 16 0, ifr_flags = 0, ifr_pad = replicate 22 0\<rparr>"

text \<open>\<open>CStr::from_ptr\<close> on the start of the structure: the bytes up to the first zero byte.\<close>

definition c_str :: "ifreq \<Rightarrow> bytes exec" where
  "c_str r = (let bs = ifr_name r @ to_le_bytes 2 (ifr_flags r) @ ifr_pad r in
     if 0 \<in> set bs then Done (takeWhile (\<lambda>b. b \<noteq> 0) bs) else Abort Undefined_Behaviour)"

definition tap_request :: "bytes option \<Rightarrow> ifreq result" where
  "tap_request dev_name =
     (let ifr = ifr_zeroed\<lparr>ifr_flags := IFF_TAP OR IFF_NO_PI\<rparr> in
      case dev_name of None \<Rightarrow> Inr ifr
      | Some bs \<Rightarrow> if 15 < length bs then Inl ''Nome muito longo''
          else Inr (ifr\<lparr>ifr_name := bs @ drop (length bs) (ifr_name ifr)\<rparr>))"

definition tap_new :: "'p tap_ops \<Rightarrow> bytes option \<Rightarrow> 'p tap_interface result exec" where
  "tap_new T dev_name =
     (case to_open T ''/dev/net/tun'' of Inl e \<Rightarrow> Done (Inl e)
      | Inr f \<Rightarrow> (case tap_request dev_name of Inl e \<Rightarrow> Done (Inl e)
        | Inr ifr \<Rightarrow>
            (let (ret, ifr', f1) = to_ioctl T f TUNSETIFF ifr in
             if ret < 0 then Done (Inl (to_last_error T f1))
             else (let f2 = to_setfl T f1 (to_getfl T f1 OR O_NONBLOCK) in
                   exec_bind (c_str ifr') (\<lambda>name.
                     Done (Inr \<lparr>ti_file = f2, ti_name = name\<rparr>))))))"

definition tap_read :: "'p tap_ops \<Rightarrow> 'p tap_interface \<Rightarrow> nat \<Rightarrow> bytes result \<times> 'p tap_interface" where
  "tap_read T t n = (let (r, f) = to_read T (ti_file t) n in (r, t\<lparr>ti_file := f\<rparr>))"

definition tap_write :: "'p tap_ops \<Rightarrow> 'p tap_interface \<Rightarrow> bytes \<Rightarrow> nat result \<times> 'p tap_interface" where
  "tap_write T t bs = (let (r, f) = to_write T (ti_file t) bs in (r, t\<lparr>ti_file := f\<rparr>))"

section \<open>The contract\<close>

definition tap_reads_fit :: "'p tap_ops \<Rightarrow> bool" where
  "tap_reads_fit T \<longleftrightarrow> (\<forall>f n bs f'. to_read T f n = (Inr bs, f') \<longrightarrow> length bs \<le> n)"

lemma tap_reads_fitD: "tap_reads_fit T \<Longrightarrow> tap_read T t n = (Inr bs, t') \<Longrightarrow> length bs \<le> n"
  unfolding tap_reads_fit_def tap_read_def by (auto split: prod.splits)

text \<open>Sending a list of packets: whether one was accepted, and the interface afterwards.\<close>

fun send_all :: "'p tap_ops \<Rightarrow> 'p tap_interface \<Rightarrow> bytes list \<Rightarrow> bool \<times> 'p tap_interface" where
  "send_all T t [] = (False, t)"
| "send_all T t (p # ps) = (let (r, t1) = tap_write T t p; (b, t2) = send_all T t1 ps
     in ((case r of Inr _ \<Rightarrow> True | Inl _ \<Rightarrow> b), t2))"

lemma send_all_append:
  "send_all T t (ps @ qs) = (let (a, t1) = send_all T t ps; (b, t2) = send_all T t1 qs in (a \<or> b, t2))"
  by (induction ps arbitrary: t) (auto simp: Let_def split: prod.splits sum.splits)

text \<open>
  What the kernel documents of a TAP descriptor. A read that succeeds takes the packet that has waited
  longest and gives as much of it as the buffer holds, the rest of it being discarded; a read that fails
  takes nothing. A write that succeeds has put the packet on the wire, one that fails has not; either may
  happen at any time.
\<close>

locale packet_tap =
  fixes T :: "'p tap_ops"
    and sent :: "'p \<Rightarrow> bytes list"
    and waiting :: "'p \<Rightarrow> bytes list"
  assumes read_takes: "to_read T f n = (Inr bs, f') \<Longrightarrow>
      sent f' = sent f \<and> (\<exists>p. waiting f = p # waiting f' \<and> bs = take n p)"
    and read_fails: "to_read T f n = (Inl e, f') \<Longrightarrow> sent f' = sent f \<and> waiting f' = waiting f"
    and write_sends: "to_write T f p = (r, f') \<Longrightarrow> waiting f' = waiting f \<and>
      sent f' = (case r of Inr _ \<Rightarrow> sent f @ [p] | Inl _ \<Rightarrow> sent f)"
begin

lemma fits: "tap_reads_fit T"
  unfolding tap_reads_fit_def using read_takes by fastforce

end

section \<open>An interface as packet lists\<close>

record wire =
  w_rx :: "bytes list"
  w_tx :: "bytes list"

definition wire_read :: "wire \<Rightarrow> nat \<Rightarrow> bytes result \<times> wire" where
  "wire_read f n = (case w_rx f of
     [] \<Rightarrow> (Inl ''Resource temporarily unavailable (os error 11)'', f)
   | p # ps \<Rightarrow> (Inr (take n p), f\<lparr>w_rx := ps\<rparr>))"

definition wire_write :: "wire \<Rightarrow> bytes \<Rightarrow> nat result \<times> wire" where
  "wire_write f p = (Inr (length p), f\<lparr>w_tx := w_tx f @ [p]\<rparr>)"

definition wire_ops :: "bytes list \<Rightarrow> wire tap_ops" where
  "wire_ops ps = \<lparr>to_open = (\<lambda>_. Inr \<lparr>w_rx = ps, w_tx = []\<rparr>),
     to_ioctl = (\<lambda>f _ r. (0, r, f)), to_last_error = (\<lambda>_. ''''),
     to_getfl = (\<lambda>_. 2), to_setfl = (\<lambda>f _. f), to_read = wire_read, to_write = wire_write\<rparr>"

interpretation wire: packet_tap "wire_ops ps" w_tx w_rx
  for ps :: "bytes list"
  by unfold_locales
    (auto simp: wire_ops_def wire_read_def wire_write_def split: list.splits)

text \<open>The same interface when it refuses some of the packets that are written to it.\<close>

definition choosy_ops :: "(bytes \<Rightarrow> bool) \<Rightarrow> bytes list \<Rightarrow> wire tap_ops" where
  "choosy_ops ok ps = (wire_ops ps)\<lparr>to_write :=
     (\<lambda>f p. if ok p then wire_write f p else (Inl ''Input/output error (os error 5)'', f))\<rparr>"

interpretation choosy: packet_tap "choosy_ops ok ps" w_tx w_rx
  for ok :: "bytes \<Rightarrow> bool" and ps :: "bytes list"
  by unfold_locales
    (auto simp: choosy_ops_def wire_ops_def wire_read_def wire_write_def split: list.splits if_splits)

section \<open>Naming the interface\<close>

lemma tap_request_name:
  assumes "length name \<le> 15" and "0 \<notin> set name"
  shows "tap_request (Some name) = Inr \<lparr>ifr_name = name @ replicate (16 - length name) 0,
      ifr_flags = 0x1002, ifr_pad = replicate 22 0\<rparr>"
  using assms by (simp add: tap_request_def ifr_zeroed_def IFF_TAP_def IFF_NO_PI_def)

lemma c_str_name:
  assumes "length name \<le> 15" and "0 \<notin> set name"
  shows "c_str \<lparr>ifr_name = name @ replicate (16 - length name) 0, ifr_flags = g, ifr_pad = p\<rparr> = Done name"
proof -
  have "replicate (16 - length name) (0 :: u8) = 0 # replicate (15 - length name) 0"
    using assms(1) by (simp flip: replicate_Suc add: Suc_diff_le)
  moreover have "takeWhile (\<lambda>b. b \<noteq> 0) (name @ 0 # xs) = name" for xs
    using assms(2) by (induction name) auto
  ultimately show ?thesis by (simp add: c_str_def)
qed

text \<open>
  Creating the interface. The one system call that names it is made with the TAP flags and the
  requested name, padded with zero bytes inside the 16-byte field; if the kernel accepts it as it is,
  the name the caller sees is the requested one and the descriptor has been put into non-blocking
  mode; a name of more than 15 bytes is refused before any \<open>ioctl\<close>.
\<close>

theorem tap_new_named:
  assumes "to_open T ''/dev/net/tun'' = Inr f" and "0 \<notin> set name"
    and "\<And>r. to_ioctl T f TUNSETIFF r = (0, r, g)"
  shows "tap_new T (Some name) =
    (if 15 < length name then Done (Inl ''Nome muito longo'')
     else Done (Inr \<lparr>ti_file = to_setfl T g (to_getfl T g OR O_NONBLOCK), ti_name = name\<rparr>))"
proof (cases "15 < length name")
  case True
  with assms(1) show ?thesis by (simp add: tap_new_def tap_request_def)
next
  case False
  then have n: "length name \<le> 15" by simp
  from False show ?thesis
    by (simp add: tap_new_def assms(1,3) tap_request_name [OF n assms(2)] c_str_name [OF n assms(2)] Let_def)
qed

theorem tap_new_named_witness:
  "tap_new (wire_ops []) (Some (bytes_of_string ''axvm-tap0'')) =
     Done (Inr \<lparr>ti_file = \<lparr>w_rx = [], w_tx = []\<rparr>, ti_name = bytes_of_string ''axvm-tap0''\<rparr>)"
  by (subst tap_new_named [where f = "\<lparr>w_rx = [], w_tx = []\<rparr>" and g = "\<lparr>w_rx = [], w_tx = []\<rparr>"])
    (simp_all add: wire_ops_def bytes_of_string_def)

end
