(* ===== verification/Ax_Virtio_Net.thy ===== *)
theory Ax_Virtio_Net
  imports Ax_Virtio_Ring Ax_Tap
begin

text \<open>
  The VirtIO network device (\<open>src/axvm_core/src/virtio_net.rs\<close>): two virtqueues, the register file
  with its read and write handlers and reset, and the two data paths, which the vCPU loop polls.
  The data paths work on the guest memory as a byte slice: an index out of the slice panics, a
  raw pointer access out of it or to a misaligned address is \<open>Undefined_Behaviour\<close>. The transmit
  loop has no bound in the code and is an \<open>exec_loop\<close>.
\<close>

section \<open>Constants\<close>

definition MMIO_MAGIC_VALUE :: u64 where "MMIO_MAGIC_VALUE = 0x000"
definition MMIO_VERSION :: u64 where "MMIO_VERSION = 0x004"
definition MMIO_DEVICE_ID :: u64 where "MMIO_DEVICE_ID = 0x008"
definition MMIO_VENDOR_ID :: u64 where "MMIO_VENDOR_ID = 0x00c"
definition MMIO_DEVICE_FEATURES :: u64 where "MMIO_DEVICE_FEATURES = 0x010"
definition MMIO_DEVICE_FEATURES_SEL :: u64 where "MMIO_DEVICE_FEATURES_SEL = 0x014"
definition MMIO_DRIVER_FEATURES :: u64 where "MMIO_DRIVER_FEATURES = 0x020"
definition MMIO_DRIVER_FEATURES_SEL :: u64 where "MMIO_DRIVER_FEATURES_SEL = 0x024"
definition MMIO_QUEUE_SEL :: u64 where "MMIO_QUEUE_SEL = 0x030"
definition MMIO_QUEUE_NUM_MAX :: u64 where "MMIO_QUEUE_NUM_MAX = 0x034"
definition MMIO_QUEUE_NUM :: u64 where "MMIO_QUEUE_NUM = 0x038"
definition MMIO_QUEUE_READY :: u64 where "MMIO_QUEUE_READY = 0x044"
definition MMIO_INTERRUPT_STATUS :: u64 where "MMIO_INTERRUPT_STATUS = 0x060"
definition MMIO_INTERRUPT_ACK :: u64 where "MMIO_INTERRUPT_ACK = 0x064"
definition MMIO_STATUS :: u64 where "MMIO_STATUS = 0x070"
definition MMIO_QUEUE_DESC_LOW :: u64 where "MMIO_QUEUE_DESC_LOW = 0x080"
definition MMIO_QUEUE_DESC_HIGH :: u64 where "MMIO_QUEUE_DESC_HIGH = 0x084"
definition MMIO_QUEUE_AVAIL_LOW :: u64 where "MMIO_QUEUE_AVAIL_LOW = 0x090"
definition MMIO_QUEUE_AVAIL_HIGH :: u64 where "MMIO_QUEUE_AVAIL_HIGH = 0x094"
definition MMIO_QUEUE_USED_LOW :: u64 where "MMIO_QUEUE_USED_LOW = 0x0a0"
definition MMIO_QUEUE_USED_HIGH :: u64 where "MMIO_QUEUE_USED_HIGH = 0x0a4"
definition MMIO_CONFIG_SPACE :: u64 where "MMIO_CONFIG_SPACE = 0x100"
definition VIRTIO_NET_F_MAC :: u64 where "VIRTIO_NET_F_MAC = push_bit 5 1"

lemmas net_regs =
  MMIO_MAGIC_VALUE_def MMIO_VERSION_def MMIO_DEVICE_ID_def MMIO_VENDOR_ID_def
  MMIO_DEVICE_FEATURES_def MMIO_DEVICE_FEATURES_SEL_def MMIO_DRIVER_FEATURES_def
  MMIO_DRIVER_FEATURES_SEL_def MMIO_QUEUE_SEL_def MMIO_QUEUE_NUM_MAX_def MMIO_QUEUE_NUM_def
  MMIO_QUEUE_READY_def MMIO_INTERRUPT_STATUS_def MMIO_INTERRUPT_ACK_def MMIO_STATUS_def
  MMIO_QUEUE_DESC_LOW_def MMIO_QUEUE_DESC_HIGH_def MMIO_QUEUE_AVAIL_LOW_def
  MMIO_QUEUE_AVAIL_HIGH_def MMIO_QUEUE_USED_LOW_def MMIO_QUEUE_USED_HIGH_def MMIO_CONFIG_SPACE_def

text \<open>The size of the packed \<open>VirtioNetHdr\<close>: two bytes and five 16-bit fields.\<close>

definition NET_HDR_LEN :: nat where "NET_HDR_LEN = 12"

section \<open>The virtqueue\<close>

record virt_queue =
  vq_desc_addr :: u64
  vq_avail_addr :: u64
  vq_used_addr :: u64
  vq_queue_size :: u16
  vq_ready :: bool
  vq_last_avail_idx :: u16

definition vq_new :: virt_queue where
  "vq_new = \<lparr>vq_desc_addr = 0, vq_avail_addr = 0, vq_used_addr = 0, vq_queue_size = 0,
     vq_ready = False, vq_last_avail_idx = 0\<rparr>"

text \<open>The slice \<open>mem[a..b]\<close> and a store through a raw pointer into the slice.\<close>

definition slice_range :: "guest_memory \<Rightarrow> usize \<Rightarrow> usize \<Rightarrow> bytes exec" where
  "slice_range m a b = (if b < a \<or> gm_len m < b then Abort Slice_Index
     else Done (mem_get (gm_bytes m) (unat a) (unat b - unat a)))"

definition raw_store :: "guest_memory \<Rightarrow> usize \<Rightarrow> bytes \<Rightarrow> guest_memory exec" where
  "raw_store m a bs = (if unat a + length bs \<le> unat (gm_len m)
     then Done (m\<lparr>gm_bytes := mem_upd (gm_bytes m) (unat a) bs\<rparr>)
     else Abort Undefined_Behaviour)"

text \<open>A store through a \<open>*mut u16\<close>, which must be aligned on the host.\<close>

definition raw_store_u16 :: "guest_memory \<Rightarrow> usize \<Rightarrow> u16 \<Rightarrow> guest_memory exec" where
  "raw_store_u16 m a v = (if even (unat (gm_ptr m) + unat a) then raw_store m a (to_le_bytes 2 v)
     else Abort Undefined_Behaviour)"

definition available_idx :: "bool \<Rightarrow> virt_queue \<Rightarrow> guest_memory \<Rightarrow> u16 exec" where
  "available_idx oc q m =
     exec_bind (uadd oc (vq_avail_addr q) 2) (\<lambda>idx_addr.
     exec_bind (uadd oc idx_addr 2) (\<lambda>fin.
       if gm_len m < fin then Done 0
       else exec_bind (slice_range m idx_addr fin) (\<lambda>b. Done (from_le_bytes [b ! 0, b ! 1]))))"

definition get_avail_desc_idx :: "bool \<Rightarrow> virt_queue \<Rightarrow> guest_memory \<Rightarrow> u16 option exec" where
  "get_avail_desc_idx oc q m =
     exec_bind (available_idx oc q m) (\<lambda>guest_idx.
       if vq_last_avail_idx q = guest_idx then Done None else
       exec_bind (urem (vq_last_avail_idx q) (vq_queue_size q)) (\<lambda>i.
       exec_bind (uadd oc (vq_avail_addr q) (4 + ucast i * 2)) (\<lambda>addr.
       exec_bind (uadd oc addr 2) (\<lambda>fin.
         if gm_len m < fin then Done None
         else exec_bind (slice_range m addr fin) (\<lambda>b.
           Done (Some (from_le_bytes [b ! 0, b ! 1])))))))"

definition read_desc :: "bool \<Rightarrow> virt_queue \<Rightarrow> guest_memory \<Rightarrow> u16 \<Rightarrow> vring_desc option exec" where
  "read_desc oc q m idx =
     exec_bind (uadd oc (vq_desc_addr q) (ucast idx * 16)) (\<lambda>offset.
     exec_bind (uadd oc offset 16) (\<lambda>fin.
       if gm_len m < fin then Done None
       else exec_bind (slice_range m offset fin) (\<lambda>b. Done (Some (decode_desc b)))))"

definition add_used ::
  "bool \<Rightarrow> virt_queue \<Rightarrow> guest_memory \<Rightarrow> u16 \<Rightarrow> u32 \<Rightarrow> (virt_queue \<times> guest_memory) exec" where
  "add_used oc q m desc_idx len =
     exec_bind (urem (vq_last_avail_idx q) (vq_queue_size q)) (\<lambda>i.
     exec_bind (uadd oc (vq_used_addr q) (4 + ucast i * 8)) (\<lambda>addr.
     exec_bind (uadd oc addr 8) (\<lambda>fin.
       if gm_len m < fin then Done (q, m) else
       exec_bind (raw_store m addr (to_le_bytes 4 (ucast desc_idx :: u32) @ to_le_bytes 4 len)) (\<lambda>m1.
       let q' = q\<lparr>vq_last_avail_idx := vq_last_avail_idx q + 1\<rparr> in
       exec_bind (uadd oc (vq_used_addr q) 2) (\<lambda>idx_addr.
       exec_bind (uadd oc idx_addr 2) (\<lambda>fin'.
         if fin' \<le> gm_len m
         then exec_bind (raw_store_u16 m1 idx_addr (vq_last_avail_idx q')) (\<lambda>m2. Done (q', m2))
         else Done (q', m1)))))))"

section \<open>The device\<close>

record 'p virtio_net =
  vn_tap :: "'p tap_interface option"
  vn_mac :: bytes
  vn_status :: u32
  vn_driver_features_sel :: u32
  vn_device_features_sel :: u32
  vn_driver_features :: u64
  vn_queue_sel :: u32
  vn_queues :: "virt_queue list"
  vn_interrupt_status :: u32

definition vn_new :: "'p tap_interface option \<Rightarrow> 'p virtio_net" where
  "vn_new tap = \<lparr>vn_tap = tap, vn_mac = [0x52, 0x54, 0x00, 0x12, 0x34, 0x56],
     vn_status = 0, vn_driver_features_sel = 0, vn_device_features_sel = 0, vn_driver_features = 0,
     vn_queue_sel = 0, vn_queues = [vq_new, vq_new], vn_interrupt_status = 0\<rparr>"

text \<open>The value of a register, for a read into a buffer of \<open>n\<close> bytes.\<close>

definition vn_reg :: "'p virtio_net \<Rightarrow> u64 \<Rightarrow> nat \<Rightarrow> u64" where
  "vn_reg d offset n =
     (if offset = MMIO_MAGIC_VALUE then 0x74726976
      else if offset = MMIO_VERSION then 2
      else if offset = MMIO_DEVICE_ID then 1
      else if offset = MMIO_VENDOR_ID then 0x1AF4
      else if offset = MMIO_DEVICE_FEATURES then
        (let sel = vn_device_features_sel d in
         if sel = 0 then VIRTIO_NET_F_MAC OR (VIRTIO_F_VERSION_1 AND 0xFFFFFFFF)
         else if sel = 1 then drop_bit 32 VIRTIO_F_VERSION_1
         else 0)
      else if offset = MMIO_QUEUE_NUM_MAX then 256
      else if offset = MMIO_QUEUE_READY then
        (let sel = vn_queue_sel d in
         if unat sel < 2 then (if vq_ready (vn_queues d ! unat sel) then 1 else 0) else 0)
      else if offset = MMIO_INTERRUPT_STATUS then ucast (vn_interrupt_status d)
      else if offset = MMIO_STATUS then ucast (vn_status d)
      else if MMIO_CONFIG_SPACE \<le> offset \<and> offset < MMIO_CONFIG_SPACE + 6 then
        (let idx = unat (offset - MMIO_CONFIG_SPACE) in
         fold (\<lambda>i val. val OR push_bit (i * 8) (ucast (vn_mac d ! (idx + i)))) [0..<min n (6 - idx)] 0)
      else 0)"

definition vn_read :: "'p virtio_net \<Rightarrow> u64 \<Rightarrow> bytes \<Rightarrow> bytes" where
  "vn_read d offset data =
     (let bs = to_le_bytes 8 (vn_reg d offset (length data)); n = min (length data) 8
      in take n bs @ drop n data)"

text \<open>An update of the selected queue, if the selector names one.\<close>

definition vn_upd_queue :: "'p virtio_net \<Rightarrow> (virt_queue \<Rightarrow> virt_queue) \<Rightarrow> 'p virtio_net" where
  "vn_upd_queue d f = (let sel = unat (vn_queue_sel d) in
     if sel < 2 then d\<lparr>vn_queues := (vn_queues d)[sel := f (vn_queues d ! sel)]\<rparr> else d)"

definition vn_reset :: "'p virtio_net \<Rightarrow> 'p virtio_net" where
  "vn_reset d = d\<lparr>vn_status := 0, vn_queues := (vn_queues d)[0 := vq_new, 1 := vq_new],
     vn_queue_sel := 0\<rparr>"

definition vn_set_reg :: "'p virtio_net \<Rightarrow> u64 \<Rightarrow> u32 \<Rightarrow> 'p virtio_net" where
  "vn_set_reg d offset val =
     (if offset = MMIO_DEVICE_FEATURES_SEL then d\<lparr>vn_device_features_sel := val\<rparr>
      else if offset = MMIO_DRIVER_FEATURES_SEL then d\<lparr>vn_driver_features_sel := val\<rparr>
      else if offset = MMIO_DRIVER_FEATURES then
        (if vn_driver_features_sel d = 0
         then d\<lparr>vn_driver_features := set_low (vn_driver_features d) val\<rparr>
         else d\<lparr>vn_driver_features := set_high (vn_driver_features d) val\<rparr>)
      else if offset = MMIO_QUEUE_SEL then d\<lparr>vn_queue_sel := val\<rparr>
      else if offset = MMIO_QUEUE_NUM then
        vn_upd_queue d (\<lambda>q. q\<lparr>vq_queue_size := ucast val\<rparr>)
      else if offset = MMIO_QUEUE_READY then
        vn_upd_queue d (\<lambda>q. q\<lparr>vq_ready := (val AND 1 = 1)\<rparr>)
      else if offset = MMIO_QUEUE_DESC_LOW then
        vn_upd_queue d (\<lambda>q. q\<lparr>vq_desc_addr := set_low (vq_desc_addr q) val\<rparr>)
      else if offset = MMIO_QUEUE_DESC_HIGH then
        vn_upd_queue d (\<lambda>q. q\<lparr>vq_desc_addr := set_high (vq_desc_addr q) val\<rparr>)
      else if offset = MMIO_QUEUE_AVAIL_LOW then
        vn_upd_queue d (\<lambda>q. q\<lparr>vq_avail_addr := set_low (vq_avail_addr q) val\<rparr>)
      else if offset = MMIO_QUEUE_AVAIL_HIGH then
        vn_upd_queue d (\<lambda>q. q\<lparr>vq_avail_addr := set_high (vq_avail_addr q) val\<rparr>)
      else if offset = MMIO_QUEUE_USED_LOW then
        vn_upd_queue d (\<lambda>q. q\<lparr>vq_used_addr := set_low (vq_used_addr q) val\<rparr>)
      else if offset = MMIO_QUEUE_USED_HIGH then
        vn_upd_queue d (\<lambda>q. q\<lparr>vq_used_addr := set_high (vq_used_addr q) val\<rparr>)
      else if offset = MMIO_STATUS then
        (let d' = d\<lparr>vn_status := val\<rparr> in if val = 0 then vn_reset d' else d')
      else if offset = MMIO_INTERRUPT_ACK then
        d\<lparr>vn_interrupt_status := vn_interrupt_status d AND NOT val\<rparr>
      else d)"

definition vn_write :: "'p virtio_net \<Rightarrow> u64 \<Rightarrow> bytes \<Rightarrow> bool result \<times> 'p virtio_net" where
  "vn_write d offset data =
     (if length data = 1 then (Inr False, vn_set_reg d offset (ucast (data ! 0)))
      else if length data = 2 then
        (Inr False, vn_set_reg d offset (ucast (from_le_bytes data :: u16)))
      else if length data = 4 then (Inr False, vn_set_reg d offset (from_le_bytes data))
      else (Inl (''Invalid write size: '' @ show_dec (length data)), d))"

definition should_interrupt :: "'p virtio_net \<Rightarrow> bool" where
  "should_interrupt d \<longleftrightarrow> vn_interrupt_status d \<noteq> 0"

section \<open>Receiving\<close>

text \<open>
  The copy of a received packet into the buffer of a descriptor: \<open>None\<close> where the source gives up.
\<close>

definition rx_copy :: "bool \<Rightarrow> guest_memory \<Rightarrow> vring_desc \<Rightarrow> bytes \<Rightarrow> guest_memory option exec" where
  "rx_copy oc m e packet =
     (let n = length packet in
      if vd_len e < of_nat (n + NET_HDR_LEN) then Done None else
      exec_bind (uadd oc (vd_addr e) (of_nat NET_HDR_LEN)) (\<lambda>a.
      exec_bind (uadd oc a (of_nat n)) (\<lambda>fin.
        if gm_len m < fin then Done None else
        exec_bind (raw_store m (vd_addr e) (replicate NET_HDR_LEN 0 @ packet)) (\<lambda>m'. Done (Some m')))))"

definition process_rx ::
  "bool \<Rightarrow> 'p tap_ops \<Rightarrow> 'p virtio_net \<Rightarrow> guest_memory \<Rightarrow> (bool \<times> 'p virtio_net \<times> guest_memory) exec" where
  "process_rx oc T d m =
     (case vn_tap d of None \<Rightarrow> Done (False, d, m)
      | Some tap \<Rightarrow>
          (let q = vn_queues d ! 0 in
           if \<not> vq_ready q then Done (False, d, m) else
           exec_bind (get_avail_desc_idx oc q m) (\<lambda>o1. case o1 of None \<Rightarrow> Done (False, d, m)
           | Some desc_idx \<Rightarrow>
               exec_bind (read_desc oc q m desc_idx) (\<lambda>o2. case o2 of None \<Rightarrow> Done (False, d, m)
               | Some e \<Rightarrow>
                   (let (r, tap') = tap_read T tap 1514; d' = d\<lparr>vn_tap := Some tap'\<rparr> in
                    case r of Inl _ \<Rightarrow> Done (False, d', m)
                    | Inr packet \<Rightarrow>
                        if packet = [] then Done (False, d', m) else
                        exec_bind (rx_copy oc m e packet) (\<lambda>o3. case o3 of None \<Rightarrow> Done (False, d', m)
                        | Some m1 \<Rightarrow>
                            exec_bind (add_used oc q m1 desc_idx (of_nat (length packet + NET_HDR_LEN)))
                              (\<lambda>(q', m2). Done (True,
                                 d'\<lparr>vn_queues := (vn_queues d')[0 := q'],
                                    vn_interrupt_status := vn_interrupt_status d' OR 1\<rparr>, m2))))))))"

section \<open>Transmitting\<close>

record 'p tx_vars =
  tv_queue :: virt_queue
  tv_tap :: "'p tap_interface"
  tv_mem :: guest_memory
  tv_irq :: u32
  tv_work :: bool

text \<open>Sending the packet of one descriptor, if it has one: whether it went out, and the interface.\<close>

definition tx_send ::
  "bool \<Rightarrow> 'p tap_ops \<Rightarrow> 'p tap_interface \<Rightarrow> guest_memory \<Rightarrow> vring_desc \<Rightarrow> (bool \<times> 'p tap_interface) exec" where
  "tx_send oc T tap m e =
     (let desc_len = ucast (vd_len e) :: usize in
      if NET_HDR_LEN < unat desc_len then
        exec_bind (uadd oc (vd_addr e) desc_len) (\<lambda>fin.
          if fin \<le> gm_len m then
            exec_bind (uadd oc (vd_addr e) (of_nat NET_HDR_LEN)) (\<lambda>start.
            exec_bind (slice_range m start fin) (\<lambda>packet_slice.
              let (r, tap') = tap_write T tap packet_slice in
              Done (case r of Inr _ \<Rightarrow> True | Inl _ \<Rightarrow> False, tap')))
          else Done (False, tap))
      else Done (False, tap))"

definition tx_step :: "bool \<Rightarrow> 'p tap_ops \<Rightarrow> 'p tx_vars \<Rightarrow> ('p tx_vars + 'p tx_vars) exec" where
  "tx_step oc T v =
     exec_bind (get_avail_desc_idx oc (tv_queue v) (tv_mem v)) (\<lambda>o1. case o1 of None \<Rightarrow> Done (Inr v)
     | Some desc_idx \<Rightarrow>
         exec_bind (read_desc oc (tv_queue v) (tv_mem v) desc_idx) (\<lambda>o2. case o2 of None \<Rightarrow> Done (Inr v)
         | Some e \<Rightarrow>
             exec_bind (tx_send oc T (tv_tap v) (tv_mem v) e) (\<lambda>(ok, tap').
             exec_bind (add_used oc (tv_queue v) (tv_mem v) desc_idx 0) (\<lambda>(q', m').
               Done (Inl \<lparr>tv_queue = q', tv_tap = tap', tv_mem = m', tv_irq = tv_irq v OR 1,
                          tv_work = (tv_work v \<or> ok)\<rparr>)))))"

definition process_tx ::
  "bool \<Rightarrow> 'p tap_ops \<Rightarrow> 'p virtio_net \<Rightarrow> guest_memory \<Rightarrow> (bool \<times> 'p virtio_net \<times> guest_memory) run" where
  "process_tx oc T d m =
     (case vn_tap d of None \<Rightarrow> Some (Done (False, d, m))
      | Some tap \<Rightarrow>
          (let q = vn_queues d ! 1 in
           if \<not> vq_ready q then Some (Done (False, d, m)) else
           run_bind (exec_loop (\<lambda>v. Some (tx_step oc T v))
               \<lparr>tv_queue = q, tv_tap = tap, tv_mem = m, tv_irq = vn_interrupt_status d, tv_work = False\<rparr>)
             (\<lambda>v. Some (Done (tv_work v,
                d\<lparr>vn_tap := Some (tv_tap v), vn_queues := (vn_queues d)[1 := tv_queue v],
                  vn_interrupt_status := tv_irq v\<rparr>, tv_mem v)))))"

end
