(* ===== verification/Ax_Net_Queue.thy ===== *)
theory Ax_Net_Queue
  imports Ax_Virtio_Net
begin

text \<open>
  What the network device of \<open>Ax_Virtio_Net\<close> guarantees: the register file and its reset, the
  virtqueue operations on rings that lie in guest memory, reception of a packet, transmission of
  everything the driver has queued, memory safety, and the two ways in which a guest can stop the
  thread that polls the device.
\<close>

section \<open>Slices and stores in range\<close>

lemma slice_range_ok:
  assumes "gm_range m a n" and "b = a + of_nat n"
  shows "slice_range m a b = Done (mem_get (gm_bytes m) (unat a) n)" and "\<not> gm_len m < b"
proof -
  have n: "unat (of_nat n :: usize) = n" using gm_range_lt [OF assms(1)] by (intro unat_of_nat_small) simp
  have b: "unat b = unat a + n"
    using gm_range_lt [OF assms(1)] n assms(2) by (subst assms(2)) (simp add: unat_plus_no_overflow)
  with assms(1) show "slice_range m a b = Done (mem_get (gm_bytes m) (unat a) n)" and "\<not> gm_len m < b"
    by (simp_all add: slice_range_def word_less_nat_alt gm_range_def)
qed

lemma raw_store_ok:
  "gm_range m a (length bs) \<Longrightarrow> raw_store m a bs = Done (m\<lparr>gm_bytes := mem_upd (gm_bytes m) (unat a) bs\<rparr>)"
  by (simp add: raw_store_def gm_range_def)

section \<open>The virtqueue on rings in memory\<close>

definition vq_ok :: "virt_queue \<Rightarrow> guest_memory \<Rightarrow> bool" where
  "vq_ok q m \<longleftrightarrow> vq_queue_size q \<noteq> 0 \<and> gm_range m (vq_avail_addr q) (4 + 2 * unat (vq_queue_size q)) \<and>
     gm_range m (vq_used_addr q) (4 + 8 * unat (vq_queue_size q)) \<and>
     gm_range m (vq_desc_addr q) (16 * unat (vq_queue_size q)) \<and>
     even (unat (gm_ptr m) + unat (vq_used_addr q))"

definition vq_avail_idx :: "virt_queue \<Rightarrow> guest_memory \<Rightarrow> u16" where
  "vq_avail_idx q m = mem_u16 m (unat (vq_avail_addr q) + 2)"

definition vq_head :: "virt_queue \<Rightarrow> guest_memory \<Rightarrow> u16 \<Rightarrow> u16" where
  "vq_head q m i = mem_u16 m (unat (vq_avail_addr q) + (4 + 2 * unat (i mod vq_queue_size q)))"

definition vq_desc :: "virt_queue \<Rightarrow> guest_memory \<Rightarrow> u16 \<Rightarrow> vring_desc" where
  "vq_desc q m i = desc_entry m (vq_desc_addr q) i"

definition vq_used_slot :: "virt_queue \<Rightarrow> u16 \<Rightarrow> nat" where
  "vq_used_slot q i = unat (vq_used_addr q) + (4 + 8 * unat (i mod vq_queue_size q))"

definition vq_used_idx :: "virt_queue \<Rightarrow> guest_memory \<Rightarrow> u16" where
  "vq_used_idx q m = mem_u16 m (unat (vq_used_addr q) + 2)"

definition vq_used_id :: "virt_queue \<Rightarrow> guest_memory \<Rightarrow> u16 \<Rightarrow> u32" where
  "vq_used_id q m i = from_le_bytes (mem_get (gm_bytes m) (vq_used_slot q i) 4)"

definition vq_used_len :: "virt_queue \<Rightarrow> guest_memory \<Rightarrow> u16 \<Rightarrow> u32" where
  "vq_used_len q m i = from_le_bytes (mem_get (gm_bytes m) (vq_used_slot q i + 4) 4)"

definition vq_used_region :: "virt_queue \<Rightarrow> nat set" where
  "vq_used_region q = {unat (vq_used_addr q)..<unat (vq_used_addr q) + (4 + 8 * unat (vq_queue_size q))}"

definition vq_driver_region :: "virt_queue \<Rightarrow> nat set" where
  "vq_driver_region q =
     {unat (vq_avail_addr q)..<unat (vq_avail_addr q) + (4 + 2 * unat (vq_queue_size q))} \<union>
     {unat (vq_desc_addr q)..<unat (vq_desc_addr q) + 16 * unat (vq_queue_size q)}"

definition vq_table_region :: "virt_queue \<Rightarrow> nat set" where
  "vq_table_region q = {unat (vq_desc_addr q)..<unat (vq_desc_addr q) + 16 * unat (vq_queue_size q)}"

lemma vq_table_driver: "vq_table_region q \<subseteq> vq_driver_region q"
  by (auto simp: vq_table_region_def vq_driver_region_def)

lemma vq_mod_less: "vq_ok q m \<Longrightarrow> unat (i mod vq_queue_size q) < unat (vq_queue_size q)"
  by (simp add: vq_ok_def unat_mod unat_gt_0)

lemma vq_ranges:
  assumes "vq_ok q m"
  shows "gm_range m (vq_avail_addr q) ((4 + 2 * unat (i mod vq_queue_size q)) + 2)"
    and "gm_range m (vq_used_addr q) ((4 + 8 * unat (i mod vq_queue_size q)) + 8)"
    and "gm_range m (vq_avail_addr q) (2 + 2)" and "gm_range m (vq_used_addr q) (2 + 2)"
    and "j < vq_queue_size q \<Longrightarrow> gm_range m (vq_desc_addr q) (16 * unat j + 16)"
  using assms vq_mod_less [OF assms, of i]
  by (auto simp: vq_ok_def gm_range_def word_less_nat_alt)

text \<open>Each operation needs only the ring or the entry that it reads.\<close>

definition avail_ok :: "virt_queue \<Rightarrow> guest_memory \<Rightarrow> bool" where
  "avail_ok q m \<longleftrightarrow> vq_queue_size q \<noteq> 0 \<and> gm_range m (vq_avail_addr q) (4 + 2 * unat (vq_queue_size q))"

lemma available_idx_in:
  assumes "gm_range m (vq_avail_addr q) 4"
  shows "available_idx oc q m = Done (vq_avail_idx q m)"
proof -
  have "gm_range m (vq_avail_addr q) (2 + 2)" using assms by simp
  note a = range_offset [OF this, of 2, simplified]
  note e = gm_range_end [OF a(3), simplified] slice_range_ok [OF a(3) refl, simplified]
  show ?thesis
    using a e bytes2 [of "mem_get (gm_bytes m) (unat (vq_avail_addr q) + 2) 2"]
    by (simp add: available_idx_def vq_avail_idx_def mem_u16_def del: nth_mem_get from_le_bytes.simps)
qed

lemma get_avail_in:
  assumes "avail_ok q m"
  shows "get_avail_desc_idx oc q m = Done (if vq_last_avail_idx q = vq_avail_idx q m then None
     else Some (vq_head q m (vq_last_avail_idx q)))"
proof -
  let ?j = "vq_last_avail_idx q mod vq_queue_size q"
  have nz: "vq_queue_size q \<noteq> 0" using assms by (simp add: avail_ok_def)
  then have "unat ?j < unat (vq_queue_size q)" by (simp add: unat_mod unat_gt_0)
  then have r: "gm_range m (vq_avail_addr q) ((4 + 2 * unat ?j) + 2)" "gm_range m (vq_avail_addr q) 4"
    using assms by (auto simp: avail_ok_def gm_range_def)
  have off: "unat (4 + ucast ?j * 2 :: u64) = 4 + 2 * unat ?j" using slot_word [of 2 ?j] by simp
  note a = range_offset [OF r(1) off]
  note e = gm_range_end [OF a(3), simplified] slice_range_ok [OF a(3) refl, simplified]
  show ?thesis
    using nz a e bytes2 [of "mem_get (gm_bytes m) (unat (vq_avail_addr q) + (4 + 2 * unat ?j)) 2"]
    by (simp add: get_avail_desc_idx_def available_idx_in [OF r(2)] vq_head_def mem_u16_def
        del: nth_mem_get from_le_bytes.simps)
qed

lemma read_desc_in:
  assumes "gm_range m (vq_desc_addr q) (16 * unat i + 16)"
  shows "read_desc oc q m i = Done (Some (vq_desc q m i))"
proof -
  have off: "unat (ucast i * 16 :: u64) = 16 * unat i" using index_scale(2) [of 16 i] by simp
  note a = range_offset [OF assms off]
  note e = gm_range_end [OF a(3), simplified] slice_range_ok [OF a(3) refl, simplified]
  show ?thesis using a e by (simp add: read_desc_def vq_desc_def desc_entry_def)
qed

lemma get_avail_desc_idx_ok:
  assumes "vq_ok q m"
  shows "get_avail_desc_idx oc q m = Done (if vq_last_avail_idx q = vq_avail_idx q m then None
     else Some (vq_head q m (vq_last_avail_idx q)))"
  by (rule get_avail_in) (use assms in \<open>simp add: vq_ok_def avail_ok_def\<close>)

lemma read_desc_ok:
  assumes "vq_ok q m" and "i < vq_queue_size q"
  shows "read_desc oc q m i = Done (Some (vq_desc q m i))"
  using vq_ranges(5) [OF assms] by (rule read_desc_in)

text \<open>Publishing a completion: the slot of the entry just taken, then the index.\<close>

lemma add_used_ok:
  assumes "vq_ok q m"
  shows "add_used oc q m h len = Done (q\<lparr>vq_last_avail_idx := vq_last_avail_idx q + 1\<rparr>,
    m\<lparr>gm_bytes := mem_upd (mem_upd (gm_bytes m) (vq_used_slot q (vq_last_avail_idx q))
       (to_le_bytes 4 (ucast h :: u32) @ to_le_bytes 4 len))
       (unat (vq_used_addr q) + 2) (to_le_bytes 2 (vq_last_avail_idx q + 1))\<rparr>)"
proof -
  let ?j = "vq_last_avail_idx q mod vq_queue_size q"
  have off: "unat (4 + ucast ?j * 8 :: u64) = 4 + 8 * unat ?j" using slot_word [of 8 ?j] by simp
  note a = range_offset [OF vq_ranges(2) [OF assms] off]
  note ea = gm_range_end [OF a(3), simplified]
  note i = range_offset [OF vq_ranges(4) [OF assms], of 2, simplified]
  note ei = gm_range_end [OF i(3), simplified]
  have "vq_queue_size q \<noteq> 0" "even (unat (gm_ptr m) + unat (vq_used_addr q))"
    using assms by (simp_all add: vq_ok_def)
  then show ?thesis
    using a ea i ei
    by (simp add: add_used_def raw_store_u16_def raw_store_ok Let_def vq_used_slot_def add.assoc
        not_less)
qed

lemma add_used_spec:
  assumes "vq_ok q m" and "add_used oc q m h len = Done (q', m')"
  shows "q' = q\<lparr>vq_last_avail_idx := vq_last_avail_idx q + 1\<rparr>"
    and "vq_used_id q m' (vq_last_avail_idx q) = ucast h"
    and "vq_used_len q m' (vq_last_avail_idx q) = len"
    and "vq_used_idx q m' = vq_last_avail_idx q + 1"
    and "agree_on (- vq_used_region q) m m'"
proof -
  let ?s = "vq_used_slot q (vq_last_avail_idx q)" and ?i = "unat (vq_used_addr q) + 2"
  let ?e = "to_le_bytes 4 (ucast h :: u32) @ to_le_bytes 4 len"
  have m': "q' = q\<lparr>vq_last_avail_idx := vq_last_avail_idx q + 1\<rparr>"
    "m' = m\<lparr>gm_bytes := mem_upd (mem_upd (gm_bytes m) ?s ?e) ?i (to_le_bytes 2 (vq_last_avail_idx q + 1))\<rparr>"
    using assms by (simp_all add: add_used_ok)
  have s: "?i + 2 \<le> ?s" "?s + 8 \<le> unat (vq_used_addr q) + (4 + 8 * unat (vq_queue_size q))"
    using vq_mod_less [OF assms(1), of "vq_last_avail_idx q"] by (simp_all add: vq_used_slot_def)
  show "q' = q\<lparr>vq_last_avail_idx := vq_last_avail_idx q + 1\<rparr>" by (fact m')
  show "vq_used_id q m' (vq_last_avail_idx q) = ucast h" "vq_used_len q m' (vq_last_avail_idx q) = len"
    "vq_used_idx q m' = vq_last_avail_idx q + 1"
    using s(1) by (simp_all add: m'(2) vq_used_id_def vq_used_len_def vq_used_idx_def mem_u16_def
        mem_get_upd_disjoint mem_get_upd_inside)
  show "agree_on (- vq_used_region q) m m'"
    using s by (auto simp: m'(2) agree_on_def vq_used_region_def mem_upd_out)
qed

lemma add_used_other_slot:
  assumes "vq_ok q m" and "add_used oc q m h len = Done (q', m')"
    and "i mod vq_queue_size q \<noteq> vq_last_avail_idx q mod vq_queue_size q"
  shows "vq_used_id q m' i = vq_used_id q m i"
proof -
  have "unat (i mod vq_queue_size q) \<noteq> unat (vq_last_avail_idx q mod vq_queue_size q)"
    using assms(3) by (simp only: word_eq_iff_unsigned [where ?'a = nat, symmetric] not_False_eq_True)
  then have "vq_used_slot q i + 8 \<le> vq_used_slot q (vq_last_avail_idx q) \<or>
      vq_used_slot q (vq_last_avail_idx q) + 8 \<le> vq_used_slot q i"
    by (simp add: vq_used_slot_def) arith
  moreover have "unat (vq_used_addr q) + 4 \<le> vq_used_slot q i" by (simp add: vq_used_slot_def)
  ultimately show ?thesis
    using assms(1,2) by (auto simp: add_used_ok vq_used_id_def mem_get_upd_disjoint)
qed

text \<open>The queue index is the only field that the data paths change.\<close>

lemma vq_last_upd [simp]:
  "vq_ok (q\<lparr>vq_last_avail_idx := i\<rparr>) m = vq_ok q m"
  "vq_avail_idx (q\<lparr>vq_last_avail_idx := i\<rparr>) m = vq_avail_idx q m"
  "vq_head (q\<lparr>vq_last_avail_idx := i\<rparr>) m = vq_head q m"
  "vq_desc (q\<lparr>vq_last_avail_idx := i\<rparr>) m = vq_desc q m"
  "vq_used_id (q\<lparr>vq_last_avail_idx := i\<rparr>) m = vq_used_id q m"
  "vq_used_len (q\<lparr>vq_last_avail_idx := i\<rparr>) m = vq_used_len q m"
  "vq_used_idx (q\<lparr>vq_last_avail_idx := i\<rparr>) m = vq_used_idx q m"
  "vq_used_region (q\<lparr>vq_last_avail_idx := i\<rparr>) = vq_used_region q"
  "vq_driver_region (q\<lparr>vq_last_avail_idx := i\<rparr>) = vq_driver_region q"
  "vq_table_region (q\<lparr>vq_last_avail_idx := i\<rparr>) = vq_table_region q"
  by (simp_all add: fun_eq_iff vq_ok_def vq_avail_idx_def vq_head_def vq_desc_def vq_used_id_def
      vq_used_len_def vq_used_idx_def vq_used_region_def vq_used_slot_def vq_driver_region_def
      vq_table_region_def)

lemma vq_ok_agree: "agree_on S m m' \<Longrightarrow> vq_ok q m' = vq_ok q m"
  by (auto simp: vq_ok_def agree_on_def same_shape_def gm_range_def)

lemma vq_driver_agree:
  assumes "vq_ok q m" and "agree_on (vq_driver_region q) m m'"
  shows "vq_avail_idx q m' = vq_avail_idx q m" and "vq_head q m' i = vq_head q m i"
    and "h < vq_queue_size q \<Longrightarrow> vq_desc q m' h = vq_desc q m h"
proof -
  note get = agree_on_get [OF assms(2)]
  show "vq_avail_idx q m' = vq_avail_idx q m"
    unfolding vq_avail_idx_def mem_u16_def by (subst get) (auto simp: vq_driver_region_def)
  show "vq_head q m' i = vq_head q m i"
    unfolding vq_head_def mem_u16_def
    by (subst get) (use vq_mod_less [OF assms(1), of i] in \<open>auto simp: vq_driver_region_def\<close>)
  assume "h < vq_queue_size q"
  then have "unat h < unat (vq_queue_size q)" by (simp add: word_less_nat_alt)
  then show "vq_desc q m' h = vq_desc q m h"
    unfolding vq_desc_def desc_entry_def by (subst get) (auto simp: vq_driver_region_def)
qed

lemma vq_used_agree:
  assumes "agree_on A m m'" and "vq_used_region q \<subseteq> A" and "vq_ok q m1"
  shows "vq_used_idx q m' = vq_used_idx q m" and "vq_used_id q m' i = vq_used_id q m i"
    and "vq_used_len q m' i = vq_used_len q m i"
proof -
  have "{unat (vq_used_addr q) + 2..<unat (vq_used_addr q) + 2 + 2} \<subseteq> A"
    "{vq_used_slot q i..<vq_used_slot q i + 4} \<subseteq> A" "{vq_used_slot q i + 4..<vq_used_slot q i + 4 + 4} \<subseteq> A"
    using assms(2) vq_mod_less [OF assms(3), of i] by (auto simp: vq_used_region_def vq_used_slot_def subset_iff)
  then show "vq_used_idx q m' = vq_used_idx q m" "vq_used_id q m' i = vq_used_id q m i" "vq_used_len q m' i = vq_used_len q m i"
    by (simp_all add: vq_used_idx_def vq_used_id_def vq_used_len_def mem_u16_def agree_on_get [OF assms(1)])
qed

section \<open>Transmission\<close>

text \<open>The packet that a descriptor carries: its buffer without the header, if there is one in range.\<close>

definition tx_packet :: "guest_memory \<Rightarrow> vring_desc \<Rightarrow> bytes list" where
  "tx_packet m e =
     (if NET_HDR_LEN < unat (vd_len e) \<and> gm_range m (vd_addr e) (unat (vd_len e))
      then [mem_get (gm_bytes m) (unat (vd_addr e) + NET_HDR_LEN) (unat (vd_len e) - NET_HDR_LEN)]
      else [])"

definition buffer_region :: "vring_desc \<Rightarrow> nat set" where
  "buffer_region e = {unat (vd_addr e)..<unat (vd_addr e) + unat (vd_len e)}"

lemma tx_send_ok:
  assumes "unat (vd_addr e) + unat (vd_len e) < 2 ^ 64"
  shows "tx_send oc T tap m e = Done (send_all T tap (tx_packet m e))"
proof (cases "NET_HDR_LEN < unat (vd_len e)")
  case True
  let ?a = "vd_addr e" and ?n = "unat (vd_len e)"
  have add: "uadd oc ?a (ucast (vd_len e)) = Done (?a + ucast (vd_len e))"
    "unat (?a + ucast (vd_len e)) = unat ?a + ?n"
    using assms by (simp_all add: uadd_no_overflow unat_plus_no_overflow)
  have hdr: "uadd oc ?a 12 = Done (?a + 12)" "unat (?a + 12) = unat ?a + 12"
    using assms True by (simp_all add: uadd_no_overflow unat_plus_no_overflow NET_HDR_LEN_def)
  show ?thesis
    using add hdr True
    by (auto simp: tx_send_def Let_def tx_packet_def gm_range_def word_le_nat_alt word_less_nat_alt
        slice_range_def NET_HDR_LEN_def split: prod.splits sum.splits)
qed (simp add: tx_send_def tx_packet_def)

definition tx_batch :: "virt_queue \<Rightarrow> guest_memory \<Rightarrow> u16 list \<Rightarrow> bool" where
  "tx_batch q m hs \<longleftrightarrow> vq_ok q m \<and> unat (vq_queue_size q) dvd 65536 \<and>
     length hs = unat (vq_avail_idx q m - vq_last_avail_idx q) \<and> length hs \<le> unat (vq_queue_size q) \<and>
     (\<forall>k < length hs. vq_head q m (vq_last_avail_idx q + of_nat k) = hs ! k) \<and>
     (\<forall>h \<in> set hs. h < vq_queue_size q \<and>
        unat (vd_addr (vq_desc q m h)) + unat (vd_len (vq_desc q m h)) < 2 ^ 64 \<and>
        vq_used_region q \<inter> buffer_region (vq_desc q m h) = {}) \<and>
     vq_used_region q \<inter> vq_driver_region q = {}"

definition tx_packets :: "virt_queue \<Rightarrow> guest_memory \<Rightarrow> u16 list \<Rightarrow> bytes list" where
  "tx_packets q m hs = concat (map (\<lambda>h. tx_packet m (vq_desc q m h)) hs)"

text \<open>The state of the loop after \<open>k\<close> descriptors.\<close>

definition tx_done ::
  "'p tap_ops \<Rightarrow> virt_queue \<Rightarrow> 'p tap_interface \<Rightarrow> guest_memory \<Rightarrow> u32 \<Rightarrow> u16 list \<Rightarrow> nat \<Rightarrow> 'p tx_vars \<Rightarrow> bool" where
  "tx_done T q tap m irq hs k v \<longleftrightarrow>
     tv_queue v = q\<lparr>vq_last_avail_idx := vq_last_avail_idx q + of_nat k\<rparr> \<and>
     agree_on (- vq_used_region q) m (tv_mem v) \<and>
     send_all T tap (tx_packets q m (take k hs)) = (tv_work v, tv_tap v) \<and>
     vq_used_idx q (tv_mem v) = (if k = 0 then vq_used_idx q m else vq_last_avail_idx q + of_nat k) \<and>
     tv_irq v = (if k = 0 then irq else irq OR 1) \<and>
     (\<forall>j < k. vq_used_id q (tv_mem v) (vq_last_avail_idx q + of_nat j) = ucast (hs ! j))"

lemma tx_packet_agree:
  assumes "agree_on (- vq_used_region q) m m'" and "vq_used_region q \<inter> buffer_region e = {}"
  shows "tx_packet m' e = tx_packet m e"
proof -
  have shape: "same_shape m m'" using assms(1) by (simp add: agree_on_def)
  have "mem_get (gm_bytes m') (unat (vd_addr e) + NET_HDR_LEN) (unat (vd_len e) - NET_HDR_LEN) =
      mem_get (gm_bytes m) (unat (vd_addr e) + NET_HDR_LEN) (unat (vd_len e) - NET_HDR_LEN)"
    by (rule agree_on_get [OF assms(1)]) (use assms(2) in \<open>fastforce simp: buffer_region_def\<close>)
  then show ?thesis by (simp add: tx_packet_def same_shape_range [OF shape])
qed

lemma tx_batch_entry:
  assumes b: "tx_batch q m hs" and k: "k < length hs" and v: "tx_done T q tap m irq hs k v"
  shows "vq_ok (tv_queue v) (tv_mem v)"
    and "get_avail_desc_idx oc (tv_queue v) (tv_mem v) = Done (Some (hs ! k))"
    and "read_desc oc (tv_queue v) (tv_mem v) (hs ! k) = Done (Some (vq_desc q m (hs ! k)))"
proof -
  let ?h = "hs ! k" and ?mem = "tv_mem v" and ?l = "vq_last_avail_idx q"
  have h: "?h < vq_queue_size q" and qs: "length hs \<le> unat (vq_queue_size q)"
    and n: "length hs = unat (vq_avail_idx q m - ?l)" and ok: "vq_ok q m"
    using b k by (auto simp: tx_batch_def)
  have ag: "agree_on (- vq_used_region q) m ?mem" and tq: "tv_queue v = q\<lparr>vq_last_avail_idx := ?l + of_nat k\<rparr>"
    using v by (simp_all add: tx_done_def)
  have "agree_on (vq_driver_region q) m ?mem"
    using ag by (rule agree_on_subset) (use b in \<open>auto simp: tx_batch_def\<close>)
  note dr = vq_driver_agree [OF ok this]
  have okm: "vq_ok q ?mem" using vq_ok_agree [OF ag] ok by simp
  then show "vq_ok (tv_queue v) ?mem" by (simp add: tq)
  have "k < 65536" using k qs unat_u16_bound [of "vq_queue_size q"] by linarith
  then have "unat (of_nat k :: u16) < unat (vq_avail_idx q m - ?l)"
    using k n by (simp add: unat_of_nat_small)
  then have "of_nat k \<noteq> vq_avail_idx q m - ?l" by (metis less_irrefl)
  then have "?l + of_nat k \<noteq> vq_avail_idx q m" by (auto simp: algebra_simps)
  moreover have "vq_head q m (?l + of_nat k) = ?h" using b k by (simp add: tx_batch_def)
  ultimately show "get_avail_desc_idx oc (tv_queue v) ?mem = Done (Some ?h)"
    using get_avail_desc_idx_ok [of "tv_queue v" ?mem oc] okm by (simp add: tq dr)
  show "read_desc oc (tv_queue v) ?mem ?h = Done (Some (vq_desc q m ?h))"
    using read_desc_ok [of "tv_queue v" ?mem ?h oc] okm h by (simp add: tq dr(3))
qed

lemma tx_batch_step:
  assumes b: "tx_batch q m hs" and k: "k < length hs" and v: "tx_done T q tap m irq hs k v"
  shows "\<exists>v'. tx_step oc T v = Done (Inl v') \<and> tx_done T q tap m irq hs (Suc k) v'"
proof -
  let ?h = "hs ! k" and ?mem = "tv_mem v" and ?l = "vq_last_avail_idx q"
  have h: "vq_used_region q \<inter> buffer_region (vq_desc q m ?h) = {}"
    "unat (vd_addr (vq_desc q m ?h)) + unat (vd_len (vq_desc q m ?h)) < 2 ^ 64"
    and qs: "vq_queue_size q \<noteq> 0" "unat (vq_queue_size q) dvd 65536" "length hs \<le> unat (vq_queue_size q)"
    using b k by (auto simp: tx_batch_def vq_ok_def)
  note okq = tx_batch_entry(1) [OF b k v] and entry = tx_batch_entry(2,3) [OF b k v, of oc]
  have ag: "agree_on (- vq_used_region q) m ?mem" and tq: "tv_queue v = q\<lparr>vq_last_avail_idx := ?l + of_nat k\<rparr>"
    and snd: "send_all T tap (tx_packets q m (take k hs)) = (tv_work v, tv_tap v)"
    and ids: "\<And>j. j < k \<Longrightarrow> vq_used_id q ?mem (?l + of_nat j) = ucast (hs ! j)"
    and irq: "tv_irq v = (if k = 0 then irq else irq OR 1)"
    using v by (simp_all add: tx_done_def)
  obtain ok' tap' where s: "send_all T (tv_tap v) (tx_packet m (vq_desc q m ?h)) = (ok', tap')"
    by fastforce
  have send: "tx_send oc T (tv_tap v) ?mem (vq_desc q m ?h) = Done (ok', tap')"
    using tx_send_ok [OF h(2), of oc T "tv_tap v" ?mem] tx_packet_agree [OF ag h(1)] s by simp
  obtain q' m' where au: "add_used oc (tv_queue v) ?mem ?h 0 = Done (q', m')"
    using add_used_ok [OF okq, of oc ?h 0] by blast
  note sp = add_used_spec [OF okq au, unfolded tq vq_last_upd, simplified]
  have "vq_used_id q m' (?l + of_nat j) = ucast (hs ! j)" if "j < Suc k" for j
  proof (cases "j = k")
    case False
    with that have j: "j < k" by simp
    then have "(?l + of_nat j) mod vq_queue_size q \<noteq> (?l + of_nat k) mod vq_queue_size q"
      using k qs(3) by (intro ring_slots_distinct [OF qs(2,1)]) simp_all
    with add_used_other_slot [OF okq au, of "?l + of_nat j"] ids [OF j] show ?thesis by (simp add: tq)
  qed (use sp(2) in simp)
  moreover have "send_all T tap (tx_packets q m (take (Suc k) hs)) = (tv_work v \<or> ok', tap')"
    using k snd s by (simp add: take_Suc_conv_app_nth tx_packets_def send_all_append)
  ultimately have "tx_done T q tap m irq hs (Suc k)
      \<lparr>tv_queue = q', tv_tap = tap', tv_mem = m', tv_irq = tv_irq v OR 1, tv_work = (tv_work v \<or> ok')\<rparr>"
    using sp agree_on_trans [OF ag sp(5)] irq by (auto simp: tx_done_def algebra_simps or.assoc)
  then show ?thesis using entry send au by (simp add: tx_step_def)
qed


lemma tx_batch_leave:
  assumes b: "tx_batch q m hs" and v: "tx_done T q tap m irq hs (length hs) v"
  shows "vq_ok (tv_queue v) (tv_mem v)" and "get_avail_desc_idx oc (tv_queue v) (tv_mem v) = Done None"
proof -
  have n: "length hs = unat (vq_avail_idx q m - vq_last_avail_idx q)" and ok: "vq_ok q m"
    using b by (simp_all add: tx_batch_def)
  have ag: "agree_on (- vq_used_region q) m (tv_mem v)"
    and tq: "tv_queue v = q\<lparr>vq_last_avail_idx := vq_avail_idx q m\<rparr>"
    using v n by (simp_all add: tx_done_def)
  have "agree_on (vq_driver_region q) m (tv_mem v)"
    using ag by (rule agree_on_subset) (use b in \<open>auto simp: tx_batch_def\<close>)
  note dr = vq_driver_agree(1) [OF ok this]
  show okv: "vq_ok (tv_queue v) (tv_mem v)" using vq_ok_agree [OF ag, of q] ok by (simp add: tq)
  show "get_avail_desc_idx oc (tv_queue v) (tv_mem v) = Done None"
    using get_avail_desc_idx_ok [OF okv, of oc] by (simp add: tq dr)
qed

lemma tx_processed:
  assumes "vn_tap d = Some tap" and "q = vn_queues d ! 1" and "vq_ready q" and "tx_batch q m hs"
  shows "\<exists>d' m'. process_tx oc T d m =
      Some (Done (fst (send_all T tap (tx_packets q m hs)), d', m')) \<and>
    vn_tap d' = Some (snd (send_all T tap (tx_packets q m hs))) \<and>
    vn_queues d' = (vn_queues d)[1 := q\<lparr>vq_last_avail_idx := vq_avail_idx q m\<rparr>] \<and>
    (hs \<noteq> [] \<longrightarrow> vq_used_idx q m' = vq_avail_idx q m) \<and>
    (\<forall>k < length hs. vq_used_id q m' (vq_last_avail_idx q + of_nat k) = ucast (hs ! k)) \<and>
    vn_interrupt_status d' = (if hs = [] then vn_interrupt_status d else vn_interrupt_status d OR 1) \<and>
    agree_on (- vq_used_region q) m m'"
proof -
  let ?body = "\<lambda>v. Some (tx_step oc T v)" and ?irq = "vn_interrupt_status d"
  let ?v0 = "\<lparr>tv_queue = q, tv_tap = tap, tv_mem = m, tv_irq = ?irq, tv_work = False\<rparr>"
  have n: "length hs = unat (vq_avail_idx q m - vq_last_avail_idx q)" using assms(4) by (simp add: tx_batch_def)
  have leave: "?body v = Some (Done (Inr v))" if "tx_done T q tap m ?irq hs (length hs) v" for v
    using tx_batch_leave(2) [OF assms(4) that, of oc] by (simp add: tx_step_def)
  have "tx_done T q tap m ?irq hs 0 ?v0" by (simp add: tx_done_def tx_packets_def)
  moreover have "\<exists>v'. ?body v = Some (Done (Inl v')) \<and> tx_done T q tap m ?irq hs (Suc k) v'"
    if "k < length hs" "tx_done T q tap m ?irq hs k v" for k v
    using tx_batch_step [OF assms(4) that, of oc] by simp
  ultimately obtain v where v: "exec_loop ?body ?v0 = Some (Done v)"
    "tx_done T q tap m ?irq hs (length hs) v"
    using exec_loop_counted [where P = "tx_done T q tap m ?irq hs" and n = "length hs" and body = ?body
        and s = ?v0 and r = "\<lambda>v. v"] leave by blast
  have "process_tx oc T d m = Some (Done (tv_work v,
      d\<lparr>vn_tap := Some (tv_tap v), vn_queues := (vn_queues d)[1 := tv_queue v],
        vn_interrupt_status := tv_irq v\<rparr>, tv_mem v))"
    using v(1) assms(1-3) by (simp add: process_tx_def)
  with v(2) n show ?thesis by (auto simp: tx_done_def)
qed

text \<open>
  C20. Transmission, for any TAP interface and both build profiles: a poll of the transmit queue
  returns; it has offered to the interface exactly the payloads of all queued descriptors, in ring
  order; it has published their completions in order, set the used index to the available index,
  raised the interrupt bit exactly when there was something queued, and changed no byte of guest
  memory outside the used ring. It reports work exactly when the interface accepted a packet.
\<close>

theorem net_tx_completed:
  assumes "vn_tap d = Some tap" and "q = vn_queues d ! 1" and "vq_ready q" and "tx_batch q m hs"
  shows "\<exists>d' m'. process_tx oc T d m =
      Some (Done (fst (send_all T tap (tx_packets q m hs)), d', m')) \<and>
    vn_tap d' = Some (snd (send_all T tap (tx_packets q m hs))) \<and>
    vn_queues d' = (vn_queues d)[1 := q\<lparr>vq_last_avail_idx := vq_avail_idx q m\<rparr>] \<and>
    (hs \<noteq> [] \<longrightarrow> vq_used_idx q m' = vq_avail_idx q m) \<and>
    (\<forall>k < length hs. vq_used_id q m' (vq_last_avail_idx q + of_nat k) = ucast (hs ! k)) \<and>
    vn_interrupt_status d' = (if hs = [] then vn_interrupt_status d else vn_interrupt_status d OR 1) \<and>
    agree_on (- vq_used_region q) m m'"
  using assms by (rule tx_processed)

text \<open>One descriptor of sixteen bytes, queued on rings of four entries.\<close>

definition net_mem :: "bytes \<Rightarrow> guest_memory" where
  "net_mem payload = \<lparr>gm_ptr = 4096, gm_len = 0x1000, gm_owned = True, gm_mapped = 0x1000,
     gm_bytes = mem_upd (mem_upd (mem_upd (\<lambda>_. 0) 0x100 (encode_desc 0x300 16 0 0)) 0x30C payload)
       0x502 [1, 0, 0, 0]\<rparr>"

definition net_queue :: virt_queue where
  "net_queue = \<lparr>vq_desc_addr = 0x100, vq_avail_addr = 0x500, vq_used_addr = 0x600,
     vq_queue_size = 4, vq_ready = True, vq_last_avail_idx = 0\<rparr>"

definition net_dev :: "bytes list \<Rightarrow> wire virtio_net" where
  "net_dev ps = (vn_new (Some \<lparr>ti_file = \<lparr>w_rx = ps, w_tx = []\<rparr>, ti_name = []\<rparr>))
     \<lparr>vn_queues := [net_queue, net_queue]\<rparr>"

lemma net_example:
  "vq_avail_idx net_queue (net_mem [1, 2, 3, 4]) = 1" "vq_head net_queue (net_mem [1, 2, 3, 4]) 0 = 0"
  "vq_desc net_queue (net_mem [1, 2, 3, 4]) 0 = \<lparr>vd_addr = 0x300, vd_len = 16, vd_flags = 0, vd_next = 0\<rparr>"
  by (simp_all add: vq_avail_idx_def vq_head_def vq_desc_def net_queue_def net_mem_def mem_u16_def desc_entry_def mem_eval)

lemma net_bytes:
  "gm_len (net_mem p) = 0x1000" "mem_get (gm_bytes (net_mem [1, 2, 3, 4])) 780 4 = [1, 2, 3, 4]"
  by (simp_all add: net_mem_def mem_get_upd_disjoint)

lemma net_example_ok: "vq_ok net_queue (net_mem p)"
  by (simp add: vq_ok_def net_queue_def net_mem_def gm_range_def)

lemma net_example_batch: "tx_batch net_queue (net_mem [1, 2, 3, 4]) [0]"
proof -
  have "vq_used_region net_queue \<inter> vq_driver_region net_queue = {}"
    "vq_used_region net_queue \<inter> {0x300..<0x310} = {}"
    by (auto simp: vq_used_region_def vq_driver_region_def net_queue_def)
  moreover have "vq_last_avail_idx net_queue = 0" "vq_queue_size net_queue = 4"
    by (simp_all add: net_queue_def)
  ultimately show ?thesis
    by (simp add: tx_batch_def net_example net_example_ok buffer_region_def)
qed

theorem net_tx_completed_witness:
  "\<exists>d' m'. process_tx True (wire_ops []) (net_dev []) (net_mem [1, 2, 3, 4]) = Some (Done (True, d', m')) \<and>
     (\<exists>t. vn_tap d' = Some t \<and> w_tx (ti_file t) = [[1, 2, 3, 4]]) \<and> vn_interrupt_status d' = 1"
proof -
  have p: "tx_packets net_queue (net_mem [1, 2, 3, 4]) [0] = [[1, 2, 3, 4]]"
    by (simp add: tx_packets_def net_example tx_packet_def gm_range_def NET_HDR_LEN_def net_bytes)
  show ?thesis
    using net_tx_completed [of "net_dev []" _ net_queue "net_mem [1, 2, 3, 4]" "[0]" True "wire_ops []",
        OF _ _ _ net_example_batch] p
    by (auto simp: net_dev_def vn_new_def net_queue_def [THEN arg_cong, of vq_ready] tap_write_def
        wire_ops_def wire_write_def)
qed

lemma rx_copy_ok:
  assumes "length p + 12 \<le> unat (vd_len e)" and "gm_range m (vd_addr e) (12 + length p)"
  shows "rx_copy oc m e p = Done (Some (m\<lparr>gm_bytes :=
    mem_upd (gm_bytes m) (unat (vd_addr e)) (replicate 12 0 @ p)\<rparr>))"
proof -
  have "unat (of_nat (length p + 12) :: u32) = length p + 12"
    using assms(1) unat_u32_bound [of "vd_len e"] by (intro unat_of_nat_small) simp
  then have "\<not> vd_len e < of_nat (length p + 12)"
    using assms(1) by (simp add: word_less_nat_alt del: of_nat_add)
  moreover note a = range_offset [OF assms(2), of 12, simplified]
  moreover note gm_range_end [OF a(3)]
  moreover have "raw_store m (vd_addr e) (replicate 12 0 @ p) =
      Done (m\<lparr>gm_bytes := mem_upd (gm_bytes m) (unat (vd_addr e)) (replicate 12 0 @ p)\<rparr>)"
    using assms(2) by (intro raw_store_ok) simp
  ultimately show ?thesis by (simp add: rx_copy_def Let_def NET_HDR_LEN_def del: of_nat_add)
qed

text \<open>A buffer that the driver has queued for a packet.\<close>

definition rx_buffer :: "virt_queue \<Rightarrow> guest_memory \<Rightarrow> u16 \<Rightarrow> bytes \<Rightarrow> bool" where
  "rx_buffer q m h p \<longleftrightarrow> vq_ready q \<and> vq_ok q m \<and> vq_last_avail_idx q \<noteq> vq_avail_idx q m \<and>
     vq_head q m (vq_last_avail_idx q) = h \<and> h < vq_queue_size q \<and>
     length p + 12 \<le> unat (vd_len (vq_desc q m h)) \<and> gm_range m (vd_addr (vq_desc q m h)) (12 + length p) \<and>
     buffer_region (vq_desc q m h) \<inter> vq_used_region q = {}"

lemma rx_processed:
  assumes "vn_tap d = Some tap" and "q = vn_queues d ! 0" and "tap_read T tap 1514 = (Inr p, tap')" and "p \<noteq> []"
    and b: "rx_buffer q m h p" and e: "e = vq_desc q m h"
  shows "\<exists>m'. process_rx oc T d m = Done (True,
      d\<lparr>vn_tap := Some tap', vn_queues := (vn_queues d)[0 := q\<lparr>vq_last_avail_idx := vq_last_avail_idx q + 1\<rparr>],
        vn_interrupt_status := vn_interrupt_status d OR 1\<rparr>, m') \<and>
    mem_get (gm_bytes m') (unat (vd_addr e)) (12 + length p) = replicate 12 0 @ p \<and>
    vq_used_id q m' (vq_last_avail_idx q) = ucast h \<and>
    vq_used_len q m' (vq_last_avail_idx q) = of_nat (length p + 12) \<and>
    vq_used_idx q m' = vq_last_avail_idx q + 1 \<and>
    agree_on (- (vq_used_region q \<union> buffer_region e)) m m'"
proof -
  let ?m1 = "m\<lparr>gm_bytes := mem_upd (gm_bytes m) (unat (vd_addr e)) (replicate 12 0 @ p)\<rparr>"
  have ok: "vq_ready q" "vq_ok q m" "h < vq_queue_size q" "length p + 12 \<le> unat (vd_len e)"
    "gm_range m (vd_addr e) (12 + length p)" "buffer_region e \<inter> vq_used_region q = {}"
    using b unfolding rx_buffer_def e by blast+
  have get: "get_avail_desc_idx oc q m = Done (Some h)"
    using b get_avail_desc_idx_ok [OF ok(2), of oc] by (simp add: rx_buffer_def)
  have ok1: "vq_ok q ?m1" using ok(2) by (simp add: vq_ok_def)
  obtain q' m' where au: "add_used oc q ?m1 h (of_nat (length p + 12)) = Done (q', m')"
    using add_used_ok [OF ok1] by simp
  note sp = add_used_spec [OF ok1 au]
  have run: "process_rx oc T d m = Done (True,
      d\<lparr>vn_tap := Some tap', vn_queues := (vn_queues d)[0 := q'],
        vn_interrupt_status := vn_interrupt_status d OR 1\<rparr>, m')"
    using assms(1-4) ok au get read_desc_ok [OF ok(2,3)]
    by (simp add: process_rx_def Let_def rx_copy_ok NET_HDR_LEN_def e del: of_nat_add)
  have sub: "{unat (vd_addr e)..<unat (vd_addr e) + (12 + length p)} \<subseteq> buffer_region e"
    using ok(4) by (auto simp: buffer_region_def)
  then have "mem_get (gm_bytes m') (unat (vd_addr e)) (12 + length p) =
      mem_get (gm_bytes ?m1) (unat (vd_addr e)) (12 + length p)"
    by (intro agree_on_get [OF sp(5)]) (use ok(6) in auto)
  then have buf: "mem_get (gm_bytes m') (unat (vd_addr e)) (12 + length p) = replicate 12 0 @ p" by simp
  have "agree_on (- (vq_used_region q \<union> buffer_region e)) m ?m1"
    by (rule agree_on_upd) (use sub in auto)
  then have "agree_on (- (vq_used_region q \<union> buffer_region e)) m m'"
    by (rule agree_on_trans) (rule agree_on_subset [OF sp(5)], auto)
  with run buf sp show ?thesis by simp
qed

text \<open>
  C21. Reception, for any TAP interface and both build profiles: when a packet arrives and the driver
  has a buffer for it, a poll copies a zeroed header and the packet into the buffer, publishes the
  completion with the total length, raises the interrupt bit, reports work and changes nothing else
  of guest memory.
\<close>

theorem net_rx_delivers:
  assumes "vn_tap d = Some tap" and "q = vn_queues d ! 0" and "tap_read T tap 1514 = (Inr p, tap')" and "p \<noteq> []"
    and "rx_buffer q m h p" and "e = vq_desc q m h"
  shows "\<exists>m'. process_rx oc T d m = Done (True,
      d\<lparr>vn_tap := Some tap', vn_queues := (vn_queues d)[0 := q\<lparr>vq_last_avail_idx := vq_last_avail_idx q + 1\<rparr>],
        vn_interrupt_status := vn_interrupt_status d OR 1\<rparr>, m') \<and>
    mem_get (gm_bytes m') (unat (vd_addr e)) (12 + length p) = replicate 12 0 @ p \<and>
    vq_used_id q m' (vq_last_avail_idx q) = ucast h \<and>
    vq_used_len q m' (vq_last_avail_idx q) = of_nat (length p + 12) \<and>
    vq_used_idx q m' = vq_last_avail_idx q + 1 \<and>
    agree_on (- (vq_used_region q \<union> buffer_region e)) m m'"
  using assms by (rule rx_processed)

lemma net_example_buffer: "rx_buffer net_queue (net_mem [1, 2, 3, 4]) 0 [5, 6]"
proof -
  have q: "vq_ready net_queue" "vq_last_avail_idx net_queue = 0" "vq_queue_size net_queue = 4"
    by (simp_all add: net_queue_def)
  have "buffer_region \<lparr>vd_addr = 0x300, vd_len = 16, vd_flags = 0, vd_next = 0\<rparr> \<inter> vq_used_region net_queue = {}"
    by (auto simp: buffer_region_def vq_used_region_def net_queue_def)
  then show ?thesis
    unfolding rx_buffer_def q net_example by (simp add: q net_example_ok gm_range_def net_bytes)
qed

theorem net_rx_delivers_witness:
  "\<exists>m'. process_rx False (wire_ops []) (net_dev [[5, 6]]) (net_mem [1, 2, 3, 4]) = Done (True,
      (net_dev [])\<lparr>vn_queues := [net_queue\<lparr>vq_last_avail_idx := 1\<rparr>, net_queue], vn_interrupt_status := 1\<rparr>, m') \<and>
    mem_get (gm_bytes m') 0x300 14 = replicate 12 0 @ [5, 6] \<and> vq_used_len net_queue m' 0 = 14"
proof -
  let ?t = "\<lambda>ps. \<lparr>ti_file = \<lparr>w_rx = ps, w_tx = []\<rparr>, ti_name = []\<rparr>"
  have d: "vn_tap (net_dev [[5, 6]]) = Some (?t [[5, 6]])" "net_queue = vn_queues (net_dev [[5, 6]]) ! 0"
    "tap_read (wire_ops []) (?t [[5, 6]]) 1514 = (Inr [5, 6], ?t [])" "[5, 6] \<noteq> ([] :: bytes)"
    by (simp_all add: net_dev_def vn_new_def tap_read_def wire_ops_def wire_read_def)
  have q: "vq_last_avail_idx net_queue = 0" by (simp add: net_queue_def)
  show ?thesis
    using net_rx_delivers [OF d net_example_buffer refl, of False]
    unfolding net_example q by (simp add: net_dev_def vn_new_def) blast
qed


section \<open>The register file\<close>

lemma from_le_bytes_snoc:
  "from_le_bytes (xs @ [b]) = (from_le_bytes xs OR push_bit (8 * length xs) (ucast b) :: 'a::len word)"
  by (induction xs) (simp_all add: push_bit_or or.assoc push_bit_push_bit add.commute)

lemma fold_le_bytes:
  "n \<le> length xs \<Longrightarrow>
   fold (\<lambda>i val. val OR push_bit (i * 8) (ucast (xs ! i))) [0..<n] 0 = (from_le_bytes (take n xs) :: u64)"
  by (induction n) (simp_all add: take_Suc_conv_app_nth from_le_bytes_snoc mult.commute)

lemma to_le_bytes_add:
  "to_le_bytes (m + n) w = to_le_bytes m w @ to_le_bytes n (drop_bit (8 * m) w)"
  by (induction m arbitrary: w) (simp_all add: drop_bit_drop_bit add.commute)

lemma take_to_le_bytes: "n \<le> k \<Longrightarrow> take n (to_le_bytes k w) = to_le_bytes n w"
  using to_le_bytes_add [of n "k - n" w] by simp

text \<open>
  The configuration space of the network device: an access of any width at any offset inside the
  six bytes of the MAC address returns the bytes of the address from that offset.
\<close>

theorem net_mac_readable:
  assumes "length (vn_mac d) = 6" and "i + length data \<le> 6" and "data \<noteq> []"
  shows "vn_read d (MMIO_CONFIG_SPACE + of_nat i) data = take (length data) (drop i (vn_mac d))"
proof -
  let ?off = "MMIO_CONFIG_SPACE + of_nat i" and ?xs = "drop i (vn_mac d)" and ?n = "length data"
  have i: "i < 6" and n: "min ?n (6 - i) = ?n" "?n \<le> 6" "0 < ?n"
    using assms(2,3) by (simp_all flip: length_greater_0_conv)
  then have u: "unat (of_nat i :: u64) = i" by (intro unat_of_nat_small) simp
  have o: "unat ?off = 256 + i"
    using i by (simp add: MMIO_CONFIG_SPACE_def unat_plus_no_overflow u)
  have neq: "?off \<noteq> w" if "unat w < 256" for w
    using o that by auto
  have "vn_reg d ?off ?n = fold (\<lambda>k val. val OR push_bit (k * 8) (ucast (?xs ! k))) [0..<?n] 0"
  proof -
    have "fold (\<lambda>k val. val OR push_bit (k * 8) (ucast (vn_mac d ! (i + k)))) [0..<?n] (0 :: u64) =
        fold (\<lambda>k val. val OR push_bit (k * 8) (ucast (?xs ! k))) [0..<?n] 0"
      by (intro fold_cong refl) (use assms(1) i in auto)
    moreover have "MMIO_CONFIG_SPACE \<le> ?off" "?off < MMIO_CONFIG_SPACE + 6"
      using i o by (simp_all add: word_le_nat_alt word_less_nat_alt MMIO_CONFIG_SPACE_def)
    moreover have "?off - MMIO_CONFIG_SPACE = of_nat i" by simp
    ultimately show ?thesis
      using neq u n(1) unfolding vn_reg_def Let_def by (simp add: net_regs)
  qed
  also have "\<dots> = from_le_bytes (take ?n ?xs)"
    using assms(1,2) by (intro fold_le_bytes) simp
  finally have r: "vn_reg d ?off ?n = from_le_bytes (take ?n ?xs)" .
  have len: "length (take ?n ?xs) = ?n" using assms(1,2) by simp
  have "take ?n (to_le_bytes 8 (from_le_bytes (take ?n ?xs) :: u64)) = take ?n ?xs"
    using to_from_le_bytes [of "take ?n ?xs", where ?'a = 64] n(2) len
    by (simp only: take_to_le_bytes) simp
  then show ?thesis using n(2) by (simp add: vn_read_def r Let_def)
qed

theorem net_mac_readable_witness:
  "vn_read (vn_new None :: wire virtio_net) (MMIO_CONFIG_SPACE + of_nat 4) [0, 0] = [0x34, 0x56]"
  by (subst net_mac_readable) (simp_all add: vn_new_def)

definition irq_ok :: "u32 \<Rightarrow> bool" where
  "irq_ok s \<longleftrightarrow> s = 0 \<or> s = 1"

lemma irq_ok_raise: "irq_ok s \<Longrightarrow> irq_ok (s OR 1)"
  by (auto simp: irq_ok_def)

lemma irq_ok_ack: "irq_ok s \<Longrightarrow> irq_ok (s AND NOT v)"
  unfolding irq_ok_def
  by (rule low_bit_word) (auto simp: bit_eq_iff bit_and_iff bit_not_iff bit_1_iff)

definition net_inv :: "'p virtio_net \<Rightarrow> bool" where
  "net_inv d \<longleftrightarrow> length (vn_queues d) = 2 \<and> vn_mac d = [0x52, 0x54, 0x00, 0x12, 0x34, 0x56] \<and>
     irq_ok (vn_interrupt_status d)"

lemma net_inv_new: "net_inv (vn_new tap)"
  by (simp add: net_inv_def vn_new_def irq_ok_def)

lemma net_inv_upd_queue: "net_inv d \<Longrightarrow> net_inv (vn_upd_queue d f)"
  by (simp add: net_inv_def vn_upd_queue_def Let_def)

lemma net_inv_reset: "net_inv d \<Longrightarrow> net_inv (vn_reset d)"
  by (simp add: net_inv_def vn_reset_def)

lemma net_inv_regs:
  "net_inv (d\<lparr>vn_device_features_sel := a\<rparr>) = net_inv d" "net_inv (d\<lparr>vn_driver_features_sel := a\<rparr>) = net_inv d"
  "net_inv (d\<lparr>vn_driver_features := b\<rparr>) = net_inv d" "net_inv (d\<lparr>vn_queue_sel := a\<rparr>) = net_inv d"
  "net_inv (d\<lparr>vn_status := a\<rparr>) = net_inv d" "net_inv (d\<lparr>vn_tap := t\<rparr>) = net_inv d"
  by (simp_all add: net_inv_def)

lemma net_inv_ack: "net_inv d \<Longrightarrow> net_inv (d\<lparr>vn_interrupt_status := vn_interrupt_status d AND NOT v\<rparr>)"
  by (simp add: net_inv_def irq_ok_ack)

lemma vn_set_reg_inv [inv_intros]: "net_inv d \<Longrightarrow> net_inv (vn_set_reg d offset val)"
  unfolding vn_set_reg_def Let_def
  by (auto simp: net_inv_upd_queue net_inv_reset net_inv_regs net_inv_ack)

lemma vn_write_inv [inv_intros]: "net_inv d \<Longrightarrow> vn_write d offset data = (r, d') \<Longrightarrow> net_inv d'"
  by (auto simp: vn_write_def vn_set_reg_inv split: if_splits)

text \<open>
  C39. Writing zero to the status register resets the device: whatever the driver had set up, both
  queues are gone, the queue selector is zero, and until the driver makes a queue ready again polls
  touch neither the interface nor guest memory. The interrupt status and the negotiated features
  survive the reset.
\<close>

theorem net_reset_quiesces:
  assumes "length (vn_queues d) = 2" and "vn_write d MMIO_STATUS [0, 0, 0, 0] = (r, d')"
  shows "r = Inr False \<and> vn_status d' = 0 \<and> vn_queues d' = [vq_new, vq_new] \<and> vn_queue_sel d' = 0 \<and>
    process_rx oc T d' m = Done (False, d', m) \<and> process_tx oc T d' m = Some (Done (False, d', m)) \<and>
    vn_interrupt_status d' = vn_interrupt_status d \<and> vn_driver_features d' = vn_driver_features d"
proof -
  obtain q0 q1 where q: "vn_queues d = [q0, q1]"
    using assms(1) by (auto simp: length_Suc_conv numeral_2_eq_2)
  have "vn_set_reg d MMIO_STATUS 0 = vn_reset (d\<lparr>vn_status := 0\<rparr>)"
    by (simp add: vn_set_reg_def net_regs)
  then have "r = Inr False" "d' = vn_reset (d\<lparr>vn_status := 0\<rparr>)"
    using assms(2) by (simp_all add: vn_write_def)
  then show ?thesis
    by (simp add: vn_reset_def q process_rx_def process_tx_def vq_new_def Let_def split: option.splits)
qed

theorem net_reset_quiesces_witness:
  "process_tx True (wire_ops []) (snd (vn_write (net_dev []) MMIO_STATUS [0, 0, 0, 0])) (net_mem []) =
     Some (Done (False, snd (vn_write (net_dev []) MMIO_STATUS [0, 0, 0, 0]), net_mem []))"
  using net_reset_quiesces [of "net_dev []" "fst (vn_write (net_dev []) MMIO_STATUS [0, 0, 0, 0])"
      "snd (vn_write (net_dev []) MMIO_STATUS [0, 0, 0, 0])" True "wire_ops []" "net_mem []"]
  by (simp add: net_dev_def)

section \<open>Memory safety\<close>

lemma uadd_checked_le:
  assumes "uadd True a b = Done c" and "\<not> gm_len m < c"
  shows "unat a + unat b \<le> unat (gm_len m)"
  using uadd_checked_unat [OF assms(1)] assms(2) by (simp add: word_less_nat_alt)

text \<open>The two queues have their used rings at even addresses of an even mapping.\<close>

definition used_aligned :: "guest_memory \<Rightarrow> virt_queue \<Rightarrow> bool" where
  "used_aligned m q \<longleftrightarrow> even (unat (gm_ptr m) + unat (vq_used_addr q))"

section \<open>Queues a guest sets up badly\<close>

text \<open>
  C36. A used ring outside guest memory stops the transmit loop from making progress: \<open>add_used\<close>
  returns without taking the entry, so the same descriptor is found again and the loop never ends,
  sending the same packet each time. The hypotheses are conditions on what the guest wrote.
\<close>

theorem net_tx_hangs:
  assumes "vn_tap d = Some tap" and "q = vn_queues d ! 1" and "vq_ready q" and "vq_queue_size q \<noteq> 0"
    and "gm_range m (vq_avail_addr q) (4 + 2 * unat (vq_queue_size q))"
    and "vq_last_avail_idx q \<noteq> vq_avail_idx q m"
    and "h = vq_head q m (vq_last_avail_idx q)" and "gm_range m (vq_desc_addr q) (16 * unat h + 16)"
    and "unat (vd_addr (vq_desc q m h)) + unat (vd_len (vq_desc q m h)) < 2 ^ 64"
    and "unat (gm_len m) < unat (vq_used_addr q)" and "unat (vq_used_addr q) < 2 ^ 63"
  shows "process_tx oc T d m = None"
proof -
  let ?j = "vq_last_avail_idx q mod vq_queue_size q"
  have get: "get_avail_desc_idx oc q m = Done (Some h)"
    using assms(4-7) by (subst get_avail_in) (simp_all add: avail_ok_def)
  have rd: "read_desc oc q m h = Done (Some (vq_desc q m h))" using assms(8) by (rule read_desc_in)
  have off8: "unat (4 + ucast ?j * 8 :: u64) = 4 + 8 * unat ?j" using slot_word [of 8 ?j] by simp
  have small: "unat (vq_used_addr q) + (4 + 8 * unat ?j) + 8 < 2 ^ 64"
    using assms(11) unat_u16_bound [of ?j] by simp
  define s where "s = vq_used_addr q + (4 + ucast ?j * 8)"
  have slot: "uadd oc (vq_used_addr q) (4 + ucast ?j * 8) = Done s"
    "unat s = unat (vq_used_addr q) + (4 + 8 * unat ?j)"
    using small off8 by (simp_all add: s_def uadd_no_overflow unat_plus_no_overflow)
  have "uadd oc s 8 = Done (s + 8)" "gm_len m < s + 8"
    using small slot(2) assms(10) by (simp_all add: uadd_no_overflow unat_plus_no_overflow word_less_nat_alt)
  then have au: "add_used oc q m h 0 = Done (q, m)" using slot(1) assms(4) by (simp add: add_used_def)
  have "exec_loop (\<lambda>v. Some (tx_step oc T v)) \<lparr>tv_queue = q, tv_tap = tap, tv_mem = m,
      tv_irq = vn_interrupt_status d, tv_work = False\<rparr> = None"
  proof (rule exec_loop_diverges [where I = "\<lambda>v. tv_queue v = q \<and> tv_mem v = m"])
    show "\<exists>v'. Some (tx_step oc T v) = Some (Done (Inl v')) \<and> tv_queue v' = q \<and> tv_mem v' = m"
      if "tv_queue v = q \<and> tv_mem v = m" for v :: "'a tx_vars"
      using that get rd au tx_send_ok [OF assms(9), of oc T "tv_tap v" m]
      by (simp add: tx_step_def split: prod.splits)
  qed simp
  then show ?thesis using assms(1-3) by (simp add: process_tx_def)
qed

theorem net_tx_hangs_witness:
  "process_tx False (wire_ops [])
     ((net_dev [])\<lparr>vn_queues := [net_queue, net_queue\<lparr>vq_used_addr := 0x2000\<rparr>]\<rparr>) (net_mem [1, 2, 3, 4]) = None"
proof (rule net_tx_hangs)
  let ?q = "net_queue\<lparr>vq_used_addr := 0x2000\<rparr>"
  have "vq_avail_idx ?q = vq_avail_idx net_queue" "vq_head ?q = vq_head net_queue" "vq_desc ?q = vq_desc net_queue"
    by (simp_all add: fun_eq_iff vq_avail_idx_def vq_head_def vq_desc_def)
  note [simp] = this net_example
  show "vn_tap ((net_dev [])\<lparr>vn_queues := [net_queue, ?q]\<rparr>) =
      Some \<lparr>ti_file = \<lparr>w_rx = [], w_tx = []\<rparr>, ti_name = []\<rparr>" by (simp add: net_dev_def vn_new_def)
  show "?q = vn_queues ((net_dev [])\<lparr>vn_queues := [net_queue, ?q]\<rparr>) ! 1" by simp
  have "vq_last_avail_idx ?q = 0" by (simp add: net_queue_def)
  then show "vq_last_avail_idx ?q \<noteq> vq_avail_idx ?q (net_mem [1, 2, 3, 4])"
    "0 = vq_head ?q (net_mem [1, 2, 3, 4]) (vq_last_avail_idx ?q)" by simp_all
  show "unat (vd_addr (vq_desc ?q (net_mem [1, 2, 3, 4]) 0)) +
      unat (vd_len (vq_desc ?q (net_mem [1, 2, 3, 4]) 0)) < 2 ^ 64" by simp
qed (simp_all add: net_queue_def gm_range_def net_bytes)

text \<open>
  A queue that is made ready with size zero: as soon as the available index differs from the
  last one seen, the poll divides by zero and the thread that runs it panics.
\<close>

theorem net_zero_size_panics:
  assumes "vn_tap d = Some tap" and "q = vn_queues d ! 1" and "vq_ready q" and "vq_queue_size q = 0"
    and "gm_range m (vq_avail_addr q) 4" and "vq_last_avail_idx q \<noteq> vq_avail_idx q m"
  shows "process_tx oc T d m = Some (Abort Div_By_Zero)"
proof -
  have "get_avail_desc_idx oc q m = Abort Div_By_Zero"
    using assms(4,6) available_idx_in [OF assms(5)] by (simp add: get_avail_desc_idx_def urem_def)
  then have "exec_loop (\<lambda>v. Some (tx_step oc T v)) \<lparr>tv_queue = q, tv_tap = tap, tv_mem = m,
      tv_irq = vn_interrupt_status d, tv_work = False\<rparr> = Some (Abort Div_By_Zero)"
    by (intro exec_loop_Abort) (simp add: tx_step_def)
  then show ?thesis using assms(1-3) by (simp add: process_tx_def)
qed

theorem net_zero_size_panics_witness:
  "process_tx False (wire_ops [])
     ((net_dev [])\<lparr>vn_queues := [net_queue, net_queue\<lparr>vq_queue_size := 0\<rparr>]\<rparr>) (net_mem [1, 2, 3, 4]) =
   Some (Abort Div_By_Zero)"
proof (rule net_zero_size_panics)
  let ?q = "net_queue\<lparr>vq_queue_size := 0\<rparr>"
  have "vq_avail_idx ?q (net_mem [1, 2, 3, 4]) = 1"
    using net_example(1) by (simp add: vq_avail_idx_def)
  moreover have "vq_last_avail_idx ?q = 0" by (simp add: net_queue_def)
  ultimately show "vq_last_avail_idx ?q \<noteq> vq_avail_idx ?q (net_mem [1, 2, 3, 4])" by simp
  show "vn_tap ((net_dev [])\<lparr>vn_queues := [net_queue, ?q]\<rparr>) =
      Some \<lparr>ti_file = \<lparr>w_rx = [], w_tx = []\<rparr>, ti_name = []\<rparr>" by (simp add: net_dev_def vn_new_def)
  show "?q = vn_queues ((net_dev [])\<lparr>vn_queues := [net_queue, ?q]\<rparr>) ! 1" by simp
qed (simp_all add: net_queue_def gm_range_def net_bytes)


end
