(* ===== verification/Ax_Metrics.thy ===== *)
theory Ax_Metrics
  imports Ax_Prelude Complex_Main "HOL-Library.Multiset"
begin

text \<open>
  The performance counters (\<open>src/axvm_core/src/metrics.rs\<close>). Every counter is an \<open>AtomicU64\<close>, whose
  \<open>fetch_add\<close> wraps in both build profiles; a record operation is one step on the record. A duration
  is a number of microseconds. The derived ratios are computed in \<open>f64\<close>; \<open>f64_round\<close> is the rounding
  of a real number to a double with the exponent unbounded, which is what IEEE 754 arithmetic gives
  on the values that can occur here (zero, or between \<open>2 ^ -64\<close> and \<open>2 ^ 71\<close>).
\<close>

section \<open>Counters\<close>

record vm_metrics =
  enabled :: bool
  vcpu_runs :: u64
  vcpu_exits :: u64
  total_instructions :: u64
  io_exits :: u64
  mmio_exits :: u64
  hlt_exits :: u64
  interrupt_exits :: u64
  exception_exits :: u64
  errors :: u64
  hardware_failures :: u64
  timeout_events :: u64
  memory_reads :: u64
  memory_writes :: u64
  memory_faults :: u64
  total_cycles :: u64
  idle_cycles :: u64
  total_runtime_us :: u64
  vcpu_active_time_us :: u64

definition metrics_new :: vm_metrics where
  "metrics_new = \<lparr>enabled = True, vcpu_runs = 0, vcpu_exits = 0, total_instructions = 0,
     io_exits = 0, mmio_exits = 0, hlt_exits = 0, interrupt_exits = 0, exception_exits = 0,
     errors = 0, hardware_failures = 0, timeout_events = 0, memory_reads = 0, memory_writes = 0,
     memory_faults = 0, total_cycles = 0, idle_cycles = 0, total_runtime_us = 0,
     vcpu_active_time_us = 0\<rparr>"

definition metrics_disabled :: vm_metrics where
  "metrics_disabled = metrics_new\<lparr>enabled := False\<rparr>"

definition metrics_enable :: "vm_metrics \<Rightarrow> vm_metrics" where
  "metrics_enable m = m\<lparr>enabled := True\<rparr>"

definition metrics_disable :: "vm_metrics \<Rightarrow> vm_metrics" where
  "metrics_disable m = m\<lparr>enabled := False\<rparr>"

definition record_vcpu_run :: "vm_metrics \<Rightarrow> vm_metrics" where
  "record_vcpu_run m = (if enabled m then m\<lparr>vcpu_runs := vcpu_runs m + 1\<rparr> else m)"

definition record_vcpu_exit :: "vm_metrics \<Rightarrow> vm_metrics" where
  "record_vcpu_exit m = (if enabled m then m\<lparr>vcpu_exits := vcpu_exits m + 1\<rparr> else m)"

definition record_instructions :: "u64 \<Rightarrow> vm_metrics \<Rightarrow> vm_metrics" where
  "record_instructions n m = (if enabled m then m\<lparr>total_instructions := total_instructions m + n\<rparr> else m)"

definition record_io_exit :: "vm_metrics \<Rightarrow> vm_metrics" where
  "record_io_exit m = (if enabled m
     then m\<lparr>io_exits := io_exits m + 1, vcpu_exits := vcpu_exits m + 1\<rparr> else m)"

definition record_mmio_exit :: "vm_metrics \<Rightarrow> vm_metrics" where
  "record_mmio_exit m = (if enabled m
     then m\<lparr>mmio_exits := mmio_exits m + 1, vcpu_exits := vcpu_exits m + 1\<rparr> else m)"

definition record_hlt_exit :: "vm_metrics \<Rightarrow> vm_metrics" where
  "record_hlt_exit m = (if enabled m
     then m\<lparr>hlt_exits := hlt_exits m + 1, vcpu_exits := vcpu_exits m + 1\<rparr> else m)"

definition record_interrupt_exit :: "vm_metrics \<Rightarrow> vm_metrics" where
  "record_interrupt_exit m = (if enabled m
     then m\<lparr>interrupt_exits := interrupt_exits m + 1, vcpu_exits := vcpu_exits m + 1\<rparr> else m)"

definition record_exception_exit :: "vm_metrics \<Rightarrow> vm_metrics" where
  "record_exception_exit m = (if enabled m
     then m\<lparr>exception_exits := exception_exits m + 1, vcpu_exits := vcpu_exits m + 1\<rparr> else m)"

definition record_error :: "vm_metrics \<Rightarrow> vm_metrics" where
  "record_error m = (if enabled m then m\<lparr>errors := errors m + 1\<rparr> else m)"

definition record_hardware_failure :: "vm_metrics \<Rightarrow> vm_metrics" where
  "record_hardware_failure m = (if enabled m
     then m\<lparr>hardware_failures := hardware_failures m + 1, errors := errors m + 1\<rparr> else m)"

definition record_timeout :: "vm_metrics \<Rightarrow> vm_metrics" where
  "record_timeout m = (if enabled m then m\<lparr>timeout_events := timeout_events m + 1\<rparr> else m)"

definition record_memory_read :: "vm_metrics \<Rightarrow> vm_metrics" where
  "record_memory_read m = (if enabled m then m\<lparr>memory_reads := memory_reads m + 1\<rparr> else m)"

definition record_memory_write :: "vm_metrics \<Rightarrow> vm_metrics" where
  "record_memory_write m = (if enabled m then m\<lparr>memory_writes := memory_writes m + 1\<rparr> else m)"

definition record_memory_fault :: "vm_metrics \<Rightarrow> vm_metrics" where
  "record_memory_fault m = (if enabled m then m\<lparr>memory_faults := memory_faults m + 1\<rparr> else m)"

definition record_cycles :: "u64 \<Rightarrow> vm_metrics \<Rightarrow> vm_metrics" where
  "record_cycles n m = (if enabled m then m\<lparr>total_cycles := total_cycles m + n\<rparr> else m)"

definition record_idle_cycles :: "u64 \<Rightarrow> vm_metrics \<Rightarrow> vm_metrics" where
  "record_idle_cycles n m = (if enabled m then m\<lparr>idle_cycles := idle_cycles m + n\<rparr> else m)"

definition record_runtime :: "nat \<Rightarrow> vm_metrics \<Rightarrow> vm_metrics" where
  "record_runtime us m = (if enabled m then m\<lparr>total_runtime_us := total_runtime_us m + of_nat us\<rparr> else m)"

definition record_vcpu_active_time :: "nat \<Rightarrow> vm_metrics \<Rightarrow> vm_metrics" where
  "record_vcpu_active_time us m =
     (if enabled m then m\<lparr>vcpu_active_time_us := vcpu_active_time_us m + of_nat us\<rparr> else m)"

definition total_runtime :: "vm_metrics \<Rightarrow> nat" where
  "total_runtime m = unat (total_runtime_us m)"

definition vcpu_active_time :: "vm_metrics \<Rightarrow> nat" where
  "vcpu_active_time m = unat (vcpu_active_time_us m)"

definition metrics_reset :: "vm_metrics \<Rightarrow> vm_metrics" where
  "metrics_reset m = (if \<not> enabled m then m else
     m\<lparr>vcpu_runs := 0, vcpu_exits := 0, total_instructions := 0, io_exits := 0, mmio_exits := 0,
       hlt_exits := 0, interrupt_exits := 0, exception_exits := 0, errors := 0,
       hardware_failures := 0, timeout_events := 0, memory_reads := 0, memory_writes := 0,
       memory_faults := 0, total_cycles := 0, idle_cycles := 0, total_runtime_us := 0,
       vcpu_active_time_us := 0\<rparr>)"

section \<open>Snapshots\<close>

text \<open>\<open>saturating_sub\<close>, and \<open>duration_since\<close>, which saturates at zero as well.\<close>

definition saturating_sub :: "u64 \<Rightarrow> u64 \<Rightarrow> u64" where
  "saturating_sub a b = (if a < b then 0 else a - b)"

record metrics_snapshot =
  ms_timestamp :: nat
  ms_vcpu_runs :: u64
  ms_vcpu_exits :: u64
  ms_io_exits :: u64
  ms_errors :: u64
  ms_total_runtime :: nat

record metrics_delta =
  md_duration :: nat
  md_vcpu_runs :: u64
  md_vcpu_exits :: u64
  md_io_exits :: u64
  md_errors :: u64

definition snapshot :: "nat \<Rightarrow> vm_metrics \<Rightarrow> metrics_snapshot" where
  "snapshot now m = \<lparr>ms_timestamp = now, ms_vcpu_runs = vcpu_runs m, ms_vcpu_exits = vcpu_exits m,
     ms_io_exits = io_exits m, ms_errors = errors m, ms_total_runtime = total_runtime m\<rparr>"

definition delta :: "metrics_snapshot \<Rightarrow> metrics_snapshot \<Rightarrow> metrics_delta" where
  "delta s t = \<lparr>md_duration = ms_timestamp s - ms_timestamp t,
     md_vcpu_runs = saturating_sub (ms_vcpu_runs s) (ms_vcpu_runs t),
     md_vcpu_exits = saturating_sub (ms_vcpu_exits s) (ms_vcpu_exits t),
     md_io_exits = saturating_sub (ms_io_exits s) (ms_io_exits t),
     md_errors = saturating_sub (ms_errors s) (ms_errors t)\<rparr>"

section \<open>Ratios\<close>

text \<open>Round to nearest, ties to even, with 53 significant bits.\<close>

definition round_even :: "real \<Rightarrow> int" where
  "round_even z = (let f = \<lfloor>z\<rfloor>; r = z - of_int f in
     if r < 1 / 2 then f else if 1 / 2 < r then f + 1 else if even f then f else f + 1)"

definition f64_ulp :: "real \<Rightarrow> real" where
  "f64_ulp x = 2 powr (of_int \<lfloor>log 2 \<bar>x\<bar>\<rfloor> - 52)"

definition f64_round :: "real \<Rightarrow> real" where
  "f64_round x = (if x = 0 then 0 else of_int (round_even (x / f64_ulp x)) * f64_ulp x)"

definition f64_of_u64 :: "u64 \<Rightarrow> real" where
  "f64_of_u64 w = f64_round (of_nat (unat w))"

definition f64_div :: "real \<Rightarrow> real \<Rightarrow> real" where
  "f64_div a b = f64_round (a / b)"

definition f64_mul :: "real \<Rightarrow> real \<Rightarrow> real" where
  "f64_mul a b = f64_round (a * b)"

definition avg_exits_per_run :: "vm_metrics \<Rightarrow> real" where
  "avg_exits_per_run m = (if vcpu_runs m = 0 then 0
     else f64_div (f64_of_u64 (vcpu_exits m)) (f64_of_u64 (vcpu_runs m)))"

text \<open>\<open>Duration::as_secs_f64\<close> of a number of microseconds.\<close>

definition as_secs_f64 :: "nat \<Rightarrow> real" where
  "as_secs_f64 us = f64_round (f64_round (of_nat (us div 1000000)) +
     f64_div (f64_round (of_nat (us mod 1000000 * 1000))) 1000000000)"

definition exit_rate :: "vm_metrics \<Rightarrow> real" where
  "exit_rate m = (let runtime_secs = as_secs_f64 (total_runtime m) in
     if runtime_secs = 0 then 0 else f64_div (f64_of_u64 (vcpu_exits m)) runtime_secs)"

definition instructions_per_cycle :: "vm_metrics \<Rightarrow> real" where
  "instructions_per_cycle m = (if total_cycles m = 0 then 0
     else f64_div (f64_of_u64 (total_instructions m)) (f64_of_u64 (total_cycles m)))"

definition cpu_utilization :: "vm_metrics \<Rightarrow> real" where
  "cpu_utilization m = (if total_cycles m = 0 then 0
     else (let active = saturating_sub (total_cycles m) (idle_cycles m)
           in f64_mul (f64_div (f64_of_u64 active) (f64_of_u64 (total_cycles m))) 100))"

definition vcpu_efficiency :: "vm_metrics \<Rightarrow> real" where
  "vcpu_efficiency m = (if total_runtime_us m = 0 then 0
     else f64_mul (f64_div (f64_of_u64 (vcpu_active_time_us m)) (f64_of_u64 (total_runtime_us m))) 100)"

definition error_rate :: "vm_metrics \<Rightarrow> real" where
  "error_rate m = (if vcpu_runs m = 0 then 0
     else f64_mul (f64_div (f64_of_u64 (errors m)) (f64_of_u64 (vcpu_runs m))) 100)"

section \<open>Rounding\<close>

lemma round_even_bounds: "\<lfloor>z\<rfloor> \<le> round_even z" "round_even z \<le> \<lfloor>z\<rfloor> + 1"
  by (simp_all add: round_even_def Let_def)

lemma round_even_int [simp]: "round_even (of_int k) = k"
  by (simp add: round_even_def)

lemma round_even_mono:
  assumes "x \<le> y"
  shows "round_even x \<le> round_even y"
proof (cases "\<lfloor>x\<rfloor> = \<lfloor>y\<rfloor>")
  case True
  with assms show ?thesis by (auto simp: round_even_def Let_def)
next
  case False
  with floor_mono [OF assms] have "\<lfloor>x\<rfloor> + 1 \<le> \<lfloor>y\<rfloor>" by simp
  with round_even_bounds(2) [of x] round_even_bounds(1) [of y] show ?thesis by linarith
qed

lemma f64_ulp_pos [simp]: "0 < f64_ulp x"
  by (simp add: f64_ulp_def)

lemma f64_exact:
  assumes "x / f64_ulp x = of_int k"
  shows "f64_round x = x"
proof -
  have "f64_ulp x \<noteq> 0" using f64_ulp_pos [of x] by linarith
  then show ?thesis by (simp add: f64_round_def assms) (simp flip: assms)
qed

text \<open>The rounded value stays in the binade of the number or is its upper end.\<close>

lemma f64_binade:
  assumes "0 < x" and "e = \<lfloor>log 2 x\<rfloor>"
  shows "2 powr of_int e \<le> f64_round x" and "f64_round x \<le> 2 powr (of_int e + 1)"
proof -
  have le: "2 powr of_int e \<le> x" "x < 2 powr (of_int e + 1)"
  proof -
    have "of_int e \<le> log 2 x" "log 2 x < of_int e + 1" using assms(2) by linarith+
    then show "2 powr of_int e \<le> x" "x < 2 powr (of_int e + 1)"
      using assms(1) by (simp_all add: le_log_iff log_less_iff)
  qed
  let ?c = "2 powr of_int e :: real"
  have "f64_ulp x = 2 powr (of_int e - 52)" using assms by (simp add: f64_ulp_def)
  also have "\<dots> = ?c / 2 ^ 52" by (simp only: powr_diff powr_numeral zero_less_numeral)
  finally have u: "f64_ulp x = ?c / 2 ^ 52" .
  have c: "0 < ?c" "2 powr (of_int e + 1) = ?c * 2" by (simp_all add: powr_add)
  have s: "?c / f64_ulp x = of_int (2 ^ 52)" "2 powr (of_int e + 1) / f64_ulp x = of_int (2 ^ 53)"
    unfolding u c(2) using c(1) by simp_all
  have "of_int (2 ^ 52) \<le> x / f64_ulp x" "x / f64_ulp x \<le> of_int (2 ^ 53)"
    unfolding s [symmetric] using le by (intro divide_right_mono; simp add: less_imp_le)+
  then have "(2 ^ 52 :: int) \<le> round_even (x / f64_ulp x)" "round_even (x / f64_ulp x) \<le> 2 ^ 53"
    using round_even_mono [of "of_int (2 ^ 52)" "x / f64_ulp x"]
      round_even_mono [of "x / f64_ulp x" "of_int (2 ^ 53)"] by (simp_all only: round_even_int)
  then have "of_int (2 ^ 52) * f64_ulp x \<le> f64_round x" "f64_round x \<le> of_int (2 ^ 53) * f64_ulp x"
    using assms(1) by (simp_all add: f64_round_def del: of_int_power of_int_numeral)
  moreover have "of_int (2 ^ 52) * f64_ulp x = ?c" "of_int (2 ^ 53) * f64_ulp x = 2 powr (of_int e + 1)"
    unfolding u c(2) by simp_all
  ultimately show "2 powr of_int e \<le> f64_round x" "f64_round x \<le> 2 powr (of_int e + 1)"
    by (simp_all only:)
qed

lemma f64_round_nonneg: "0 \<le> x \<Longrightarrow> 0 \<le> f64_round x"
  using order_trans [OF powr_ge_zero f64_binade(1) [OF _ refl], of x]
  by (cases "x = 0") (simp_all add: f64_round_def)

lemma f64_round_mono:
  assumes "0 \<le> x" and "x \<le> y"
  shows "f64_round x \<le> f64_round y"
proof (cases "x = 0")
  case True
  then show ?thesis using f64_round_nonneg [of y] assms(2) by (simp add: f64_round_def)
next
  case False
  with assms have pos: "0 < x" "0 < y" by simp_all
  let ?e = "\<lfloor>log 2 x\<rfloor>" and ?f = "\<lfloor>log 2 y\<rfloor>"
  have "?e \<le> ?f" using pos assms(2) by (intro floor_mono) simp
  then consider "?e = ?f" | "?e + 1 \<le> ?f" by linarith
  then show ?thesis
  proof cases
    case 1
    then have u: "f64_ulp x = f64_ulp y" using pos by (simp add: f64_ulp_def)
    have "round_even (x / f64_ulp y) \<le> round_even (y / f64_ulp y)"
      by (rule round_even_mono) (use assms(2) in \<open>simp add: divide_right_mono less_imp_le\<close>)
    with pos u show ?thesis by (simp add: f64_round_def)
  next
    case 2
    have "f64_round x \<le> 2 powr (of_int ?e + 1)" using f64_binade(2) [OF pos(1) refl] .
    also have "\<dots> \<le> 2 powr of_int ?f" using 2 by (intro powr_mono) linarith+
    also have "\<dots> \<le> f64_round y" using f64_binade(1) [OF pos(2) refl] .
    finally show ?thesis .
  qed
qed

lemma f64_round_1 [simp]: "f64_round 1 = 1"
  by (rule f64_exact [where k = "2 ^ 52"]) (simp add: f64_ulp_def powr_minus)

lemma f64_round_100 [simp]: "f64_round 100 = 100"
proof (rule f64_exact)
  have "(6 :: real) \<le> log 2 100" "log 2 (100 :: real) < 7"
    by (simp_all add: le_log_iff log_less_iff)
  then have "\<lfloor>log 2 (100 :: real)\<rfloor> = 6" by linarith
  then show "100 / f64_ulp 100 = of_int (100 * 2 ^ 46)" by (simp add: f64_ulp_def powr_minus)
qed

text \<open>A quotient of counters whose numerator is not larger, in percent.\<close>

lemma f64_percent:
  assumes "a \<le> b" and "b \<noteq> 0"
  shows "0 \<le> f64_mul (f64_div (f64_of_u64 a) (f64_of_u64 b)) 100"
    and "f64_mul (f64_div (f64_of_u64 a) (f64_of_u64 b)) 100 \<le> 100"
proof -
  let ?x = "f64_of_u64 a" and ?y = "f64_of_u64 b"
  have "f64_round 0 \<le> f64_round (real i) \<and> f64_round (real i) \<le> f64_round (real j) \<and>
      f64_round 1 \<le> f64_round (real j)" if "i \<le> j" "0 < j" for i j :: nat
    using that by (intro conjI f64_round_mono) simp_all
  from this [of "unat a" "unat b"] have xy: "0 \<le> ?x" "?x \<le> ?y" "1 \<le> ?y"
    using assms by (simp_all add: f64_of_u64_def word_le_nat_alt unat_gt_0 f64_round_def [of 0] del: of_nat_unat)
  then have q: "0 \<le> ?x / ?y" "?x / ?y \<le> 1" by simp_all
  have r: "0 \<le> f64_div ?x ?y" "f64_div ?x ?y \<le> 1"
    using f64_round_nonneg [OF q(1)] f64_round_mono [OF q] by (simp_all add: f64_div_def)
  then show "0 \<le> f64_mul (f64_div ?x ?y) 100" "f64_mul (f64_div ?x ?y) 100 \<le> 100"
    using f64_round_nonneg [of "f64_div ?x ?y * 100"] f64_round_mono [of "f64_div ?x ?y * 100" 100]
    by (simp_all add: f64_mul_def)
qed

text \<open>
  The processor utilisation is a percentage: whatever the counters hold, also after they have
  wrapped or when more idle cycles than cycles have been recorded, the value computed in double
  arithmetic lies between 0 and 100.
\<close>

theorem cpu_utilization_percentage: "0 \<le> cpu_utilization m \<and> cpu_utilization m \<le> 100"
proof (cases "total_cycles m = 0")
  case False
  have "saturating_sub (total_cycles m) (idle_cycles m) \<le> total_cycles m"
    by (simp add: saturating_sub_def word_sub_le not_less)
  from f64_percent [OF this False] False show ?thesis by (simp add: cpu_utilization_def Let_def)
qed (simp add: cpu_utilization_def)


section \<open>Traces of recorded events\<close>

datatype metric_event =
    Vcpu_Run | Vcpu_Exit | Instructions u64 | Io_Exit | Mmio_Exit | Hlt_Exit | Interrupt_Exit
  | Exception_Exit | Error_Event | Hardware_Failure | Timeout_Event | Memory_Read | Memory_Write
  | Memory_Fault | Cycles u64 | Idle_Cycles u64 | Runtime nat | Active_Time nat

fun record_event :: "metric_event \<Rightarrow> vm_metrics \<Rightarrow> vm_metrics" where
  "record_event Vcpu_Run = record_vcpu_run"
| "record_event Vcpu_Exit = record_vcpu_exit"
| "record_event (Instructions n) = record_instructions n"
| "record_event Io_Exit = record_io_exit"
| "record_event Mmio_Exit = record_mmio_exit"
| "record_event Hlt_Exit = record_hlt_exit"
| "record_event Interrupt_Exit = record_interrupt_exit"
| "record_event Exception_Exit = record_exception_exit"
| "record_event Error_Event = record_error"
| "record_event Hardware_Failure = record_hardware_failure"
| "record_event Timeout_Event = record_timeout"
| "record_event Memory_Read = record_memory_read"
| "record_event Memory_Write = record_memory_write"
| "record_event Memory_Fault = record_memory_fault"
| "record_event (Cycles n) = record_cycles n"
| "record_event (Idle_Cycles n) = record_idle_cycles n"
| "record_event (Runtime us) = record_runtime us"
| "record_event (Active_Time us) = record_vcpu_active_time us"

lemmas record_defs =
  record_vcpu_run_def record_vcpu_exit_def record_instructions_def record_io_exit_def
  record_mmio_exit_def record_hlt_exit_def record_interrupt_exit_def record_exception_exit_def
  record_error_def record_hardware_failure_def record_timeout_def record_memory_read_def
  record_memory_write_def record_memory_fault_def record_cycles_def record_idle_cycles_def
  record_runtime_def record_vcpu_active_time_def

definition record_trace :: "metric_event list \<Rightarrow> vm_metrics \<Rightarrow> vm_metrics" where
  "record_trace es m = fold record_event es m"

text \<open>Every record operation adds a fixed vector to the counters.\<close>

definition metrics_add :: "vm_metrics \<Rightarrow> vm_metrics \<Rightarrow> vm_metrics" where
  "metrics_add a m = m\<lparr>vcpu_runs := vcpu_runs m + vcpu_runs a, vcpu_exits := vcpu_exits m + vcpu_exits a,
     total_instructions := total_instructions m + total_instructions a,
     io_exits := io_exits m + io_exits a, mmio_exits := mmio_exits m + mmio_exits a,
     hlt_exits := hlt_exits m + hlt_exits a, interrupt_exits := interrupt_exits m + interrupt_exits a,
     exception_exits := exception_exits m + exception_exits a, errors := errors m + errors a,
     hardware_failures := hardware_failures m + hardware_failures a,
     timeout_events := timeout_events m + timeout_events a,
     memory_reads := memory_reads m + memory_reads a, memory_writes := memory_writes m + memory_writes a,
     memory_faults := memory_faults m + memory_faults a, total_cycles := total_cycles m + total_cycles a,
     idle_cycles := idle_cycles m + idle_cycles a,
     total_runtime_us := total_runtime_us m + total_runtime_us a,
     vcpu_active_time_us := vcpu_active_time_us m + vcpu_active_time_us a\<rparr>"

lemma record_event_add:
  "record_event e m = (if enabled m then metrics_add (record_event e metrics_new) m else m)"
  by (cases e) (cases m; simp add: record_defs metrics_add_def metrics_new_def)+

lemma metrics_add_comm: "metrics_add a (metrics_add b m) = metrics_add b (metrics_add a m)"
  by (simp add: metrics_add_def add.assoc add.commute add.left_commute)

lemma metrics_add_enabled [simp]: "enabled (metrics_add a m) = enabled m"
  by (simp add: metrics_add_def)

lemma record_event_enabled [simp]: "enabled (record_event e m) = enabled m"
  by (simp add: record_event_add)

lemma record_trace_enabled [simp]: "enabled (record_trace es m) = enabled m"
  unfolding record_trace_def by (induction es arbitrary: m) simp_all

lemma record_event_comm: "record_event e (record_event f m) = record_event f (record_event e m)"
  by (cases "enabled m")
    (simp_all add: record_event_add [of e] record_event_add [of f] metrics_add_comm)

text \<open>
  The counters do not depend on the interleaving: whatever order the vCPU threads' record
  operations reach the counters in, the same operations give the same final counters. This is what
  makes relaxed atomics sufficient.
\<close>

theorem metrics_order_irrelevant:
  assumes "mset es = mset fs"
  shows "record_trace es m = record_trace fs m"
  unfolding record_trace_def
  by (rule fold_multiset_equiv [THEN fun_cong]) (use assms in \<open>auto simp: record_event_comm\<close>)

theorem metrics_order_irrelevant_witness:
  "record_trace [Io_Exit, Vcpu_Run, Cycles 5] metrics_new = record_trace [Cycles 5, Io_Exit, Vcpu_Run] metrics_new"
  by (rule metrics_order_irrelevant) simp


lemma record_trace_snoc [simp]: "record_trace (es @ [e]) m = record_event e (record_trace es m)"
  by (simp add: record_trace_def)

lemma record_trace_Nil [simp]: "record_trace [] m = m"
  by (simp add: record_trace_def)

text \<open>
  The books balance. After any trace recorded from a fresh enabled object, the exit counter is the
  sum of the five classified exit counters and the exits recorded without a class, and the error
  counter is the sum of hardware failures and plain errors, modulo the width of the counters.
\<close>

theorem metrics_books_balance:
  "let m = record_trace es metrics_new in
     vcpu_exits m = io_exits m + mmio_exits m + hlt_exits m + interrupt_exits m + exception_exits m +
       of_nat (count_list es Vcpu_Exit) \<and>
     errors m = hardware_failures m + of_nat (count_list es Error_Event) \<and>
     vcpu_runs m = of_nat (count_list es Vcpu_Run)"
proof (induction es rule: rev_induct)
  case (snoc e es)
  have en: "enabled (record_trace es metrics_new)" by (simp add: metrics_new_def)
  show ?case
    using snoc en by (cases e) (simp_all add: Let_def record_defs count_list_append)
qed (simp add: metrics_new_def)

lemma record_trace_counts:
  assumes "enabled m"
  shows "vcpu_runs (record_trace es m) = vcpu_runs m + of_nat (count_list es Vcpu_Run)"
    and "io_exits (record_trace es m) = io_exits m + of_nat (count_list es Io_Exit)"
proof (induction es rule: rev_induct)
  case (snoc e es)
  have en: "enabled (record_trace es m)" using assms by simp
  { case 1 show ?case using snoc(1) en by (cases e) (simp_all add: record_defs count_list_append) }
  { case 2 show ?case using snoc(2) en by (cases e) (simp_all add: record_defs count_list_append) }
qed simp_all

lemma saturating_sub_count:
  assumes "unat a + n < 2 ^ 64"
  shows "unat (saturating_sub (a + of_nat n) a) = n"
proof -
  have n: "unat (of_nat n :: u64) = n" using assms by (intro unat_of_nat_small) simp
  then have "unat (a + of_nat n) = unat a + n" using assms by (simp add: unat_plus_no_overflow)
  then have "\<not> a + of_nat n < a" by (simp add: word_less_nat_alt)
  then show ?thesis using n by (simp add: saturating_sub_def)
qed

text \<open>
  The difference of two snapshots counts what happened in between, as long as the counters have
  not wrapped: the runs and the I/O exits of the trace between them, and the time that passed.
\<close>

theorem metrics_delta_counts:
  assumes "enabled m" and "t \<le> t'"
    and "unat (vcpu_runs m) + count_list es Vcpu_Run < 2 ^ 64"
    and "unat (io_exits m) + count_list es Io_Exit < 2 ^ 64"
  shows "let d = delta (snapshot t' (record_trace es m)) (snapshot t m) in
    unat (md_vcpu_runs d) = count_list es Vcpu_Run \<and> unat (md_io_exits d) = count_list es Io_Exit \<and>
    t + md_duration d = t'"
  using assms
  by (simp add: delta_def snapshot_def record_trace_counts [OF assms(1)] saturating_sub_count Let_def)

theorem metrics_delta_counts_witness:
  "unat (md_vcpu_runs (delta (snapshot 7 (record_trace [Vcpu_Run, Io_Exit, Vcpu_Run] metrics_new))
     (snapshot 3 metrics_new))) = 2"
  using metrics_delta_counts [of metrics_new 3 7 "[Vcpu_Run, Io_Exit, Vcpu_Run]"]
  by (simp add: metrics_new_def Let_def)

text \<open>
  The switch: a disabled object records nothing, whatever the trace, and is not reset; an enabled
  one is reset to the state of a fresh object.
\<close>

theorem metrics_switch:
  "record_trace es (metrics_disable m) = metrics_disable m \<and>
   metrics_reset m = (if enabled m then metrics_new else m) \<and>
   metrics_reset (metrics_disable m) = metrics_disable m"
proof -
  have "record_trace es (metrics_disable m) = metrics_disable m"
    by (induction es rule: rev_induct)
      (simp_all add: record_event_add [of _ "metrics_disable m"], simp_all add: metrics_disable_def)
  moreover have "metrics_reset m = (if enabled m then metrics_new else m)"
    by (cases m) (simp add: metrics_reset_def metrics_new_def)
  ultimately show ?thesis by (simp add: metrics_reset_def metrics_disable_def)
qed


end
