(* ===== verification/Ax_Report.thy ===== *)
theory Ax_Report
  imports Ax_Metrics
begin

text \<open>
  The report that is printed when the machine has ended: \<open>Display\<close> of \<open>VmMetrics\<close>
  (\<open>src/axvm_core/src/metrics.rs\<close>, printed by \<open>main\<close>) with the formats it uses: decimal integers, \<open>{:.2}\<close> and \<open>{:.4}\<close> of a
  double, and \<open>{:?}\<close> of a \<open>Duration\<close>. The theorem is that the report can be read back.
\<close>

section \<open>Formats\<close>

definition show_bool :: "bool \<Rightarrow> string" where
  "show_bool b = (if b then ''true'' else ''false'')"

primrec show_padded :: "nat \<Rightarrow> nat \<Rightarrow> string" where
  "show_padded 0 n = []"
| "show_padded (Suc k) n = show_padded k (n div 10) @ [digit_char (n mod 10)]"

text \<open>\<open>{:.k}\<close> of a double that is not negative: rounded to \<open>k\<close> places, ties to even.\<close>

definition show_fixed :: "nat \<Rightarrow> real \<Rightarrow> string" where
  "show_fixed k x = (let n = nat (round_even (x * 10 ^ k)) in
     show_dec (n div 10 ^ k) @ ''.'' @ show_padded k (n mod 10 ^ k))"

text \<open>\<open>{:?}\<close> of a duration: the largest unit that is not zero, and the places that are not zero.\<close>

fun frac_digits :: "nat \<Rightarrow> nat \<Rightarrow> string" where
  "frac_digits part divisor = (if part = 0 \<or> divisor = 0 then []
     else digit_char (part div divisor) # frac_digits (part mod divisor) (divisor div 10))"

declare frac_digits.simps [simp del]

definition fmt_decimal :: "nat \<Rightarrow> nat \<Rightarrow> nat \<Rightarrow> string \<Rightarrow> string" where
  "fmt_decimal integer part divisor suffix = show_dec integer @
     (let ds = frac_digits part divisor in if ds = [] then [] else CHR ''.'' # ds) @ suffix"

definition micro_sign :: string where
  "micro_sign = [CHR 0xC2, CHR 0xB5]"

definition show_duration :: "nat \<Rightarrow> string" where
  "show_duration us = (let secs = us div 1000000; nanos = us mod 1000000 * 1000 in
     if 0 < secs then fmt_decimal secs nanos 100000000 ''s''
     else if 1000000 \<le> nanos then fmt_decimal (nanos div 1000000) (nanos mod 1000000) 100000 ''ms''
     else if 1000 \<le> nanos then fmt_decimal (nanos div 1000) (nanos mod 1000) 100 (micro_sign @ ''s'')
     else fmt_decimal nanos 0 1 ''ns'')"

section \<open>The report\<close>

definition newline :: char where "newline = CHR 0x0A"

definition writeln :: "string list \<Rightarrow> string" where
  "writeln ls = concat (map (\<lambda>l. l @ [newline]) ls)"

abbreviation show_u64 :: "u64 \<Rightarrow> string" where
  "show_u64 w \<equiv> show_dec (unat w)"

definition report_lines :: "vm_metrics \<Rightarrow> string list" where
  "report_lines m =
    [''VM Metrics:'',
     ''  Enabled:           '' @ show_bool (enabled m),
     ''  vCPU Runs:         '' @ show_u64 (vcpu_runs m),
     ''  vCPU Exits:        '' @ show_u64 (vcpu_exits m),
     ''  - I/O Exits:       '' @ show_u64 (io_exits m),
     ''  - MMIO Exits:      '' @ show_u64 (mmio_exits m),
     ''  - HLT Exits:       '' @ show_u64 (hlt_exits m),
     ''  - Interrupts:      '' @ show_u64 (interrupt_exits m),
     ''  - Exceptions:      '' @ show_u64 (exception_exits m),
     ''  Errors:            '' @ show_u64 (errors m),
     ''  Hardware Failures: '' @ show_u64 (hardware_failures m),
     ''  Memory Ops:        '' @ show_u64 (memory_reads m) @ '' reads, '' @ show_u64 (memory_writes m) @ '' writes'',
     ''  Total Runtime:     '' @ show_duration (total_runtime m),
     ''  CPU Utilization:   '' @ show_fixed 2 (cpu_utilization m) @ ''%'',
     ''  vCPU Efficiency:   '' @ show_fixed 2 (vcpu_efficiency m) @ ''%'',
     ''  Error Rate:        '' @ show_fixed 4 (error_rate m) @ ''%'']"

definition display_metrics :: "vm_metrics \<Rightarrow> string" where
  "display_metrics m = writeln (report_lines m)"

text \<open>What \<open>main\<close> prints after all threads have ended.\<close>

definition exit_report :: "vm_metrics \<Rightarrow> string" where
  "exit_report m = [newline] @ ''>>> [Exit] AxVM terminated.'' @ [newline] @ [newline] @ display_metrics m @ [newline]"

section \<open>Reading it back\<close>

definition is_digit :: "char \<Rightarrow> bool" where
  "is_digit c \<longleftrightarrow> 48 \<le> (of_char c :: nat) \<and> (of_char c :: nat) < 58"

definition dec_value :: "string \<Rightarrow> nat" where
  "dec_value s = foldl (\<lambda>n c. 10 * n + (of_char c - 48)) 0 s"

fun frac_value :: "nat \<Rightarrow> string \<Rightarrow> nat" where
  "frac_value d [] = 0"
| "frac_value d (c # cs) = (of_char c - 48) * d + frac_value (d div 10) cs"

definition read_dec :: "string \<Rightarrow> nat \<times> string" where
  "read_dec s = (dec_value (takeWhile is_digit s), dropWhile is_digit s)"

text \<open>A duration: its integral part, the places after the point and the unit; and its nanoseconds.\<close>

definition duration_parts :: "string \<Rightarrow> nat \<times> string \<times> string" where
  "duration_parts s = (let (i, r) = read_dec s in
     if take 1 r = ''.'' then (i, takeWhile is_digit (tl r), dropWhile is_digit (tl r)) else (i, [], r))"

definition read_duration :: "string \<Rightarrow> nat" where
  "read_duration s = (let (i, places, unit) = duration_parts s in
     if unit = ''s'' then i * 1000000000 + frac_value 100000000 places
     else if unit = ''ms'' then i * 1000000 + frac_value 100000 places
     else if unit = micro_sign @ ''s'' then i * 1000 + frac_value 100 places
     else i)"

fun split_lines :: "string \<Rightarrow> string \<Rightarrow> string list" where
  "split_lines acc [] = []"
| "split_lines acc (c # cs) = (if c = newline then acc # split_lines [] cs else split_lines (acc @ [c]) cs)"

definition value_of :: "string \<Rightarrow> string" where
  "value_of l = drop 21 l"

text \<open>What the report says: the switch, the counters line by line, the runtime in microseconds.\<close>

definition read_report :: "string \<Rightarrow> bool \<times> nat list \<times> nat \<times> nat \<times> nat" where
  "read_report s =
     (let ls = drop 3 (split_lines [] s); ops = value_of (ls ! 11) in
      (value_of (ls ! 1) = ''true'', map (\<lambda>l. fst (read_dec (value_of l))) (take 9 (drop 2 ls)),
       fst (read_dec ops), fst (read_dec (drop 8 (snd (read_dec ops)))), read_duration (value_of (ls ! 12)) div 1000))"

section \<open>Decimal numbers\<close>

lemma digit_value: "d < 10 \<Longrightarrow> of_char (digit_char d) - 48 = d" "d < 10 \<Longrightarrow> is_digit (digit_char d)"
  by (simp_all add: digit_char_def is_digit_def)

lemma dec_value_snoc [simp]: "dec_value (s @ [c]) = 10 * dec_value s + (of_char c - 48)"
  by (simp add: dec_value_def)

lemma show_dec_digits: "\<forall>c \<in> set (show_dec n). is_digit c"
  unfolding show_dec_def
  by (induction "10 :: nat" n rule: show_base.induct) (subst show_base.simps, auto simp: digit_value)

lemma dec_value_show [simp]: "dec_value (show_dec n) = n"
  unfolding show_dec_def
proof (induction "10 :: nat" n rule: show_base.induct)
  case (1 n)
  then show ?case
    by (subst show_base.simps) (auto simp: digit_value dec_value_snoc [of "[]", simplified] dec_value_def)
qed

lemma read_dec_show:
  assumes "r = [] \<or> \<not> is_digit (hd r)"
  shows "read_dec (show_dec n @ r) = (n, r)"
proof -
  have "takeWhile is_digit (show_dec n @ r) = show_dec n @ takeWhile is_digit r"
    "dropWhile is_digit (show_dec n @ r) = dropWhile is_digit r"
    using show_dec_digits [of n] by (simp_all add: takeWhile_append2 dropWhile_append2)
  moreover have "takeWhile is_digit r = []" "dropWhile is_digit r = r" using assms by (cases r; simp)+
  ultimately show ?thesis by (simp add: read_dec_def)
qed

lemma show_padded_digits: "\<forall>c \<in> set (show_padded k n). is_digit c"
  by (induction k arbitrary: n) (auto simp: digit_value)

section \<open>Durations\<close>

lemma frac_digits_value:
  "part < 10 ^ Suc k \<Longrightarrow> (\<forall>c \<in> set (frac_digits part (10 ^ k)). is_digit c) \<and>
     frac_value (10 ^ k) (frac_digits part (10 ^ k)) = part"
proof (induction k arbitrary: part)
  case 0
  have "frac_digits part 1 = (if part = 0 then [] else [digit_char part])"
    by (simp add: frac_digits.simps [of part] frac_digits.simps [of 0])
  with 0 show ?case by (simp add: digit_value)
next
  case (Suc k)
  let ?d = "10 ^ Suc k :: nat"
  have "part div ?d < 10" using Suc.prems by (simp add: less_mult_imp_div_less mult.commute)
  moreover have "part mod ?d < 10 ^ Suc k" by simp
  note rest = Suc.IH [OF this]
  moreover have "?d div 10 = 10 ^ k" by simp
  ultimately show ?case
    using frac_digits.simps [of part ?d] div_mult_mod_eq [of part ?d] by (simp add: digit_value)
qed

lemma fmt_decimal_parts:
  assumes "part < 10 ^ Suc k" and "d = 10 ^ k" and "suffix = c # cs" and "\<not> is_digit c" and "c \<noteq> CHR ''.''"
  shows "duration_parts (fmt_decimal i part d suffix) = (i, frac_digits part d, suffix)"
proof -
  let ?ds = "frac_digits part d"
  let ?r = "(if ?ds = [] then [] else CHR ''.'' # ?ds) @ suffix"
  have dig: "\<forall>c \<in> set ?ds. is_digit c" using frac_digits_value [OF assms(1)] assms(2) by simp
  have "\<not> is_digit (CHR ''.'')" by (simp add: is_digit_def)
  then have "read_dec (show_dec i @ ?r) = (i, ?r)"
    by (intro read_dec_show) (use assms(3,4) in auto)
  moreover have "takeWhile is_digit (?ds @ suffix) = ?ds" "dropWhile is_digit (?ds @ suffix) = suffix"
    using dig assms(3,4) by (auto simp: takeWhile_append2 dropWhile_append2)
  ultimately show ?thesis
    using assms(3,5) by (auto simp: duration_parts_def fmt_decimal_def Let_def)
qed

lemma read_show_duration: "read_duration (show_duration us) = us * 1000"
proof -
  let ?secs = "us div 1000000" and ?nanos = "us mod 1000000 * 1000"
  have "?secs * 1000000 + us mod 1000000 = us" by (rule div_mult_mod_eq)
  then have us: "?secs * 1000000000 + ?nanos = us * 1000" by linarith
  have nd: "\<not> is_digit (CHR ''s'')" "\<not> is_digit (CHR ''m'')" "\<not> is_digit (CHR ''n'')" "\<not> is_digit (CHR 0xC2)"
    by (simp_all add: is_digit_def)
  have v: "frac_value (10 ^ k) (frac_digits p (10 ^ k)) = p" if "p < 10 ^ Suc k" for p k
    using frac_digits_value [OF that] by simp
  consider "0 < ?secs" | "?secs = 0" "1000000 \<le> ?nanos" | "?secs = 0" "?nanos < 1000000" "1000 \<le> ?nanos" | "?secs = 0" "?nanos < 1000"
    by linarith
  then show ?thesis
  proof cases
    case 1
    then show ?thesis
      using v [of ?nanos 8] us nd
      by (simp add: show_duration_def read_duration_def fmt_decimal_parts [where k = 8] Let_def)
  next
    case 2
    then show ?thesis
      using v [of "?nanos mod 1000000" 5] us nd div_mult_mod_eq [of ?nanos 1000000]
      by (simp add: show_duration_def read_duration_def fmt_decimal_parts [where k = 5] Let_def)
  next
    case 3
    then show ?thesis
      using v [of "?nanos mod 1000" 2] us nd
      by (simp add: show_duration_def read_duration_def fmt_decimal_parts [where k = 2] Let_def micro_sign_def)
  next
    case 4
    then show ?thesis
      using us nd by (simp add: show_duration_def read_duration_def fmt_decimal_parts [where k = 0] Let_def micro_sign_def)
  qed
qed

section \<open>Lines\<close>

lemma split_line: "newline \<notin> set l \<Longrightarrow> split_lines acc (l @ newline # s) = (acc @ l) # split_lines [] s"
  by (induction l arbitrary: acc) auto

lemma split_writeln: "\<forall>l \<in> set ls. newline \<notin> set l \<Longrightarrow> split_lines [] (writeln ls) = ls"
  by (induction ls) (simp_all add: writeln_def split_line)

lemma not_newline_digit: "is_digit c \<Longrightarrow> c \<noteq> newline"
  by (auto simp: is_digit_def newline_def)

lemma show_no_newline [simp]:
  "newline \<notin> set (show_dec n)" "newline \<notin> set (show_fixed k x)" "newline \<notin> set (show_bool b)"
proof -
  show d: "newline \<notin> set (show_dec n)" for n using show_dec_digits not_newline_digit by blast
  have "newline \<notin> set (show_padded k n)" for n using show_padded_digits not_newline_digit by blast
  then show "newline \<notin> set (show_fixed k x)" by (simp add: show_fixed_def Let_def d) (simp add: newline_def)
  show "newline \<notin> set (show_bool b)" by (simp add: show_bool_def newline_def)
qed

lemma fmt_decimal_no_newline:
  assumes "part < 10 ^ Suc k" and "d = 10 ^ k" and "newline \<notin> set suffix"
  shows "newline \<notin> set (fmt_decimal i part d suffix)"
proof -
  have "newline \<notin> set (frac_digits part d)"
    using frac_digits_value [OF assms(1)] assms(2) not_newline_digit by blast
  moreover have "newline \<noteq> CHR ''.''" by (simp add: newline_def)
  ultimately show ?thesis using assms(3) by (auto simp: fmt_decimal_def Let_def)
qed

lemma show_duration_no_newline [simp]: "newline \<notin> set (show_duration us)"
proof -
  have "newline \<notin> set ''s''" "newline \<notin> set ''ms''" "newline \<notin> set (micro_sign @ ''s'')" "newline \<notin> set ''ns''"
    by (simp_all add: newline_def micro_sign_def)
  note unit = this
  have "newline \<notin> set (fmt_decimal i (x mod 1000000) 100000 ''ms'')" for i x
    by (rule fmt_decimal_no_newline [OF _ _ unit(2), where k = 5]) simp_all
  then show ?thesis
    unfolding show_duration_def Let_def
    using fmt_decimal_no_newline [OF _ _ unit(1), of "us mod 1000000 * 1000" 8 100000000]
      fmt_decimal_no_newline [OF _ _ unit(3), of "us mod 1000000 * 1000 mod 1000" 2 100]
      fmt_decimal_no_newline [OF _ _ unit(4), of 0 0 1] by simp
qed

lemma report_no_newline: "\<forall>l \<in> set (report_lines m). newline \<notin> set l"
proof -
  have "newline \<notin> set ''VM Metrics: EnabledvCPURsxtI/OLHTupckyarfwdil-%,oFmz''" by (simp add: newline_def)
  then show ?thesis by (simp add: report_lines_def)
qed

lemma split_report: "drop 3 (split_lines [] (exit_report m)) = report_lines m @ [[]]"
proof -
  have "newline \<notin> set ''>>> [Exit] AxVM terminated.''" by (simp add: newline_def)
  then have "\<forall>l \<in> set ([[], ''>>> [Exit] AxVM terminated.'', []] @ report_lines m @ [[]]). newline \<notin> set l"
    using report_no_newline [of m] by simp
  from split_writeln [OF this]
  have "split_lines [] (exit_report m) = [[], ''>>> [Exit] AxVM terminated.'', []] @ report_lines m @ [[]]"
    by (simp add: exit_report_def display_metrics_def writeln_def)
  then show ?thesis by simp
qed

text \<open>
  C16. The final report can be read back: from the text that is printed when the machine has ended the
  switch, all the counters it shows and the runtime to the microsecond are recovered, line by line,
  whatever the counters are and whatever the percentages at its end come to.
\<close>

theorem report_roundtrip:
  "read_report (exit_report m) =
     (enabled m, map unat [vcpu_runs m, vcpu_exits m, io_exits m, mmio_exits m, hlt_exits m, interrupt_exits m,
        exception_exits m, errors m, hardware_failures m],
      unat (memory_reads m), unat (memory_writes m), total_runtime m)"
proof -
  have d: "read_dec (show_dec n) = (n, [])" for n using read_dec_show [of "[]" n] by simp
  have r: "read_dec (show_dec n @ CHR '' '' # s) = (n, CHR '' '' # s)" for n s
    by (rule read_dec_show) (simp add: is_digit_def)
  have "value_of ((report_lines m @ [[]]) ! 11) = show_dec (unat (memory_reads m)) @ '' reads, '' @ show_dec (unat (memory_writes m)) @ '' writes''"
    "value_of ((report_lines m @ [[]]) ! 12) = show_duration (total_runtime m)"
    "value_of ((report_lines m @ [[]]) ! 1) = show_bool (enabled m)"
    by (simp_all add: report_lines_def value_of_def)
  moreover have "map (\<lambda>l. fst (read_dec (value_of l))) (take 9 (drop 2 (report_lines m @ [[]]))) =
      map unat [vcpu_runs m, vcpu_exits m, io_exits m, mmio_exits m, hlt_exits m, interrupt_exits m,
        exception_exits m, errors m, hardware_failures m]"
    by (simp add: report_lines_def value_of_def d)
  ultimately show ?thesis
    by (simp add: read_report_def split_report Let_def r read_show_duration show_bool_def)
qed

end
