(* ===== verification/Ax_Config.thy ===== *)
theory Ax_Config
  imports Ax_Memory
begin

text \<open>
  The command line configuration (\<open>src/axvm_core/src/config.rs\<close>). Parsing is done by \<open>clap\<close>; the model
  starts from the parsed record. The number of host processors and the test whether a path exists
  are parameters.
\<close>

section \<open>Definitions\<close>

record vm_config =
  memory :: usize
  vcpus :: u8
  kernel :: string
  disk :: "string option"
  cmdline :: string
  verbose :: u8
  no_metrics :: bool

definition DEFAULT_CMDLINE :: string where
  "DEFAULT_CMDLINE = ''console=ttyS0 earlyprintk=serial reboot=k panic=1 nokaslr noapic '' @
     ''virtio_mmio.device=4K@0xFEB00000:5 virtio_mmio.device=4K@0xFEB10000:6 root=/dev/vda rw''"

definition config_default :: vm_config where
  "config_default = \<lparr>memory = 1024, vcpus = 1, kernel = ''bzImage'', disk = None,
     cmdline = DEFAULT_CMDLINE, verbose = 1, no_metrics = False\<rparr>"

definition validate :: "bool \<Rightarrow> usize \<Rightarrow> (string \<Rightarrow> bool) \<Rightarrow> vm_config \<Rightarrow> unit result exec" where
  "validate oc host_cpus path_exists c =
     (if memory c mod 2 \<noteq> 0 then
        Done (Inl (''Memory size must be a multiple of 2MB for HugePages optimization. Got: '' @
          show_dec (unat (memory c)) @ '' MB''))
      else if memory c < 128 then
        Done (Inl (''Memory size too small. Minimum: 128 MB, Got: '' @ show_dec (unat (memory c)) @ '' MB''))
      else if 64 * 1024 < memory c then
        Done (Inl (''Memory size too large. Maximum: 64 GB, Got: '' @ show_dec (unat (memory c)) @ '' MB''))
      else if vcpus c = 0 then Done (Inl ''vCPU count must be at least 1'')
      else exec_bind (umul oc host_cpus 2) (\<lambda>limit.
        if limit < ucast (vcpus c) then
          Done (Inl (''vCPU count ('' @ show_dec (unat (vcpus c)) @ '') exceeds 2x host CPUs ('' @
            show_dec (unat host_cpus) @ ''). This may cause performance issues.''))
        else if \<not> path_exists (kernel c) then Done (Inl (''Kernel image not found: '' @ kernel c))
        else (case disk c of None \<Rightarrow> Done (Inr ())
          | Some d \<Rightarrow> if \<not> path_exists d then Done (Inl (''Disk image not found: '' @ d))
              else Done (Inr ()))))"

definition log_level :: "vm_config \<Rightarrow> string" where
  "log_level c = (if verbose c = 0 then ''warn'' else if verbose c = 1 then ''info''
     else if verbose c = 2 then ''debug'' else ''trace'')"

definition memory_bytes :: "bool \<Rightarrow> vm_config \<Rightarrow> usize exec" where
  "memory_bytes oc c = exec_bind (umul oc (memory c) 1024) (\<lambda>k. umul oc k 1024)"

text \<open>Paths are strings already, so the lossy conversions are the identity.\<close>

definition kernel_path :: "vm_config \<Rightarrow> string" where
  "kernel_path c = kernel c"

definition disk_path :: "vm_config \<Rightarrow> string option" where
  "disk_path c = disk c"

section \<open>Properties\<close>

lemma validate_ok:
  assumes "validate oc host_cpus path_exists c = Done (Inr ())"
  shows "even (unat (memory c))" and "128 \<le> unat (memory c)" and "unat (memory c) \<le> 65536"
    and "vcpus c \<noteq> 0" and "path_exists (kernel c)"
    and "\<And>d. disk c = Some d \<Longrightarrow> path_exists d"
proof -
  have v: "memory c mod 2 = 0 \<and> \<not> memory c < 128 \<and> \<not> 65536 < memory c \<and> vcpus c \<noteq> 0 \<and>
      path_exists (kernel c) \<and> (\<forall>d. disk c = Some d \<longrightarrow> path_exists d)"
    using assms by (auto simp: validate_def split: if_splits option.splits)
  then have "unat (memory c mod 2) = 0" by simp
  then show "even (unat (memory c))" by (simp add: unat_mod even_iff_mod_2_eq_zero)
  from v show "128 \<le> unat (memory c)" "unat (memory c) \<le> 65536" "vcpus c \<noteq> 0" "path_exists (kernel c)"
    "\<And>d. disk c = Some d \<Longrightarrow> path_exists d"
    by (simp_all add: word_less_nat_alt)
qed

lemma memory_bytes_ok:
  assumes "unat (memory c) \<le> 65536"
  shows "memory_bytes oc c = Done (memory c * 1024 * 1024)"
    and "unat (memory c * 1024 * 1024) = unat (memory c) * 1048576"
proof -
  have k: "unat (memory c * 1024) = unat (memory c) * 1024"
    using assms by (simp add: unat_word_ariths)
  then show "unat (memory c * 1024 * 1024) = unat (memory c) * 1048576"
    using assms by (subst unat_word_ariths(2)) simp
  have "umul oc (memory c) 1024 = Done (memory c * 1024)"
    using assms by (intro umul_no_overflow) simp
  moreover have "umul oc (memory c * 1024) 1024 = Done (memory c * 1024 * 1024)"
    using assms k by (intro umul_no_overflow) simp
  ultimately show "memory_bytes oc c = Done (memory c * 1024 * 1024)" by (simp add: memory_bytes_def)
qed

text \<open>
  Validation and allocation fit together. For a configuration that validation accepts, the size
  in bytes is computed without overflow in both build profiles, lies between 128 MB and 64 GB, and
  is a multiple of the 2 MB page; so the memory allocated for it is exactly as large as the mapping
  behind it, and dropping it unmaps all of it.
\<close>

theorem validated_memory_fits:
  assumes "validate oc host_cpus path_exists c = Done (Inr ())"
    and "memory_bytes oc c = Done sz" and "gm_new oc mmap sz = Done (Inr m)"
    and "mmap 0 = None" and "gm_ptr m \<noteq> 0"
  shows "128 * 2 ^ 20 \<le> unat sz \<and> unat sz \<le> 64 * 2 ^ 30 \<and> gm_wf m \<and> gm_mapped m = unat sz \<and>
    gm_drop m = Some (gm_ptr m, sz)"
proof -
  note v = validate_ok [OF assms(1)]
  have sz: "unat sz = unat (memory c) * 1048576" using memory_bytes_ok [OF v(3)] assms(2) by auto
  moreover have "2097152 dvd unat (memory c) * (1048576 :: nat)"
    using v(1) by (auto elim!: evenE)
  ultimately have "2097152 dvd unat sz" by simp
  then have "gm_mapped m = unat sz"
    using gm_new_wf(2) [OF assms(3,4)] round_up(3) [of 2097152 "unat sz"] by simp
  moreover have "gm_wf m" using gm_new_wf(1) [OF assms(3,4)] .
  moreover have "gm_drop m = Some (gm_ptr m, sz)"
    by (rule gm_new_cases [OF assms(3)]) (simp add: gm_drop_def assms(5))
  ultimately show ?thesis using v(2,3) sz by simp
qed

theorem validated_memory_fits_witness:
  "\<exists>sz m. memory_bytes True config_default = Done sz \<and>
     gm_new True (\<lambda>n. if n = 0 then None else Some 4096) sz = Done (Inr m) \<and> gm_mapped m = unat sz \<and>
     unat sz \<le> 64 * 2 ^ 30"
proof -
  let ?mmap = "\<lambda>n :: usize. if n = 0 then None else Some 4096"
  let ?m = "\<lparr>gm_ptr = 4096, gm_len = 1073741824, gm_owned = True, gm_mapped = 1073741824, gm_bytes = (\<lambda>_. 0)\<rparr>"
  have v: "validate True 8 (\<lambda>_. True) config_default = Done (Inr ())"
    by (simp add: validate_def config_default_def umul_def)
  have b: "memory_bytes True config_default = Done 1073741824"
    by (simp add: memory_bytes_def config_default_def umul_def)
  have n: "gm_new True ?mmap 1073741824 = Done (Inr ?m)"
    by (simp add: gm_new_def uadd_def HUGE_PAGE_MASK_def Let_def)
  from validated_memory_fits [OF v b n] b n show ?thesis by auto
qed

end
