(* ===== verification/Ax_Interference.thy ===== *)
theory Ax_Interference
  imports Ax_Memory
begin

text \<open>
  Device handlers beside a running guest. The locks of the hypervisor keep other handlers out, but not
  the guest: its processors may store to guest memory between any two accesses of a handler, in the
  middle of a slice too, because a slice of guest memory is read where it is used.

  A handler is an action on a view of the memory. Before every byte it reads or writes, an environment
  \<open>guest_env\<close> may change all bytes of the memory in any way; it cannot change its size or its mapping. The view counts
  the accesses and collects the addresses it has touched, which theorems refer to. \<open>quiet\<close> is the
  environment of a guest that does nothing.
\<close>

section \<open>Views and environments\<close>

record mview =
  mv_mem :: guest_memory
  mv_time :: nat
  mv_touched :: "nat set"

type_synonym guest_env = "nat \<Rightarrow> (nat \<Rightarrow> u8) \<Rightarrow> nat \<Rightarrow> u8"

definition quiet :: guest_env where
  "quiet t f = f"

definition view_of :: "guest_memory \<Rightarrow> mview" where
  "view_of m = \<lparr>mv_mem = m, mv_time = 0, mv_touched = {}\<rparr>"

lemma view_of_sel [simp]: "mv_mem (view_of m) = m" "mv_touched (view_of m) = {}"
  by (simp_all add: view_of_def)

text \<open>What happens before the access to address \<open>a\<close>.\<close>

definition interfere :: "guest_env \<Rightarrow> nat \<Rightarrow> mview \<Rightarrow> mview" where
  "interfere E a v = \<lparr>mv_mem = (mv_mem v)\<lparr>gm_bytes := E (mv_time v) (gm_bytes (mv_mem v))\<rparr>,
     mv_time = Suc (mv_time v), mv_touched = insert a (mv_touched v)\<rparr>"

primrec fetch :: "guest_env \<Rightarrow> nat \<Rightarrow> nat \<Rightarrow> mview \<Rightarrow> bytes \<times> mview" where
  "fetch E a 0 v = ([], v)"
| "fetch E a (Suc n) v =
     (let v1 = interfere E a v; (bs, v2) = fetch E (Suc a) n v1 in (gm_bytes (mv_mem v1) a # bs, v2))"

definition poke :: "nat \<Rightarrow> u8 \<Rightarrow> mview \<Rightarrow> mview" where
  "poke a b v = v\<lparr>mv_mem := (mv_mem v)\<lparr>gm_bytes := (gm_bytes (mv_mem v))(a := b)\<rparr>\<rparr>"

primrec store :: "guest_env \<Rightarrow> nat \<Rightarrow> bytes \<Rightarrow> mview \<Rightarrow> mview" where
  "store E a [] v = v"
| "store E a (b # bs) v = store E (Suc a) bs (poke a b (interfere E a v))"

section \<open>Actions\<close>

type_synonym 'a act = "mview \<Rightarrow> ('a \<times> mview) run"

definition act_return :: "'a \<Rightarrow> 'a act" where
  "act_return x v = Some (Done (x, v))"

definition act_exec :: "'a exec \<Rightarrow> 'a act" where
  "act_exec e v = run_bind (Some e) (\<lambda>x. Some (Done (x, v)))"

definition act_bind :: "'a act \<Rightarrow> ('a \<Rightarrow> 'b act) \<Rightarrow> 'b act" where
  "act_bind f g v = run_bind (f v) (\<lambda>(x, v'). g x v')"

text \<open>The size of the memory, which does not change.\<close>

definition act_len :: "(usize \<Rightarrow> 'b act) \<Rightarrow> 'b act" where
  "act_len g v = g (gm_len (mv_mem v)) v"

definition loop_body :: "('s \<Rightarrow> ('s + 'r) act) \<Rightarrow> 's \<times> mview \<Rightarrow> (('s \<times> mview) + ('r \<times> mview)) run" where
  "loop_body body = (\<lambda>(s, v). run_bind (body s v) (\<lambda>(x, v').
     Some (Done (case x of Inl s' \<Rightarrow> Inl (s', v') | Inr r \<Rightarrow> Inr (r, v')))))"

definition act_loop :: "('s \<Rightarrow> ('s + 'r) act) \<Rightarrow> 's \<Rightarrow> 'r act" where
  "act_loop body s v = exec_loop (loop_body body) (s, v)"

lemma loop_body_Inl: "loop_body body c = Some (Done (Inl (s', v'))) \<Longrightarrow> body (fst c) (snd c) = Some (Done (Inl s', v'))"
  by (cases c) (auto simp: loop_body_def split: sum.splits)

lemma loop_body_Inr: "loop_body body c = Some (Done (Inr (r, v'))) \<Longrightarrow> body (fst c) (snd c) = Some (Done (Inr r, v'))"
  by (cases c) (auto simp: loop_body_def split: sum.splits)

text \<open>\<open>read_slice\<close> and \<open>write_slice\<close> of guest memory, with the bytes accessed one after the other.\<close>

definition read_slice_env :: "guest_env \<Rightarrow> bool \<Rightarrow> usize \<Rightarrow> usize \<Rightarrow> bytes result act" where
  "read_slice_env E oc offset n =
     act_bind (act_exec (uadd oc offset n)) (\<lambda>fin v.
       if gm_len (mv_mem v) < fin then Some (Done (Inl (read_overflow_msg offset (unat n)), v))
       else if unat offset + unat n \<le> gm_mapped (mv_mem v)
       then (let (bs, v') = fetch E (unat offset) (unat n) v in Some (Done (Inr bs, v')))
       else Some (Abort Undefined_Behaviour))"

definition write_slice_env :: "guest_env \<Rightarrow> bool \<Rightarrow> usize \<Rightarrow> bytes \<Rightarrow> unit result act" where
  "write_slice_env E oc offset data =
     act_bind (act_exec (uadd oc offset (of_nat (length data)))) (\<lambda>fin v.
       if gm_len (mv_mem v) < fin then Some (Done (Inl (write_overflow_msg offset (length data)), v))
       else if unat offset + length data \<le> gm_mapped (mv_mem v)
       then Some (Done (Inr (), store E (unat offset) data v))
       else Some (Abort Undefined_Behaviour))"

section \<open>Hoare triples for any environment\<close>

text \<open>
  From a memory of the shape of \<open>m0\<close>, the action keeps the shape and its result satisfies \<open>Q\<close>; if
  \<open>ub\<close> is set, it does not leave the memory either.
\<close>

definition run_ok :: "bool \<Rightarrow> guest_memory \<Rightarrow> ('a \<Rightarrow> bool) \<Rightarrow> ('a \<times> mview) run \<Rightarrow> bool" where
  "run_ok ub m0 Q r \<longleftrightarrow> (ub \<longrightarrow> run_ub_free r) \<and>
     (\<forall>x v. r = Some (Done (x, v)) \<longrightarrow> same_shape m0 (mv_mem v) \<and> Q x)"

definition act_ok :: "bool \<Rightarrow> guest_memory \<Rightarrow> 'a act \<Rightarrow> ('a \<Rightarrow> bool) \<Rightarrow> bool" where
  "act_ok ub m0 f Q \<longleftrightarrow> (\<forall>v. same_shape m0 (mv_mem v) \<longrightarrow> run_ok ub m0 Q (f v))"

lemma run_ok_simps [simp]:
  "run_ok ub m0 Q None"
  "run_ok ub m0 Q (Some (Abort e)) \<longleftrightarrow> (ub \<longrightarrow> e \<noteq> Undefined_Behaviour)"
  "run_ok ub m0 Q (Some (Done (x, v))) \<longleftrightarrow> same_shape m0 (mv_mem v) \<and> Q x"
  by (auto simp: run_ok_def run_ub_free_def)

named_theorems act_rules \<open>Hoare rules for actions\<close>

lemma act_okD:
  assumes "act_ok ub m0 f Q" and "same_shape m0 (mv_mem v)" and "f v = Some (Done (x, v'))"
  shows "same_shape m0 (mv_mem v')" and "Q x"
  using assms by (auto simp: act_ok_def run_ok_def)

lemma act_ok_ub: "act_ok True m0 f Q \<Longrightarrow> same_shape m0 (mv_mem v) \<Longrightarrow> run_ub_free (f v)"
  by (auto simp: act_ok_def run_ok_def)

lemma act_ok_return [act_rules]: "Q x \<Longrightarrow> act_ok ub m0 (act_return x) Q"
  by (simp add: act_ok_def act_return_def)

lemma act_ok_exec [act_rules]:
  assumes "ub \<Longrightarrow> ub_free e" and "\<And>x. e = Done x \<Longrightarrow> Q x"
  shows "act_ok ub m0 (act_exec e) Q"
  using assms by (cases e) (auto simp: act_ok_def act_exec_def ub_free_def)

lemma run_ok_bind:
  assumes "run_ok ub m0 R r" and "\<And>x v. R x \<Longrightarrow> same_shape m0 (mv_mem v) \<Longrightarrow> run_ok ub m0 Q (g x v)"
  shows "run_ok ub m0 Q (run_bind r (\<lambda>(x, v). g x v))"
  using assms by (auto simp: run_bind_def split: option.split exec.split)

lemma act_ok_bind:
  assumes "act_ok ub m0 f R" and "\<And>x. R x \<Longrightarrow> act_ok ub m0 (g x) Q"
  shows "act_ok ub m0 (act_bind f g) Q"
  using assms by (auto simp: act_ok_def act_bind_def intro!: run_ok_bind)

lemma act_ok_seq:
  assumes "act_ok ub m0 f (\<lambda>_. True)" and "\<And>x. act_ok ub m0 (g x) Q"
  shows "act_ok ub m0 (act_bind f g) Q"
  using assms by (rule act_ok_bind)

lemma act_ok_len [act_rules]: "act_ok ub m0 (g (gm_len m0)) Q \<Longrightarrow> act_ok ub m0 (act_len g) Q"
  by (auto simp: act_ok_def act_len_def same_shape_def)

lemma act_ok_exec_bind:
  assumes "ub \<Longrightarrow> ub_free e" and "\<And>x. e = Done x \<Longrightarrow> act_ok ub m0 (g x) Q"
  shows "act_ok ub m0 (act_bind (act_exec e) g) Q"
  by (rule act_ok_bind [OF act_ok_exec [where Q = "\<lambda>x. e = Done x"]]) (use assms in auto)

lemma act_ok_loop:
  assumes "I s" and "\<And>s. I s \<Longrightarrow> act_ok ub m0 (body s) (\<lambda>x. case x of Inl s' \<Rightarrow> I s' | Inr r \<Rightarrow> Q r)"
  shows "act_ok ub m0 (act_loop body s) Q"
  unfolding act_ok_def
proof (intro allI impI)
  fix v :: mview assume v: "same_shape m0 (mv_mem v)"
  let ?I = "\<lambda>c. I (fst c) \<and> same_shape m0 (mv_mem (snd c))"
  let ?P = "\<lambda>x. case x of Inl s' \<Rightarrow> I s' | Inr r \<Rightarrow> Q r"
  have body: "run_ok ub m0 ?P (body (fst c) (snd c))" if "?I c" for c
    using assms(2) [of "fst c"] that by (simp add: act_ok_def)
  have "run_ok ub m0 Q (Some out)" if "exec_loop (loop_body body) (s, v) = Some out" for out
  proof (rule exec_loop_invariant [where I = ?I and Q = "\<lambda>x. run_ok ub m0 Q (Some x)", OF that])
    show "?I (s, v)" using assms(1) v by simp
    show "?I c'" if "?I c" "loop_body body c = Some (Done (Inl c'))" for c c'
      using that body [of c] by (cases c) (auto simp: loop_body_def split: sum.splits)
    show "run_ok ub m0 Q (Some (Done r))" if "?I c" "loop_body body c = Some (Done (Inr r))" for c r
      using that body [of c] by (cases c) (auto simp: loop_body_def split: sum.splits)
    show "run_ok ub m0 Q (Some (Abort e))" if "?I c" "loop_body body c = Some (Abort e)" for c e
      using that body [of c]
      by (cases c) (auto simp: loop_body_def run_bind_def split: sum.splits option.splits exec.splits)
  qed
  then show "run_ok ub m0 Q (act_loop body s v)"
    unfolding act_loop_def by (cases "exec_loop (loop_body body) (s, v)") simp_all
qed

lemma fetch_shape: "fetch E a n v = (bs, v') \<Longrightarrow> same_shape (mv_mem v) (mv_mem v') \<and> length bs = n"
proof (induction n arbitrary: a v bs)
  case (Suc n)
  then show ?case
    by (auto simp: Let_def interfere_def split: prod.splits dest!: Suc.IH intro: same_shape_trans [rotated])
qed simp

lemma store_shape: "same_shape (mv_mem v) (mv_mem (store E a bs v))"
proof (induction bs arbitrary: a v)
  case (Cons b bs)
  have "same_shape (mv_mem v) (mv_mem (poke a b (interfere E a v)))" by (simp add: interfere_def poke_def)
  from same_shape_trans [OF this Cons.IH] show ?case by simp
qed simp

lemma act_ok_read [act_rules]:
  assumes "ub \<Longrightarrow> oc \<and> gm_wf m0" and "\<And>r. (\<And>bs. r = Inr bs \<Longrightarrow> length bs = unat n) \<Longrightarrow> Q r"
  shows "act_ok ub m0 (read_slice_env E oc a n) Q"
  unfolding read_slice_env_def
proof (rule act_ok_bind [where R = "\<lambda>fin. uadd oc a n = Done fin"])
  fix fin assume "uadd oc a n = Done fin"
  with assms(1) read_slice_ub_free [of m0 a n]
  have "ub \<Longrightarrow> \<not> gm_len m0 < fin \<Longrightarrow> unat a + unat n \<le> gm_mapped m0"
    by (auto simp: read_slice_def ub_free_def split: if_splits)
  with assms(2) show "act_ok ub m0 (\<lambda>v.
       if gm_len (mv_mem v) < fin then Some (Done (Inl (read_overflow_msg a (unat n)), v))
       else if unat a + unat n \<le> gm_mapped (mv_mem v)
       then (let (bs, v') = fetch E (unat a) (unat n) v in Some (Done (Inr bs, v')))
       else Some (Abort Undefined_Behaviour)) Q"
    by (auto simp: act_ok_def same_shape_def dest!: fetch_shape split: prod.splits)
qed (auto intro: act_ok_exec)

lemma act_ok_write [act_rules]:
  assumes "ub \<Longrightarrow> oc \<and> gm_wf m0 \<and> length d < 2 ^ 64" and "\<And>r. Q r"
  shows "act_ok ub m0 (write_slice_env E oc a d) Q"
  unfolding write_slice_env_def
proof (rule act_ok_bind [where R = "\<lambda>fin. uadd oc a (of_nat (length d)) = Done fin"])
  fix fin assume "uadd oc a (of_nat (length d)) = Done fin"
  with assms(1) write_slice_ub_free [of m0 d a]
  have "ub \<Longrightarrow> \<not> gm_len m0 < fin \<Longrightarrow> unat a + length d \<le> gm_mapped m0"
    by (auto simp: write_slice_def ub_free_def split: if_splits)
  with assms(2) show "act_ok ub m0 (\<lambda>v.
       if gm_len (mv_mem v) < fin then Some (Done (Inl (write_overflow_msg a (length d)), v))
       else if unat a + length d \<le> gm_mapped (mv_mem v)
       then Some (Done (Inr (), store E (unat a) d v))
       else Some (Abort Undefined_Behaviour)) Q"
    using store_shape [of _ E "unat a" d] same_shape_trans [of m0]
    by (auto simp: act_ok_def) (auto simp: same_shape_def)
qed (auto intro: act_ok_exec)

section \<open>Actions of a quiet guest\<close>

text \<open>What remains of an action when only the memory counts, and the function that it computes then.\<close>

definition forget :: "('a \<times> mview) run \<Rightarrow> ('a \<times> guest_memory) run" where
  "forget r = run_map (\<lambda>(x, v). (x, mv_mem v)) r"

definition act_atomic :: "'a act \<Rightarrow> (guest_memory \<Rightarrow> ('a \<times> guest_memory) run) \<Rightarrow> bool" where
  "act_atomic f h \<longleftrightarrow> (\<forall>v. forget (f v) = h (mv_mem v))"

lemma forget_simps [simp]:
  "forget None = None" "forget (Some (Abort e)) = Some (Abort e)"
  "forget (Some (Done (x, v))) = Some (Done (x, mv_mem v))"
  by (simp_all add: forget_def)

lemma act_atomic_return: "act_atomic (act_return x) (\<lambda>m. Some (Done (x, m)))"
  by (simp add: act_atomic_def act_return_def)

lemma act_atomic_exec: "act_atomic (act_exec e) (\<lambda>m. run_bind (Some e) (\<lambda>x. Some (Done (x, m))))"
  by (cases e) (simp_all add: act_atomic_def act_exec_def)

lemma act_atomic_bind:
  assumes "act_atomic f h" and "\<And>x. act_atomic (g x) (k x)"
  shows "act_atomic (act_bind f g) (\<lambda>m. run_bind (h m) (\<lambda>(x, m'). k x m'))"
  using assms unfolding act_atomic_def
proof (intro allI)
  fix v
  have h: "h (mv_mem v) = forget (f v)" using assms(1) by (simp add: act_atomic_def)
  show "forget (act_bind f g v) = run_bind (h (mv_mem v)) (\<lambda>(x, m'). k x m')"
    unfolding h act_bind_def using assms(2)
    by (cases "f v") (auto simp: act_atomic_def run_bind_def split: exec.splits)
qed

lemma act_atomic_len:
  assumes "\<And>n. act_atomic (g n) (k n)"
  shows "act_atomic (act_len g) (\<lambda>m. k (gm_len m) m)"
  using assms by (simp add: act_atomic_def act_len_def)

definition mem_body :: "('s \<Rightarrow> guest_memory \<Rightarrow> (('s + 'r) \<times> guest_memory) run) \<Rightarrow> 's \<times> guest_memory \<Rightarrow>
    (('s \<times> guest_memory) + ('r \<times> guest_memory)) run" where
  "mem_body k = (\<lambda>(s, m). run_map (\<lambda>(x, m'). case x of Inl s' \<Rightarrow> Inl (s', m') | Inr r \<Rightarrow> Inr (r, m')) (k s m))"

lemma act_atomic_loop:
  assumes "\<And>s. act_atomic (body s) (k s)"
  shows "act_atomic (act_loop body s) (\<lambda>m. exec_loop (mem_body k) (s, m))"
proof -
  let ?f = "\<lambda>(s :: 'a, v). (s, mv_mem v)" and ?g = "\<lambda>(r :: 'b, v). (r, mv_mem v)"
  have "mem_body k (?f c) = run_map (map_sum ?f ?g) (loop_body body c)" for c
  proof (cases c)
    case (Pair s v)
    have k: "k s (mv_mem v) = forget (body s v)" using assms by (simp add: act_atomic_def)
    show ?thesis
      unfolding Pair mem_body_def loop_body_def case_prod_conv k
      by (cases "body s v") (auto simp: run_map_def run_bind_def forget_def split: exec.splits sum.splits)
  qed
  from exec_loop_map [where body' = "mem_body k" and f = ?f and g = ?g, OF this, of "(s, _)"]
  show ?thesis by (simp add: act_atomic_def act_loop_def forget_def)
qed

lemma interfere_quiet:
  "interfere quiet a v = v\<lparr>mv_time := Suc (mv_time v), mv_touched := insert a (mv_touched v)\<rparr>"
  by (simp add: interfere_def quiet_def)

lemma fetch_quiet:
  "fetch quiet a n v = (mem_get (gm_bytes (mv_mem v)) a n,
     v\<lparr>mv_time := mv_time v + n, mv_touched := mv_touched v \<union> {a..<a + n}\<rparr>)"
proof (induction n arbitrary: a v)
  case (Suc n)
  have "{a..<a + Suc n} = insert a {Suc a..<Suc a + n}" by auto
  then show ?case by (simp add: Suc Let_def interfere_quiet mem_get_Suc)
qed (simp add: mem_get_def)

lemma store_quiet:
  "store quiet a bs v = v\<lparr>mv_mem := (mv_mem v)\<lparr>gm_bytes := mem_upd (gm_bytes (mv_mem v)) a bs\<rparr>,
     mv_time := mv_time v + length bs, mv_touched := mv_touched v \<union> {a..<a + length bs}\<rparr>"
proof (induction bs arbitrary: a v)
  case (Cons b bs)
  have "{a..<a + Suc (length bs)} = insert a {Suc a..<Suc a + length bs}" by auto
  then show ?case by (simp add: Cons poke_def interfere_quiet mem_upd_Cons del: fun_upd_apply)
qed simp

lemma act_atomic_read:
  "act_atomic (read_slice_env quiet oc a n)
     (\<lambda>m. run_bind (Some (read_slice oc m a n)) (\<lambda>r. Some (Done (r, m))))"
  by (cases "uadd oc a n")
    (auto simp: act_atomic_def read_slice_env_def act_bind_def act_exec_def read_slice_def fetch_quiet)

lemma act_atomic_write:
  "act_atomic (write_slice_env quiet oc a d)
     (\<lambda>m. run_bind (Some (write_slice oc m a d)) (\<lambda>r.
        Some (Done (case r of Inl e \<Rightarrow> (Inl e, m) | Inr m' \<Rightarrow> (Inr (), m')))))"
  by (cases "uadd oc a (of_nat (length d))")
    (auto simp: act_atomic_def write_slice_env_def act_bind_def act_exec_def write_slice_def store_quiet)

lemmas act_atomic_rules =
  act_atomic_return act_atomic_exec act_atomic_bind act_atomic_len act_atomic_loop act_atomic_read act_atomic_write

lemma act_atomic_eq: "act_atomic f h \<Longrightarrow> (\<And>m. k m = h m) \<Longrightarrow> act_atomic f k"
  by (simp add: act_atomic_def)

lemma act_atomic_if:
  "act_atomic f h \<Longrightarrow> act_atomic g k \<Longrightarrow> act_atomic (if b then f else g) (\<lambda>m. if b then h m else k m)"
  by simp

lemma act_atomic_sum:
  assumes "\<And>x. act_atomic (f x) (h x)" and "\<And>x. act_atomic (g x) (k x)"
  shows "act_atomic (case s of Inl x \<Rightarrow> f x | Inr x \<Rightarrow> g x) (\<lambda>m. case s of Inl x \<Rightarrow> h x m | Inr x \<Rightarrow> k x m)"
  using assms by (simp split: sum.split)

lemma act_atomic_option:
  assumes "act_atomic f h" and "\<And>x. act_atomic (g x) (k x)"
  shows "act_atomic (case s of None \<Rightarrow> f | Some x \<Rightarrow> g x) (\<lambda>m. case s of None \<Rightarrow> h m | Some x \<Rightarrow> k x m)"
  using assms by (simp split: option.split)

lemma act_atomic_prod:
  assumes "\<And>x y. act_atomic (f x y) (h x y)"
  shows "act_atomic (case p of (x, y) \<Rightarrow> f x y) (\<lambda>m. case p of (x, y) \<Rightarrow> h x y m)"
  using assms by (simp split: prod.split)

lemmas act_atomic_intros = act_atomic_rules act_atomic_if act_atomic_sum act_atomic_option act_atomic_prod

section \<open>A guest that leaves the touched memory alone\<close>

definition leaves_alone :: "guest_env \<Rightarrow> nat set \<Rightarrow> bool" where
  "leaves_alone E A \<longleftrightarrow> (\<forall>t f. \<forall>a \<in> A. E t f a = f a)"

text \<open>A guest that counts in the first byte of its memory while the device works.\<close>

definition counting_guest :: guest_env where
  "counting_guest t f = f(0 := of_nat t)"

lemma counting_guest_alone: "leaves_alone counting_guest {1..}"
  by (simp add: leaves_alone_def counting_guest_def)

text \<open>
  The action \<open>f\<close> follows the action \<open>g\<close>: if all that \<open>g\<close> touches is in \<open>A\<close>, then on memories that agree
  there \<open>f\<close> gives the same result and memories that agree there.
\<close>

definition act_follows :: "nat set \<Rightarrow> 'a act \<Rightarrow> 'a act \<Rightarrow> bool" where
  "act_follows A f g \<longleftrightarrow> (\<forall>w x w'. g w = Some (Done (x, w')) \<longrightarrow> mv_touched w \<subseteq> mv_touched w' \<and>
     (\<forall>v. mv_touched w' \<subseteq> A \<longrightarrow> agree_on A (mv_mem w) (mv_mem v) \<longrightarrow>
       (\<exists>v'. f v = Some (Done (x, v')) \<and> agree_on A (mv_mem w') (mv_mem v'))))"

lemma act_followsD:
  assumes "act_follows A f g" and "g w = Some (Done (x, w'))"
  shows "mv_touched w \<subseteq> mv_touched w'"
    and "mv_touched w' \<subseteq> A \<Longrightarrow> agree_on A (mv_mem w) (mv_mem v) \<Longrightarrow>
       \<exists>v'. f v = Some (Done (x, v')) \<and> agree_on A (mv_mem w') (mv_mem v')"
  using assms by (auto simp: act_follows_def)

lemma act_follows_return: "act_follows A (act_return x) (act_return x)"
  by (auto simp: act_follows_def act_return_def)

lemma act_follows_exec: "act_follows A (act_exec e) (act_exec e)"
  by (auto simp: act_follows_def act_exec_def)

lemma act_follows_bind:
  assumes "act_follows A f f'" and "\<And>x. act_follows A (g x) (g' x)"
  shows "act_follows A (act_bind f g) (act_bind f' g')"
  unfolding act_follows_def
proof (intro allI impI)
  fix w x w' assume "act_bind f' g' w = Some (Done (x, w'))"
  then obtain y u where y: "f' w = Some (Done (y, u))" "g' y u = Some (Done (x, w'))"
    by (auto simp: act_bind_def)
  note first = act_followsD [OF assms(1) y(1)] and second = act_followsD [OF assms(2) y(2)]
  show "mv_touched w \<subseteq> mv_touched w' \<and> (\<forall>v. mv_touched w' \<subseteq> A \<longrightarrow> agree_on A (mv_mem w) (mv_mem v) \<longrightarrow>
       (\<exists>v'. act_bind f g v = Some (Done (x, v')) \<and> agree_on A (mv_mem w') (mv_mem v')))"
  proof (intro conjI allI impI)
    show "mv_touched w \<subseteq> mv_touched w'" using first(1) second(1) by blast
  next
    fix v :: mview assume A: "mv_touched w' \<subseteq> A" and v: "agree_on A (mv_mem w) (mv_mem v)"
    obtain v1 where v1: "f v = Some (Done (y, v1))" "agree_on A (mv_mem u) (mv_mem v1)"
      using first(2) [OF _ v] A second(1) by blast
    from second(2) [OF A v1(2)] v1(1) show "\<exists>v'. act_bind f g v = Some (Done (x, v')) \<and> agree_on A (mv_mem w') (mv_mem v')"
      by (auto simp: act_bind_def)
  qed
qed

lemma act_follows_len:
  assumes "\<And>n. act_follows A (g n) (g' n)"
  shows "act_follows A (act_len g) (act_len g')"
  unfolding act_follows_def
proof (intro allI impI)
  fix w x w' assume "act_len g' w = Some (Done (x, w'))"
  then have "g' (gm_len (mv_mem w)) w = Some (Done (x, w'))" by (simp add: act_len_def)
  from act_followsD [OF assms this]
  show "mv_touched w \<subseteq> mv_touched w' \<and> (\<forall>v. mv_touched w' \<subseteq> A \<longrightarrow> agree_on A (mv_mem w) (mv_mem v) \<longrightarrow>
     (\<exists>v'. act_len g v = Some (Done (x, v')) \<and> agree_on A (mv_mem w') (mv_mem v')))"
    by (simp add: act_len_def agree_len)
qed

lemma act_follows_loop:
  assumes "\<And>s. act_follows A (f s) (g s)"
  shows "act_follows A (act_loop f s) (act_loop g s)"
proof -
  let ?R = "\<lambda>c x w'. mv_touched (snd c) \<subseteq> mv_touched w' \<and>
     (\<forall>v. mv_touched w' \<subseteq> A \<longrightarrow> agree_on A (mv_mem (snd c)) (mv_mem v) \<longrightarrow>
       (\<exists>v'. exec_loop (loop_body f) (fst c, v) = Some (Done (x, v')) \<and> agree_on A (mv_mem w') (mv_mem v')))"
  have "\<forall>x w'. out = Done (x, w') \<longrightarrow> ?R c x w'" if "exec_loop (loop_body g) c = Some out" for c out
    using that
  proof (induction rule: exec_loop_induct)
    case (leave c r)
    obtain x w' where r: "r = (x, w')" by fastforce
    from leave have g: "g (fst c) (snd c) = Some (Done (Inr x, w'))"
      unfolding r by (rule loop_body_Inr)
    note st = act_followsD [OF assms g]
    have "?R c x w'"
    proof (intro conjI allI impI)
      fix v :: mview assume A: "mv_touched w' \<subseteq> A" and v: "agree_on A (mv_mem (snd c)) (mv_mem v)"
      obtain v' where v': "f (fst c) v = Some (Done (Inr x, v'))" "agree_on A (mv_mem w') (mv_mem v')"
        using st(2) [OF A v] by blast
      have "exec_loop (loop_body f) (fst c, v) = Some (Done (x, v'))"
        by (rule exec_loop_Inr) (simp add: loop_body_def v'(1))
      with v'(2) show "\<exists>v'. exec_loop (loop_body f) (fst c, v) = Some (Done (x, v')) \<and> agree_on A (mv_mem w') (mv_mem v')"
        by blast
    qed (rule st(1))
    with r show ?case by simp
  next
    case (step c c' out)
    obtain s' u where c': "c' = (s', u)" by fastforce
    from step(1) have g: "g (fst c) (snd c) = Some (Done (Inl s', u))"
      unfolding c' by (rule loop_body_Inl)
    note st = act_followsD [OF assms g]
    have "?R c x w'" if "out = Done (x, w')" for x w'
    proof (intro conjI allI impI)
      have R: "?R c' x w'" using step(2) that by blast
      then show "mv_touched (snd c) \<subseteq> mv_touched w'" using st(1) c' by auto
      fix v :: mview assume A: "mv_touched w' \<subseteq> A" and v: "agree_on A (mv_mem (snd c)) (mv_mem v)"
      obtain v1 where v1: "f (fst c) v = Some (Done (Inl s', v1))" "agree_on A (mv_mem u) (mv_mem v1)"
        using st(2) [OF _ v] R A c' by auto
      have "exec_loop (loop_body f) (fst c, v) = exec_loop (loop_body f) (s', v1)"
        by (rule exec_loop_Inl) (simp add: loop_body_def v1(1))
      with R A v1(2) c' show "\<exists>v'. exec_loop (loop_body f) (fst c, v) = Some (Done (x, v')) \<and> agree_on A (mv_mem w') (mv_mem v')"
        by simp
    qed
    then show ?case by blast
  qed simp
  then show ?thesis unfolding act_follows_def act_loop_def by fastforce
qed

lemma leaves_alone_agree:
  assumes "leaves_alone E A" and "agree_on A (mv_mem w) (mv_mem v)"
  shows "agree_on A (mv_mem w) (mv_mem (interfere E a v))"
  using assms by (simp add: agree_on_def same_shape_def leaves_alone_def interfere_def)

lemma fetch_follows:
  assumes "leaves_alone E A" and "{a..<a + n} \<subseteq> A" and "agree_on A (mv_mem w) (mv_mem v)"
  shows "\<exists>v'. fetch E a n v = (mem_get (gm_bytes (mv_mem w)) a n, v') \<and> agree_on A (mv_mem w) (mv_mem v')"
  using assms(2,3)
proof (induction n arbitrary: a v)
  case (Suc n)
  note i = leaves_alone_agree [OF assms(1) Suc.prems(2), of a]
  have sub: "{Suc a..<Suc a + n} \<subseteq> A" and a: "a \<in> A" using Suc.prems(1) by auto
  obtain v' where "fetch E (Suc a) n (interfere E a v) = (mem_get (gm_bytes (mv_mem w)) (Suc a) n, v')"
    "agree_on A (mv_mem w) (mv_mem v')"
    using Suc.IH [OF sub i] by blast
  moreover have "gm_bytes (mv_mem (interfere E a v)) a = gm_bytes (mv_mem w) a"
    using i a by (simp add: agree_on_def)
  ultimately show ?case by (simp add: mem_get_Suc Let_def)
qed (simp add: mem_get_def)

lemma store_follows:
  assumes "leaves_alone E A" and "agree_on A m (mv_mem v)"
  shows "agree_on A (m\<lparr>gm_bytes := mem_upd (gm_bytes m) a bs\<rparr>) (mv_mem (store E a bs v))"
  using assms(2)
proof (induction bs arbitrary: a v m)
  case (Cons b bs)
  have "agree_on A m (mv_mem (interfere E a v))"
    using leaves_alone_agree [OF assms(1), of "view_of m" v a] Cons.prems by (simp add: view_of_def)
  then have "agree_on A (m\<lparr>gm_bytes := (gm_bytes m)(a := b)\<rparr>) (mv_mem (poke a b (interfere E a v)))"
    by (auto simp: agree_on_def same_shape_def poke_def)
  from Cons.IH [OF this, of "Suc a"] show ?case by (simp add: mem_upd_Cons del: fun_upd_apply)
qed simp

lemma act_follows_read:
  assumes "leaves_alone E A"
  shows "act_follows A (read_slice_env E oc a n) (read_slice_env quiet oc a n)"
  unfolding read_slice_env_def
proof (rule act_follows_bind [OF act_follows_exec])
  fix fin
  show "act_follows A
     (\<lambda>v. if gm_len (mv_mem v) < fin then Some (Done (Inl (read_overflow_msg a (unat n)), v))
        else if unat a + unat n \<le> gm_mapped (mv_mem v)
        then (let (bs, v') = fetch E (unat a) (unat n) v in Some (Done (Inr bs, v')))
        else Some (Abort Undefined_Behaviour))
     (\<lambda>v. if gm_len (mv_mem v) < fin then Some (Done (Inl (read_overflow_msg a (unat n)), v))
        else if unat a + unat n \<le> gm_mapped (mv_mem v)
        then (let (bs, v') = fetch quiet (unat a) (unat n) v in Some (Done (Inr bs, v')))
        else Some (Abort Undefined_Behaviour))"
    unfolding act_follows_def
  proof (intro allI impI, goal_cases)
    case (1 w x w')
    have "\<exists>v'. (case fetch E (unat a) (unat n) v of (bs, v') \<Rightarrow> Some (Done (Inr bs, v'))) =
        Some (Done (Inr (mem_get (gm_bytes (mv_mem w)) (unat a) (unat n)), v')) \<and> agree_on A (mv_mem w) (mv_mem v')"
      if "{unat a..<unat a + unat n} \<subseteq> A" "agree_on A (mv_mem w) (mv_mem v)" for v
      using fetch_follows [OF assms that] by auto
    with 1 show ?case by (auto simp: fetch_quiet agree_len split: if_splits)
  qed
qed

lemma act_follows_write:
  assumes "leaves_alone E A"
  shows "act_follows A (write_slice_env E oc a d) (write_slice_env quiet oc a d)"
  unfolding write_slice_env_def
proof (rule act_follows_bind [OF act_follows_exec])
  fix fin
  show "act_follows A
     (\<lambda>v. if gm_len (mv_mem v) < fin then Some (Done (Inl (write_overflow_msg a (length d)), v))
        else if unat a + length d \<le> gm_mapped (mv_mem v) then Some (Done (Inr (), store E (unat a) d v))
        else Some (Abort Undefined_Behaviour))
     (\<lambda>v. if gm_len (mv_mem v) < fin then Some (Done (Inl (write_overflow_msg a (length d)), v))
        else if unat a + length d \<le> gm_mapped (mv_mem v) then Some (Done (Inr (), store quiet (unat a) d v))
        else Some (Abort Undefined_Behaviour))"
    using store_follows [OF assms, of _ _ "unat a" d]
    by (auto simp: act_follows_def store_quiet agree_len split: if_splits)
qed

lemma act_follows_if: "act_follows A f f' \<Longrightarrow> act_follows A g g' \<Longrightarrow> act_follows A (if b then f else g) (if b then f' else g')"
  by simp

lemma act_follows_sum:
  assumes "\<And>x. act_follows A (f x) (f' x)" and "\<And>x. act_follows A (g x) (g' x)"
  shows "act_follows A (case s of Inl x \<Rightarrow> f x | Inr x \<Rightarrow> g x) (case s of Inl x \<Rightarrow> f' x | Inr x \<Rightarrow> g' x)"
  using assms by (simp split: sum.split)

lemma act_follows_option:
  assumes "act_follows A f f'" and "\<And>x. act_follows A (g x) (g' x)"
  shows "act_follows A (case s of None \<Rightarrow> f | Some x \<Rightarrow> g x) (case s of None \<Rightarrow> f' | Some x \<Rightarrow> g' x)"
  using assms by (simp split: option.split)

lemma act_follows_prod:
  assumes "\<And>x y. act_follows A (f x y) (f' x y)"
  shows "act_follows A (case p of (x, y) \<Rightarrow> f x y) (case p of (x, y) \<Rightarrow> f' x y)"
  using assms by (simp split: prod.split)

lemmas act_follows_intros =
  act_follows_return act_follows_exec act_follows_bind act_follows_len act_follows_loop act_follows_read
  act_follows_write act_follows_if act_follows_sum act_follows_option act_follows_prod

section \<open>What an action touches\<close>

definition act_touch :: "'a act \<Rightarrow> guest_memory \<Rightarrow> nat set \<Rightarrow> bool" where
  "act_touch f m S \<longleftrightarrow> (\<forall>v x v'. mv_mem v = m \<longrightarrow> f v = Some (Done (x, v')) \<longrightarrow> mv_touched v' \<subseteq> mv_touched v \<union> S)"

lemma act_atomicD:
  assumes "act_atomic f h" and "f v = Some (Done (x, v'))"
  shows "h (mv_mem v) = Some (Done (x, mv_mem v'))"
  using assms unfolding act_atomic_def by (metis forget_simps(3))

lemma act_touch_return: "act_touch (act_return x) m S"
  by (auto simp: act_touch_def act_return_def)

lemma act_touch_exec: "act_touch (act_exec e) m S"
  by (auto simp: act_touch_def act_exec_def)

lemma act_touch_bind:
  assumes "act_atomic f h" and "act_touch f m S" and "\<And>x m'. h m = Some (Done (x, m')) \<Longrightarrow> act_touch (g x) m' S"
  shows "act_touch (act_bind f g) m S"
  unfolding act_touch_def
proof (intro allI impI)
  fix v x v' assume v: "mv_mem v = m" and "act_bind f g v = Some (Done (x, v'))"
  then obtain y u where y: "f v = Some (Done (y, u))" "g y u = Some (Done (x, v'))" by (auto simp: act_bind_def)
  have "h m = Some (Done (y, mv_mem u))" using act_atomicD [OF assms(1) y(1)] v by simp
  from assms(3) [OF this] y(2) have "mv_touched v' \<subseteq> mv_touched u \<union> S" by (simp add: act_touch_def)
  moreover have "mv_touched u \<subseteq> mv_touched v \<union> S" using assms(2) y(1) v by (simp add: act_touch_def)
  ultimately show "mv_touched v' \<subseteq> mv_touched v \<union> S" by blast
qed

lemma act_touch_exec_bind:
  assumes "\<And>x. e = Done x \<Longrightarrow> act_touch (g x) m S"
  shows "act_touch (act_bind (act_exec e) g) m S"
  by (rule act_touch_bind [OF act_atomic_exec act_touch_exec]) (use assms in \<open>auto simp: run_bind_eq_Done\<close>)

lemma act_touch_loop:
  assumes "\<And>s. act_atomic (body s) (k s)" and "I s m"
    and "\<And>s m. I s m \<Longrightarrow> act_touch (body s) m S"
    and "\<And>s m s' m'. I s m \<Longrightarrow> k s m = Some (Done (Inl s', m')) \<Longrightarrow> I s' m'"
  shows "act_touch (act_loop body s) m S"
  unfolding act_touch_def act_loop_def
proof (intro allI impI)
  fix v x v' assume v: "mv_mem v = m" and run: "exec_loop (loop_body body) (s, v) = Some (Done (x, v'))"
  have "(case Done (x, v') of Done (_, v') \<Rightarrow> mv_touched v' \<subseteq> mv_touched v \<union> S | _ \<Rightarrow> True)"
  proof (rule exec_loop_invariant [where Q = "\<lambda>out. case out of Done (_, v') \<Rightarrow> mv_touched v' \<subseteq> mv_touched v \<union> S | _ \<Rightarrow> True"
        and I = "\<lambda>c. I (fst c) (mv_mem (snd c)) \<and> mv_touched (snd c) \<subseteq> mv_touched v \<union> S", OF run])
    fix c c' assume I: "I (fst c) (mv_mem (snd c)) \<and> mv_touched (snd c) \<subseteq> mv_touched v \<union> S"
      and "loop_body body c = Some (Done (Inl c'))"
    then have b: "body (fst c) (snd c) = Some (Done (Inl (fst c'), snd c'))"
      using loop_body_Inl [of body c "fst c'" "snd c'"] by simp
    with I assms(3) [of "fst c" "mv_mem (snd c)"] assms(4) act_atomicD [OF assms(1) b]
    show "I (fst c') (mv_mem (snd c')) \<and> mv_touched (snd c') \<subseteq> mv_touched v \<union> S"
      unfolding act_touch_def by blast
  next
    fix c r assume I: "I (fst c) (mv_mem (snd c)) \<and> mv_touched (snd c) \<subseteq> mv_touched v \<union> S"
      and "loop_body body c = Some (Done (Inr r))"
    then have b: "body (fst c) (snd c) = Some (Done (Inr (fst r), snd r))"
      using loop_body_Inr [of body c "fst r" "snd r"] by simp
    with I assms(3) [of "fst c" "mv_mem (snd c)"]
    show "case Done r of Done (_, v') \<Rightarrow> mv_touched v' \<subseteq> mv_touched v \<union> S | _ \<Rightarrow> True"
      unfolding act_touch_def by (auto split: prod.splits) blast
  qed (use v assms(2) in auto)
  then show "mv_touched v' \<subseteq> mv_touched v \<union> S" by simp
qed

lemma act_touch_read:
  assumes "{unat a..<unat a + unat n} \<subseteq> S"
  shows "act_touch (read_slice_env quiet oc a n) m S"
  using assms
  by (auto simp: act_touch_def read_slice_env_def act_bind_def act_exec_def fetch_quiet split: if_splits)

lemma act_touch_write:
  assumes "{unat a..<unat a + length d} \<subseteq> S"
  shows "act_touch (write_slice_env quiet oc a d) m S"
  using assms
  by (auto simp: act_touch_def write_slice_env_def act_bind_def act_exec_def store_quiet split: if_splits)

lemma act_touch_len: "act_touch (g (gm_len m)) m S \<Longrightarrow> act_touch (act_len g) m S"
  by (simp add: act_touch_def act_len_def)

lemma act_follows_atomic:
  assumes "act_follows A f g" and "act_atomic g h" and "h m = Some (Done (x, m1))" and "act_touch g m S" and "S \<subseteq> A"
    and "agree_on A m (mv_mem u)"
  shows "\<exists>v. f u = Some (Done (x, v)) \<and> agree_on A m1 (mv_mem v)"
proof -
  have "forget (g (view_of m)) = Some (Done (x, m1))" using assms(2,3) by (simp add: act_atomic_def)
  then obtain w where w: "g (view_of m) = Some (Done (x, w))" "mv_mem w = m1"
    by (auto simp: forget_def run_map_eq_Some)
  have "mv_touched w \<subseteq> mv_touched (view_of m) \<union> S" using assms(4) w(1) unfolding act_touch_def by (metis view_of_sel(1))
  then have "mv_touched w \<subseteq> A" using assms(5) by auto
  from act_followsD(2) [OF assms(1) w(1) this] assms(6) w(2) show ?thesis by simp
qed

end
