(* ===== verification/Ax_Blk_Env.thy ===== *)
theory Ax_Blk_Env
  imports Ax_Virtio_Queue Ax_Interference
begin

text \<open>
  The data plane of the block device beside a running guest: the definitions of \<open>Ax_Virtio_Blk\<close>, with
  the guest free to store to its memory before every byte the device reads or writes.
\<close>

section \<open>The data plane\<close>

definition read_u16_env :: "guest_env \<Rightarrow> bool \<Rightarrow> usize \<Rightarrow> u16 option act" where
  "read_u16_env E oc a = act_bind (read_slice_env E oc a 2) (\<lambda>r. act_return (case r of
     Inr bs \<Rightarrow> Some (from_le_bytes [bs ! 0, bs ! 1]) | Inl _ \<Rightarrow> None))"

definition chain_phase_env :: "guest_env \<Rightarrow> bool \<Rightarrow> vring_desc \<Rightarrow> chain_vars \<Rightarrow> chain_vars act" where
  "chain_phase_env E oc e v =
     (if cv_phase v = 0 then
        act_bind (read_slice_env E oc (vd_addr e) (min 16 (ucast (vd_len e)))) (\<lambda>r.
          act_return ((case r of
            Inr header \<Rightarrow> (if 16 \<le> length header
              then v\<lparr>cv_sector := from_le_bytes (take 8 (drop 8 header)),
                     cv_is_write := ((from_le_bytes (take 4 header) :: u32) = VIRTIO_BLK_T_OUT)\<rparr>
              else v)
          | Inl _ \<Rightarrow> v)\<lparr>cv_phase := 1\<rparr>))
      else if cv_phase v = 1 then
        (if has_next e then act_return (v\<lparr>cv_data_addr := vd_addr e, cv_data_len := vd_len e\<rparr>)
         else act_return (v\<lparr>cv_status_addr := vd_addr e, cv_phase := 2\<rparr>))
      else act_return (v\<lparr>cv_status_addr := vd_addr e\<rparr>))"

definition chain_step_env :: "guest_env \<Rightarrow> bool \<Rightarrow> u64 \<Rightarrow> chain_vars \<Rightarrow> (chain_vars + chain_vars) act" where
  "chain_step_env E oc desc_table v =
     act_bind (act_exec (umul oc (ucast (cv_next_idx v)) 16)) (\<lambda>i16.
     act_bind (act_exec (uadd oc desc_table i16)) (\<lambda>desc_offset.
     act_bind (read_slice_env E oc desc_offset 16) (\<lambda>r.
       case r of Inl _ \<Rightarrow> act_return (Inr v)
       | Inr desc_bytes \<Rightarrow>
           (let e = decode_desc desc_bytes in
            act_bind (chain_phase_env E oc e v) (\<lambda>v'.
              act_return (if has_next e then Inl (v'\<lparr>cv_next_idx := vd_next e\<rparr>) else Inr v'))))))"

definition chain_walk_env :: "guest_env \<Rightarrow> bool \<Rightarrow> u64 \<Rightarrow> u16 \<Rightarrow> chain_vars act" where
  "chain_walk_env E oc desc_table head_idx = act_loop (chain_step_env E oc desc_table) (chain_init head_idx)"

definition chain_transfer_env ::
  "guest_env \<Rightarrow> bool \<Rightarrow> 'f file_ops \<Rightarrow> 'f virtio_block \<Rightarrow> chain_vars \<Rightarrow> ('f virtio_block \<times> u32) act" where
  "chain_transfer_env E oc F d v =
     (if cv_data_addr v \<noteq> 0 \<and> 0 < cv_data_len v then
        act_bind (act_exec (umul oc (cv_sector v) 512)) (\<lambda>offset.
          case vb_disk d of None \<Rightarrow> act_return (d, 0)
          | Some file \<Rightarrow> (case fo_seek F file offset of Inl _ \<Rightarrow> act_return (d, 0)
            | Inr f1 \<Rightarrow>
                if cv_is_write v then
                  act_bind (read_slice_env E oc (cv_data_addr v) (ucast (cv_data_len v))) (\<lambda>r.
                    case r of
                      Inr data \<Rightarrow> act_return (d\<lparr>vb_disk := Some (snd (fo_write_all F f1 data))\<rparr>, 0)
                    | Inl _ \<Rightarrow> act_return (d\<lparr>vb_disk := Some f1\<rparr>, 0))
                else
                  (let (r, f2) = fo_read F f1 (unat (cv_data_len v));
                       buf = (case r of Inr bs \<Rightarrow> bs | Inl _ \<Rightarrow> []);
                       d' = d\<lparr>vb_disk := Some f2\<rparr>
                   in if 0 < length buf then
                        act_bind (write_slice_env E oc (cv_data_addr v) buf) (\<lambda>_.
                          act_bind (act_exec (uadd oc 0 (of_nat (length buf)))) (\<lambda>total.
                            act_return (d', total)))
                      else act_return (d', 0))))
      else act_return (d, 0))"

definition chain_status_env :: "guest_env \<Rightarrow> bool \<Rightarrow> chain_vars \<Rightarrow> u32 \<Rightarrow> u32 act" where
  "chain_status_env E oc v total_written =
     (if cv_status_addr v \<noteq> 0 then
        act_bind (write_slice_env E oc (cv_status_addr v) [VIRTIO_BLK_S_OK]) (\<lambda>_.
          act_exec (uadd oc total_written 1))
      else act_return total_written)"

definition process_descriptor_chain_env ::
  "guest_env \<Rightarrow> bool \<Rightarrow> 'f file_ops \<Rightarrow> 'f virtio_block \<Rightarrow> u64 \<Rightarrow> u16 \<Rightarrow> ('f virtio_block \<times> u32) act" where
  "process_descriptor_chain_env E oc F d desc_table head_idx =
     act_bind (chain_walk_env E oc desc_table head_idx) (\<lambda>v.
     act_bind (chain_transfer_env E oc F d v) (\<lambda>(d', total).
     act_bind (chain_status_env E oc v total) (\<lambda>total'. act_return (d', total'))))"

definition push_used_env :: "guest_env \<Rightarrow> bool \<Rightarrow> u64 \<Rightarrow> u16 \<Rightarrow> u16 \<Rightarrow> u32 \<Rightarrow> unit act" where
  "push_used_env E oc used_addr queue_size head_idx written =
     act_bind (act_exec (uadd oc used_addr 2)) (\<lambda>idx_addr.
     act_bind (read_u16_env E oc idx_addr) (\<lambda>u.
     let used_idx = (case u of Some i \<Rightarrow> i | None \<Rightarrow> 0);
         used_ring_offset = 4 + ucast (used_idx mod queue_size) * 8 in
     act_bind (act_exec (uadd oc used_addr used_ring_offset)) (\<lambda>slot.
     act_bind (write_slice_env E oc slot (to_le_bytes 4 (ucast head_idx :: u32))) (\<lambda>_.
     act_bind (act_exec (uadd oc slot 4)) (\<lambda>slot4.
     act_bind (write_slice_env E oc slot4 (to_le_bytes 4 written)) (\<lambda>_.
     act_bind (act_exec (uadd oc used_addr 2)) (\<lambda>idx_addr'.
     act_bind (write_slice_env E oc idx_addr' (to_le_bytes 2 (used_idx + 1))) (\<lambda>_.
     act_return ()))))))))"

text \<open>The variables of the loop: the position in the available ring, \<open>work_done\<close> and the device.\<close>

definition queue_step_env ::
  "guest_env \<Rightarrow> bool \<Rightarrow> 'f file_ops \<Rightarrow> u16 \<Rightarrow> u64 \<Rightarrow> u64 \<Rightarrow> u64 \<Rightarrow> u16 \<Rightarrow> u16 \<times> bool \<times> 'f virtio_block \<Rightarrow>
   ((u16 \<times> bool \<times> 'f virtio_block) + (u16 \<times> bool \<times> 'f virtio_block)) act" where
  "queue_step_env E oc F queue_size desc_addr avail_addr used_addr avail_idx = (\<lambda>(last_idx, work_done, d).
     if last_idx = avail_idx then act_return (Inr (last_idx, work_done, d)) else
     act_bind (act_exec (uadd oc avail_addr (4 + ucast (last_idx mod queue_size) * 2))) (\<lambda>ring.
     act_bind (read_u16_env E oc ring) (\<lambda>h.
       case h of None \<Rightarrow> act_return (Inr (last_idx, work_done, d))
       | Some head_idx \<Rightarrow>
           act_bind (process_descriptor_chain_env E oc F d desc_addr head_idx) (\<lambda>(d', written).
           act_bind (push_used_env E oc used_addr queue_size head_idx written) (\<lambda>_.
             act_return (Inl (last_idx + 1, True, d')))))))"

definition process_queue_env ::
  "guest_env \<Rightarrow> bool \<Rightarrow> 'f file_ops \<Rightarrow> 'f virtio_block \<Rightarrow> (bool \<times> 'f virtio_block) act" where
  "process_queue_env E oc F d =
     (let queue_size = (ucast (vb_queue_num d) :: u16) in
      if queue_size = 0 \<or> vb_queue_ready d = 0 then act_return (False, d) else
      act_bind (act_exec (uadd oc (vb_queue_avail d) 2)) (\<lambda>idx_addr.
      act_bind (read_u16_env E oc idx_addr) (\<lambda>a.
        case a of None \<Rightarrow> act_return (False, d)
        | Some avail_idx \<Rightarrow>
            act_bind (act_loop (queue_step_env E oc F queue_size (vb_queue_desc d) (vb_queue_avail d)
                (vb_queue_used d) avail_idx) (vb_last_avail_idx d, False, d)) (\<lambda>(last_idx, work_done, d1).
              let d' = d1\<lparr>vb_last_avail_idx := last_idx\<rparr> in
              act_return (if work_done
                then (True, d'\<lparr>vb_interrupt_status := vb_interrupt_status d' OR 1\<rparr>) else (False, d'))))))"

text \<open>\<open>write\<close>, on a memory: the result, the device and the memory after it.\<close>

definition vb_write_env ::
  "guest_env \<Rightarrow> bool \<Rightarrow> 'f file_ops \<Rightarrow> 'f virtio_block \<Rightarrow> guest_memory \<Rightarrow> u64 \<Rightarrow> bytes \<Rightarrow>
   (bool result \<times> 'f virtio_block \<times> guest_memory) run" where
  "vb_write_env E oc F d m offset data =
     (if length data < 4 then Some (Done (Inr False, d, m)) else
      (let val = from_le_bytes (take 4 data) in
       if offset = VIRTIO_MMIO_QUEUE_NOTIFY then
         run_map (\<lambda>((irq, d'), v). (Inr irq, d', mv_mem v)) (process_queue_env E oc F d (view_of m))
       else Some (Done (Inr False, vb_set_reg d offset val, m))))"

section \<open>Memory safety and frame\<close>

lemma read_u16_ok_env: "(ub \<Longrightarrow> oc \<and> gm_wf m0) \<Longrightarrow> (\<And>x. Q x) \<Longrightarrow> act_ok ub m0 (read_u16_env E oc a) Q"
  unfolding read_u16_env_def by (rule act_ok_seq) (auto intro!: act_rules)

lemma chain_phase_ok_env:
  "(ub \<Longrightarrow> oc \<and> gm_wf m0) \<Longrightarrow> (\<And>x. Q x) \<Longrightarrow> act_ok ub m0 (chain_phase_env E oc e v) Q"
  unfolding chain_phase_env_def by (auto intro!: act_rules act_ok_seq)

lemma chain_walk_ok_env:
  assumes "ub \<Longrightarrow> oc \<and> gm_wf m0" and "\<And>x. Q x"
  shows "act_ok ub m0 (chain_walk_env E oc t h) Q"
  unfolding chain_walk_env_def
proof (rule act_ok_loop [where I = "\<lambda>_. True"])
  show "act_ok ub m0 (chain_step_env E oc t v) (\<lambda>x. case x of Inl s' \<Rightarrow> True | Inr r \<Rightarrow> Q r)" for v
    unfolding chain_step_env_def Let_def using assms
    by (auto intro!: act_rules act_ok_seq chain_phase_ok_env split: sum.splits)
qed simp

lemma chain_transfer_ok_env:
  assumes "ub \<Longrightarrow> oc \<and> gm_wf m0 \<and> reads_fit F" and "\<And>d' t. same_regs d d' \<Longrightarrow> Q (d', t)"
  shows "act_ok ub m0 (chain_transfer_env E oc F d v) Q"
proof -
  have "length bs < 2 ^ 64" if "ub" "fo_read F f (unat (cv_data_len v)) = (Inr bs, f')" for f bs f'
    using reads_fitD [OF _ that(2)] assms(1) [OF that(1)] unat_u32_bound [of "cv_data_len v"] by simp
  with assms show ?thesis
    unfolding chain_transfer_env_def Let_def
    by (auto intro!: act_rules act_ok_seq split: option.splits sum.splits prod.splits)
qed

lemma chain_status_ok_env:
  "(ub \<Longrightarrow> oc \<and> gm_wf m0) \<Longrightarrow> (\<And>x. Q x) \<Longrightarrow> act_ok ub m0 (chain_status_env E oc v t) Q"
  unfolding chain_status_env_def by (auto intro!: act_rules act_ok_seq)

lemma process_descriptor_chain_ok_env:
  assumes "ub \<Longrightarrow> oc \<and> gm_wf m0 \<and> reads_fit F" and "\<And>d' t. same_regs d d' \<Longrightarrow> Q (d', t)"
  shows "act_ok ub m0 (process_descriptor_chain_env E oc F d t h) Q"
  unfolding process_descriptor_chain_env_def
proof (rule act_ok_seq [OF chain_walk_ok_env])
  fix v
  show "act_ok ub m0 (act_bind (chain_transfer_env E oc F d v) (\<lambda>(d', total).
     act_bind (chain_status_env E oc v total) (\<lambda>total'. act_return (d', total')))) Q"
    by (rule act_ok_bind [where R = "\<lambda>(d', t). same_regs d d'"])
      (use assms in \<open>auto intro!: chain_transfer_ok_env chain_status_ok_env act_rules act_ok_seq\<close>)
qed (use assms in auto)

lemma push_used_ok_env:
  "(ub \<Longrightarrow> oc \<and> gm_wf m0) \<Longrightarrow> (\<And>x. Q x) \<Longrightarrow> act_ok ub m0 (push_used_env E oc used qs h w) Q"
  unfolding push_used_env_def Let_def by (auto intro!: act_rules act_ok_seq read_u16_ok_env)

lemma queue_step_ok_env:
  assumes "ub \<Longrightarrow> oc \<and> gm_wf m0 \<and> reads_fit F" and "same_regs d d1"
  shows "act_ok ub m0 (queue_step_env E oc F qs desc avail used aidx (l, w, d1))
    (\<lambda>x. case x of Inl (l, w, d') \<Rightarrow> same_regs d d' | Inr (l, w, d') \<Rightarrow> same_regs d d')" (is "act_ok _ _ _ ?Q")
proof -
  have serve: "act_ok ub m0 (act_bind (process_descriptor_chain_env E oc F d1 desc h) (\<lambda>(d', written).
      act_bind (push_used_env E oc used qs h written) (\<lambda>_. act_return (Inl (l + 1, True, d'))))) ?Q" for h
    by (rule act_ok_bind [where R = "\<lambda>(d', t). same_regs d d'"])
      (use assms in \<open>auto intro!: process_descriptor_chain_ok_env push_used_ok_env act_rules act_ok_seq
        intro: same_regs_trans\<close>)
  have take: "act_ok ub m0 (case h of None \<Rightarrow> act_return (Inr (l, w, d1))
     | Some h \<Rightarrow> act_bind (process_descriptor_chain_env E oc F d1 desc h) (\<lambda>(d', written).
         act_bind (push_used_env E oc used qs h written) (\<lambda>_. act_return (Inl (l + 1, True, d'))))) ?Q" for h
    by (cases h) (use serve assms(2) in \<open>auto intro: act_ok_return\<close>)
  show ?thesis
  proof (cases "l = aidx")
    case False
    then show ?thesis
      unfolding queue_step_env_def prod.case if_not_P [OF False]
      by (intro act_ok_seq act_ok_exec read_u16_ok_env take) (use assms(1) in auto)
  qed (use assms(2) in \<open>simp add: queue_step_env_def act_ok_return\<close>)
qed

lemma process_queue_ok_env:
  assumes "ub \<Longrightarrow> oc \<and> gm_wf m0 \<and> reads_fit F"
  shows "act_ok ub m0 (process_queue_env E oc F d) (\<lambda>(irq, d'). vb_disk_size d' = vb_disk_size d \<and>
     vb_interrupt_status d' = (if irq then vb_interrupt_status d OR 1 else vb_interrupt_status d))" (is "act_ok _ _ _ ?R")
proof -
  let ?I = "\<lambda>(l, w, d'). same_regs d d'"
  have loop: "act_ok ub m0 (act_bind (act_loop (queue_step_env E oc F qs desc avail used aidx) (l, False, d))
     (\<lambda>(last_idx, work_done, d1). let d' = d1\<lparr>vb_last_avail_idx := last_idx\<rparr> in
        act_return (if work_done then (True, d'\<lparr>vb_interrupt_status := vb_interrupt_status d' OR 1\<rparr>) else (False, d')))) ?R"
    for qs desc avail used aidx l
    by (rule act_ok_bind [where R = ?I, OF act_ok_loop [where I = ?I]])
      (use queue_step_ok_env [OF assms] in \<open>auto simp: same_regs_fields Let_def intro!: act_rules split: if_splits\<close>)
  show ?thesis
    unfolding process_queue_env_def Let_def
    by (auto intro!: act_rules act_ok_seq read_u16_ok_env loop [unfolded Let_def] split: option.splits)
      (use assms in auto)
qed

lemma vb_write_env_frame:
  assumes "vb_write_env E oc F d m offset data = Some (Done (r, d', m'))"
  shows "same_shape m m'" and "vb_disk_size d' = vb_disk_size d" and "blk_inv d \<Longrightarrow> blk_inv d'"
    and "\<exists>irq. r = Inr irq"
proof -
  have size: "vb_disk_size (vb_set_reg d offset v) = vb_disk_size d" for v
    by (simp add: vb_set_reg_def Let_def)
  have "same_shape m m' \<and> vb_disk_size d' = vb_disk_size d \<and> (blk_inv d \<longrightarrow> blk_inv d') \<and> (\<exists>irq. r = Inr irq)"
  proof (cases "4 \<le> length data \<and> offset = VIRTIO_MMIO_QUEUE_NOTIFY")
    case True
    with assms obtain irq v where q: "process_queue_env E oc F d (view_of m) = Some (Done ((irq, d'), v))"
      and r: "r = Inr irq" "m' = mv_mem v"
      by (auto simp: vb_write_env_def Let_def run_map_eq_Some)
    note ok = act_okD [OF process_queue_ok_env [of False oc m F E d] _ q]
    show ?thesis using ok r by (auto simp: view_of_def blk_inv_def split: if_splits)
  qed (use assms in \<open>auto simp: vb_write_env_def Let_def size vb_set_reg_inv split: if_splits\<close>)
  then show "same_shape m m'" and "vb_disk_size d' = vb_disk_size d" and "blk_inv d \<Longrightarrow> blk_inv d'"
    and "\<exists>irq. r = Inr irq"
    by blast+
qed

lemma vb_write_env_ub_free:
  assumes "gm_wf m" and "reads_fit F"
  shows "run_ub_free (vb_write_env E True F d m offset data)"
proof -
  have "run_ub_free (process_queue_env E True F d (view_of m))"
    by (rule act_ok_ub [OF process_queue_ok_env [of True True m F E d]]) (use assms in \<open>simp_all add: view_of_def\<close>)
  then show ?thesis by (simp add: vb_write_env_def Let_def)
qed

text \<open>
  All states that a guest can drive the device into: it stores to its own memory, also while the
  device works, and writes to the device's registers, in any order and with any values.
\<close>

inductive blk_reach ::
  "bool \<Rightarrow> 'f file_ops \<Rightarrow> 'f virtio_block \<Rightarrow> guest_memory \<Rightarrow> 'f virtio_block \<Rightarrow> guest_memory \<Rightarrow> bool"
  for oc F d0 m0 where
  start: "blk_reach oc F d0 m0 d0 m0"
| store: "blk_reach oc F d0 m0 d m \<Longrightarrow> same_shape m m' \<Longrightarrow> blk_reach oc F d0 m0 d m'"
| mmio: "blk_reach oc F d0 m0 d m \<Longrightarrow> vb_write_env E oc F d m offset data = Some (Done (r, d', m')) \<Longrightarrow>
     blk_reach oc F d0 m0 d' m'"

inductive_cases blk_reachE: "blk_reach oc F d0 m0 d m"

lemma blk_reach_inv:
  assumes "blk_reach oc F d0 m0 d m" and "blk_inv d0"
  shows "blk_inv d \<and> same_shape m0 m \<and> vb_disk_size d = vb_disk_size d0"
  using assms
proof (induction rule: blk_reach.induct)
  case (store d m m')
  then show ?case by (auto intro: same_shape_trans)
next
  case (mmio d m E offset data r d' m')
  then show ?case using vb_write_env_frame [OF mmio.hyps(2)] by (auto intro: same_shape_trans)
qed simp

text \<open>
  C23. Under any sequence of guest stores and register writes, stores in the middle of a handler included, the interrupt status stays 0 or 1, the
  capacity that the configuration space reports stays that of the disk opened at start, and the
  guest memory keeps its size; and no register write is ever answered with an error.
\<close>

theorem blk_registers_invariant:
  assumes "blk_reach oc F (vb_new F path) m0 d m"
    and "vb_write_env E oc F d m offset data = Some (Done (r, d', m'))"
  shows "vb_reg d' VIRTIO_MMIO_INTERRUPT_STATUS \<in> {0, 1} \<and>
    vb_reg d' VIRTIO_MMIO_CONFIG = vb_reg (vb_new F path) VIRTIO_MMIO_CONFIG \<and>
    vb_reg d' 0x104 = vb_reg (vb_new F path) 0x104 \<and>
    gm_len m' = gm_len m0 \<and> (\<exists>irq. r = Inr irq)"
proof -
  from blk_reach.mmio [OF assms] blk_inv_new
  have "blk_inv d' \<and> same_shape m0 m' \<and> vb_disk_size d' = vb_disk_size (vb_new F path)"
    by (rule blk_reach_inv)
  with vb_write_env_frame(4) [OF assms(2)] show ?thesis
    by (auto simp: vb_reg_def mmio_regs blk_inv_def same_shape_def)
qed

theorem blk_registers_invariant_witness:
  "vb_reg (vb_new (image_ops [''d'' \<mapsto> replicate 1024 7]) (Some ''d''))
     VIRTIO_MMIO_CONFIG = 2 \<and>
   (\<exists>r d' m'. vb_write_env counting_guest True (image_ops [''d'' \<mapsto> replicate 1024 7])
      (vb_new (image_ops [''d'' \<mapsto> replicate 1024 7]) (Some ''d''))
      \<lparr>gm_ptr = 4096, gm_len = 16, gm_owned = True, gm_mapped = 32, gm_bytes = (\<lambda>_. 0)\<rparr>
      VIRTIO_MMIO_INTERRUPT_ACK [1, 0, 0, 0] = Some (Done (r, d', m')) \<and>
      vb_reg d' VIRTIO_MMIO_INTERRUPT_STATUS \<in> {0, 1})"
proof -
  let ?F = "image_ops [''d'' \<mapsto> replicate 1024 7]"
  let ?d = "vb_new ?F (Some ''d'')"
  let ?m = "\<lparr>gm_ptr = 4096, gm_len = 16, gm_owned = True, gm_mapped = 32, gm_bytes = (\<lambda>_. 0)\<rparr>"
  have cap: "vb_reg ?d VIRTIO_MMIO_CONFIG = 2"
    by (simp add: vb_reg_def mmio_regs vb_new_def image_ops_def img_open_def)
  have w: "vb_write_env counting_guest True ?F ?d ?m VIRTIO_MMIO_INTERRUPT_ACK [1, 0, 0, 0] =
      Some (Done (Inr False, vb_set_reg ?d VIRTIO_MMIO_INTERRUPT_ACK (from_le_bytes [1, 0, 0, 0]), ?m))"
    by (simp add: vb_write_env_def mmio_regs Let_def)
  from cap w blk_registers_invariant [OF blk_reach.start w] show ?thesis by blast
qed

text \<open>
  C17. Memory safety of the block device in a debug build: whatever the guest has put into its memory
  and its queue registers, and whatever it stores to its memory while the device works, between any
  two accesses, no register write makes the device touch a byte outside the mapping.
  The one hypothesis on the host is that a read fills at most its buffer.
\<close>

theorem blk_checked_memory_safe:
  assumes "gm_wf m" and "reads_fit F"
  shows "vb_write_env E True F d m offset data \<noteq> Some (Abort Undefined_Behaviour)"
  using vb_write_env_ub_free [OF assms] by (simp add: run_ub_free_def)

theorem blk_checked_memory_safe_witness:
  "vb_write_env counting_guest True (image_ops Map.empty) (vb_new (image_ops Map.empty) None)
     \<lparr>gm_ptr = 4096, gm_len = 16, gm_owned = True, gm_mapped = 32, gm_bytes = (\<lambda>_. 0)\<rparr>
     VIRTIO_MMIO_QUEUE_NOTIFY [0, 0, 0, 0] \<noteq> Some (Abort Undefined_Behaviour)"
  by (rule blk_checked_memory_safe) (simp_all add: gm_wf_def img.fits)

section \<open>Beside a quiet guest\<close>

lemma read_u16_atomic:
  "act_atomic (read_u16_env quiet oc a) (\<lambda>m. run_bind (Some (read_u16 oc m a)) (\<lambda>x. Some (Done (x, m))))"
  unfolding read_u16_env_def
  by (rule act_atomic_eq, (rule act_atomic_intros)+)
    (auto simp: read_u16_def run_bind_def split: exec.splits sum.splits)

lemma chain_phase_atomic:
  "act_atomic (chain_phase_env quiet oc e v) (\<lambda>m. run_bind (Some (chain_phase oc m e v)) (\<lambda>x. Some (Done (x, m))))"
  unfolding chain_phase_env_def
  by (rule act_atomic_eq, (rule act_atomic_intros)+)
    (auto simp: chain_phase_def run_bind_def split: exec.splits sum.splits)

lemma chain_step_atomic:
  "act_atomic (chain_step_env quiet oc t v) (\<lambda>m. run_bind (Some (chain_step oc m t v)) (\<lambda>x. Some (Done (x, m))))"
  unfolding chain_step_env_def Let_def
  by (rule act_atomic_eq, (rule act_atomic_intros chain_phase_atomic)+)
    (auto simp: chain_step_def Let_def run_bind_def split: exec.splits sum.splits)

lemma chain_walk_atomic:
  "act_atomic (chain_walk_env quiet oc t h) (\<lambda>m. run_bind (chain_walk oc m t h) (\<lambda>x. Some (Done (x, m))))"
  unfolding chain_walk_env_def
proof (rule act_atomic_eq, rule act_atomic_loop, rule chain_step_atomic)
  fix m
  let ?k = "\<lambda>s m. run_bind (Some (chain_step oc m t s)) (\<lambda>x. Some (Done (x, m)))"
  have "mem_body ?k (v, m) = run_map (map_sum (\<lambda>v. (v, m)) (\<lambda>v. (v, m))) (Some (chain_step oc m t v))" for v
    by (auto simp: mem_body_def run_map_def run_bind_def split: exec.split sum.split)
  from exec_loop_map [where f = "\<lambda>v. (v, m)" and body = "\<lambda>v. Some (chain_step oc m t v)", OF this]
  show "run_bind (chain_walk oc m t h) (\<lambda>x. Some (Done (x, m))) = exec_loop (mem_body ?k) (chain_init h, m)"
    by (simp add: chain_walk_def run_map_def)
qed

lemma chain_transfer_atomic:
  "act_atomic (chain_transfer_env quiet oc F d v)
     (\<lambda>m. run_bind (Some (chain_transfer oc F d m v)) (\<lambda>(d', m', t). Some (Done ((d', t), m'))))"
  unfolding chain_transfer_env_def Let_def
  by (rule act_atomic_eq, (rule act_atomic_intros)+)
    (auto simp: chain_transfer_def ignore_err_def Let_def run_bind_def split: exec.splits sum.splits option.splits prod.splits)

lemma chain_status_atomic:
  "act_atomic (chain_status_env quiet oc v t)
     (\<lambda>m. run_bind (Some (chain_status oc m v t)) (\<lambda>(m', t'). Some (Done (t', m'))))"
  unfolding chain_status_env_def
  by (rule act_atomic_eq, (rule act_atomic_intros)+)
    (auto simp: chain_status_def ignore_err_def write_u8_def run_bind_def split: exec.splits sum.splits)

lemma process_descriptor_chain_atomic:
  "act_atomic (process_descriptor_chain_env quiet oc F d t h)
     (\<lambda>m. run_bind (process_descriptor_chain oc F d m t h) (\<lambda>(d', m', w). Some (Done ((d', w), m'))))"
  unfolding process_descriptor_chain_env_def
  by (rule act_atomic_eq, (rule act_atomic_intros chain_walk_atomic chain_transfer_atomic chain_status_atomic)+)
    (auto simp: process_descriptor_chain_def run_bind_def split: exec.splits option.splits prod.splits)

lemma push_used_atomic:
  "act_atomic (push_used_env quiet oc used qs h w)
     (\<lambda>m. run_bind (Some (push_used oc m used qs h w)) (\<lambda>m'. Some (Done ((), m'))))"
  unfolding push_used_env_def Let_def
  by (rule act_atomic_eq, (rule act_atomic_intros read_u16_atomic)+)
    (auto simp: push_used_def Let_def ignore_err_def write_u32_def write_u16_def run_bind_def split: exec.splits sum.splits)

lemma queue_step_atomic:
  "act_atomic (queue_step_env quiet oc F qs desc avail used aidx (l, w, d))
     (\<lambda>m. run_bind (queue_step oc F qs desc avail used aidx \<lparr>qv_last_idx = l, qv_work_done = w, qv_dev = d, qv_mem = m\<rparr>)
        (\<lambda>x. Some (Done (case x of
           Inl q \<Rightarrow> (Inl (qv_last_idx q, qv_work_done q, qv_dev q), qv_mem q)
         | Inr q \<Rightarrow> (Inr (qv_last_idx q, qv_work_done q, qv_dev q), qv_mem q)))))"
  unfolding queue_step_env_def prod.case
  by (rule act_atomic_eq, (rule act_atomic_intros read_u16_atomic process_descriptor_chain_atomic push_used_atomic)+)
    (auto simp: queue_step_def run_bind_def split: exec.splits option.splits prod.splits)

lemma queue_loop_atomic:
  "act_atomic (act_loop (queue_step_env quiet oc F qs desc avail used aidx) (l, w, d))
     (\<lambda>m. run_bind (exec_loop (queue_step oc F qs desc avail used aidx)
          \<lparr>qv_last_idx = l, qv_work_done = w, qv_dev = d, qv_mem = m\<rparr>)
        (\<lambda>q. Some (Done ((qv_last_idx q, qv_work_done q, qv_dev q), qv_mem q))))"
proof (rule act_atomic_eq, rule act_atomic_loop)
  let ?k = "\<lambda>(l, w, d) m. run_bind (queue_step oc F qs desc avail used aidx \<lparr>qv_last_idx = l, qv_work_done = w, qv_dev = d, qv_mem = m\<rparr>)
        (\<lambda>x. Some (Done (case x of
           Inl q \<Rightarrow> (Inl (qv_last_idx q, qv_work_done q, qv_dev q), qv_mem q)
         | Inr q \<Rightarrow> (Inr (qv_last_idx q, qv_work_done q, qv_dev q), qv_mem q))))"
  let ?f = "\<lambda>q. ((qv_last_idx q, qv_work_done q, qv_dev q), qv_mem q)"
  show "act_atomic (queue_step_env quiet oc F qs desc avail used aidx s) (?k s)" for s
    by (cases s) (simp add: queue_step_atomic)
  fix m
  have "mem_body ?k (?f q) = run_map (map_sum ?f ?f) (queue_step oc F qs desc avail used aidx q)" for q
    by (cases q) (auto simp: mem_body_def run_map_def run_bind_def split: exec.split sum.split option.split)
  from exec_loop_map [where f = ?f and g = ?f and body' = "mem_body ?k", OF this,
      of "\<lparr>qv_last_idx = l, qv_work_done = w, qv_dev = d, qv_mem = m\<rparr>"]
  show "run_bind (exec_loop (queue_step oc F qs desc avail used aidx) \<lparr>qv_last_idx = l, qv_work_done = w, qv_dev = d, qv_mem = m\<rparr>)
        (\<lambda>q. Some (Done ((qv_last_idx q, qv_work_done q, qv_dev q), qv_mem q))) =
     exec_loop (mem_body ?k) ((l, w, d), m)"
    by (simp add: run_map_def)
qed

lemma process_queue_atomic:
  "act_atomic (process_queue_env quiet oc F d)
     (\<lambda>m. run_bind (process_queue oc F d m) (\<lambda>(irq, d', m'). Some (Done ((irq, d'), m'))))"
  unfolding process_queue_env_def Let_def
  by (rule act_atomic_eq, (rule act_atomic_intros read_u16_atomic queue_loop_atomic)+)
    (auto simp: process_queue_def Let_def run_bind_def split: exec.splits option.splits)

lemma forget_view: "run_map (\<lambda>((irq, d'), v). (Inr irq, d', mv_mem v)) r = run_map (\<lambda>((irq, d'), m). (Inr irq, d', m)) (forget r)"
  by (auto simp: forget_def run_map_def run_bind_def split: option.split exec.split)

lemma vb_write_quiet: "vb_write_env quiet oc F d m offset data = vb_write oc F d m offset data"
proof -
  have "forget (process_queue_env quiet oc F d (view_of m)) =
      run_bind (process_queue oc F d m) (\<lambda>(irq, d', m'). Some (Done ((irq, d'), m')))"
    using process_queue_atomic [of oc F d] by (simp add: act_atomic_def view_of_def)
  then show ?thesis
    by (auto simp: vb_write_env_def vb_write_def forget_view Let_def run_map_def run_bind_def
        split: option.split exec.split)
qed

section \<open>Beside a guest that leaves the request alone\<close>

lemma read_u16_follows: "leaves_alone E A \<Longrightarrow> act_follows A (read_u16_env E oc a) (read_u16_env quiet oc a)"
  unfolding read_u16_env_def by (rule act_follows_intros | assumption)+

lemma chain_walk_follows:
  "leaves_alone E A \<Longrightarrow> act_follows A (chain_walk_env E oc desc h) (chain_walk_env quiet oc desc h)"
  unfolding chain_walk_env_def chain_step_env_def chain_phase_env_def Let_def
  by (rule act_follows_intros | assumption)+

lemma chain_transfer_follows:
  "leaves_alone E A \<Longrightarrow> act_follows A (chain_transfer_env E oc F d v) (chain_transfer_env quiet oc F d v)"
  unfolding chain_transfer_env_def Let_def by (rule act_follows_intros | assumption)+

lemma chain_status_follows:
  "leaves_alone E A \<Longrightarrow> act_follows A (chain_status_env E oc v n) (chain_status_env quiet oc v n)"
  unfolding chain_status_env_def by (rule act_follows_intros | assumption)+

lemma push_used_follows:
  "leaves_alone E A \<Longrightarrow> act_follows A (push_used_env E oc used qs h n) (push_used_env quiet oc used qs h n)"
  unfolding push_used_env_def Let_def by (rule act_follows_intros read_u16_follows | assumption)+

lemma process_chain_follows:
  "leaves_alone E A \<Longrightarrow>
   act_follows A (process_descriptor_chain_env E oc F d desc h) (process_descriptor_chain_env quiet oc F d desc h)"
  unfolding process_descriptor_chain_env_def
  by (rule act_follows_intros chain_walk_follows chain_transfer_follows chain_status_follows | assumption)+

lemma process_queue_follows:
  "leaves_alone E A \<Longrightarrow> act_follows A (process_queue_env E oc F d) (process_queue_env quiet oc F d)"
  unfolding process_queue_env_def queue_step_env_def Let_def
  by (rule act_follows_intros read_u16_follows process_chain_follows push_used_follows | assumption)+

end
