(* ===== verification/Ax_Blk_Atomic.thy ===== *)
theory Ax_Blk_Atomic
  imports Ax_Virtio_Ring Ax_Blk_Env
begin

text \<open>
  When the block device may be taken to work in one step. The bytes it touches while it serves a batch
  are those of the queue, the request headers and the request buffers; beside a guest that leaves these
  alone it does what it does in isolation, whatever else the guest stores in the meantime.
\<close>

lemma read_u16_touch:
  assumes "{unat a..<unat a + 2} \<subseteq> S"
  shows "act_touch (read_u16_env quiet oc a) m S"
  unfolding read_u16_env_def
  by (rule act_touch_bind [OF act_atomic_read act_touch_read]) (use assms in \<open>simp_all add: act_touch_return\<close>)

section \<open>What a batch touches\<close>

lemma push_used_touch:
  assumes "ring_ok d m" and "used_region d \<subseteq> S"
  shows "act_touch (push_used_env quiet oc (vb_queue_used d) (q_size d) h w) m S"
proof -
  note idx = range_offset [OF ring_slot_ranges(4) [OF assms(1)], of 2, simplified]
  have i: "{unat x..<unat x + 2} \<subseteq> S" if "uadd oc (vb_queue_used d) 2 = Done x" for x
    using that idx(1,2) assms by (auto simp: used_region_def ring_ok_def)
  have slot: "{unat x..<unat x + 4} \<subseteq> S" "uadd oc x 4 = Done y \<Longrightarrow> {unat y..<unat y + 4} \<subseteq> S"
    if "uadd oc (vb_queue_used d) (4 + ucast (j mod q_size d) * 8) = Done x" for x y j
  proof -
    have off: "unat (4 + ucast (j mod q_size d) * 8 :: u64) = 4 + 8 * unat (j mod q_size d)"
      using slot_word [of 8 "j mod q_size d"] by simp
    note r = range_offset [OF ring_slot_ranges(2) [OF assms(1)] off]
    have x: "unat x = unat (vb_queue_used d) + (4 + 8 * unat (j mod q_size d))" "gm_range m x (4 + 4)"
      using r that by auto
    have "unat (j mod q_size d) < unat (q_size d)" using assms(1) mod_size_less by (auto simp: ring_ok_def)
    then have x8: "{unat x..<unat x + 8} \<subseteq> S" using x(1) assms(2) by (auto simp: used_region_def)
    then show "{unat x..<unat x + 4} \<subseteq> S" by auto
    show "{unat y..<unat y + 4} \<subseteq> S" if "uadd oc x 4 = Done y"
      using range_offset(1) [OF x(2), of 4 oc] range_offset(2) [OF x(2), of 4] that x8 by auto
  qed
  show ?thesis
    unfolding push_used_env_def Let_def
    by (intro act_touch_exec_bind act_touch_bind [OF read_u16_atomic read_u16_touch]
        act_touch_bind [OF act_atomic_write act_touch_write] act_touch_return)
      (use i slot in auto)
qed

lemma chain_phase_touch:
  assumes "cv_phase v = 0 \<Longrightarrow> {unat (vd_addr e)..<unat (vd_addr e) + 16} \<subseteq> S"
  shows "act_touch (chain_phase_env quiet oc e v) m S"
proof -
  have "unat (min 16 (ucast (vd_len e)) :: u64) \<le> 16" by (simp add: min_def word_le_nat_alt)
  then have "cv_phase v = 0 \<Longrightarrow> {unat (vd_addr e)..<unat (vd_addr e) + unat (min 16 (ucast (vd_len e)) :: u64)} \<subseteq> S"
    using assms by auto
  then show ?thesis
    unfolding chain_phase_env_def
    by (auto intro!: act_touch_return act_touch_bind [OF act_atomic_read act_touch_read])
qed

text \<open>The walk of a chain touches its descriptors and the header.\<close>

lemma chain_step_touch:
  assumes "gm_wf m" and "desc_in m t (cv_next_idx v)"
    and "{unat t + 16 * unat (cv_next_idx v)..<unat t + 16 * unat (cv_next_idx v) + 16} \<subseteq> S"
    and "cv_phase v = 0 \<Longrightarrow> (let a = unat (vd_addr (desc_entry m t (cv_next_idx v))) in {a..<a + 16}) \<subseteq> S"
  shows "act_touch (chain_step_env quiet oc t v) m S"
proof -
  let ?i = "cv_next_idx v"
  note mul = index_scale [where c = 16 and i = ?i, simplified]
  note off = range_offset [OF assms(2) [unfolded desc_in_def], of "ucast ?i * 16"]
  have rd: "read_slice oc m (t + ucast ?i * 16) 16 = Done (Inr (mem_get (gm_bytes m) (unat t + 16 * unat ?i) 16))"
    using assms(1) off(2,3) mul(2) by (subst read_slice_ok) simp_all
  have in_S: "{unat (t + ucast ?i * 16)..<unat (t + ucast ?i * 16) + unat (16 :: u64)} \<subseteq> S"
    using off(2) mul(2) assms(3) by simp
  have "act_touch (act_bind (read_slice_env quiet oc (t + ucast ?i * 16) 16) (\<lambda>r.
       case r of Inl _ \<Rightarrow> act_return (Inr v)
       | Inr bs \<Rightarrow> act_bind (chain_phase_env quiet oc (decode_desc bs) v) (\<lambda>v'.
           act_return (if has_next (decode_desc bs) then Inl (v'\<lparr>cv_next_idx := vd_next (decode_desc bs)\<rparr>) else Inr v')))) m S"
    by (rule act_touch_bind [OF act_atomic_read act_touch_read [OF in_S]])
      (use assms(4) in \<open>auto simp: rd desc_entry_def Let_def
        intro!: act_touch_return act_touch_bind [OF chain_phase_atomic chain_phase_touch]\<close>)
  then show ?thesis
    unfolding chain_step_env_def Let_def
    by (intro act_touch_exec_bind) (use mul off(1) in auto)
qed

definition on_path :: "guest_memory \<Rightarrow> u64 \<Rightarrow> u16 list \<Rightarrow> chain_vars \<Rightarrow> bool" where
  "on_path m t p v \<longleftrightarrow> (\<exists>ks. set (cv_next_idx v # ks) \<subseteq> set p \<and> chain_path m t (cv_next_idx v # ks)) \<and>
     (cv_phase v = 0 \<longrightarrow> cv_next_idx v = hd p)"

lemma chain_path_head: "chain_path m t (i # ks) \<Longrightarrow> desc_in m t i"
  by (cases ks) simp_all

lemma on_path_step:
  assumes "gm_wf m" and "on_path m t p v" and "chain_step oc m t v = Done (Inl v')"
  shows "on_path m t p v'"
proof -
  obtain ks where ks: "set (cv_next_idx v # ks) \<subseteq> set p" "chain_path m t (cv_next_idx v # ks)"
    using assms(2) by (auto simp: on_path_def)
  from assms(3) have next_desc: "has_next (desc_entry m t (cv_next_idx v))"
    "cv_next_idx v' = vd_next (desc_entry m t (cv_next_idx v))"
    by (auto simp: chain_step_in [OF assms(1) chain_path_head [OF ks(2)]] Let_def split: if_splits)
  with ks chain_step_phase [OF assms(3)] show ?thesis by (cases ks) (auto simp: on_path_def)
qed

lemma chain_walk_touch:
  assumes "gm_wf m" and "chain_path m t p"
    and "\<And>i. i \<in> set p \<Longrightarrow> {unat t + 16 * unat i..<unat t + 16 * unat i + 16} \<subseteq> S"
    and "(let a = unat (vd_addr (desc_entry m t (hd p))) in {a..<a + 16}) \<subseteq> S"
  shows "act_touch (chain_walk_env quiet oc t (hd p)) m S"
  unfolding chain_walk_env_def
proof (rule act_touch_loop [OF chain_step_atomic, where I = "\<lambda>v m'. m' = m \<and> on_path m t p v"])
  show "m = m \<and> on_path m t p (chain_init (hd p))"
    using assms(2) by (cases p) (auto simp: chain_init_def on_path_def)
  show "act_touch (chain_step_env quiet oc t v) m' S" if "m' = m \<and> on_path m t p v" for v m'
    using that assms by (auto simp: on_path_def intro!: chain_step_touch chain_path_head)
  show "m'' = m \<and> on_path m t p v'" if "m' = m \<and> on_path m t p v"
    "run_bind (Some (chain_step oc m' t v)) (\<lambda>x. Some (Done (x, m'))) = Some (Done (Inl v', m''))" for v m' v' m''
    using that on_path_step [OF assms(1)] by (auto simp: run_bind_eq_Done)
qed

lemma chain_transfer_touch:
  assumes "{unat (cv_data_addr v)..<unat (cv_data_addr v) + unat (cv_data_len v)} \<subseteq> S" and "reads_fit F"
  shows "act_touch (chain_transfer_env quiet oc F d v) m S"
proof -
  have buf: "a \<in> S" if "fo_read F f (unat (cv_data_len v)) = (Inr bs, f')" "unat (cv_data_addr v) \<le> a"
    "a < unat (cv_data_addr v) + length bs" for f bs f' a
    using reads_fitD [OF assms(2) that(1)] that(2,3) assms(1) by (auto simp: subset_iff)
  show ?thesis
    unfolding chain_transfer_env_def Let_def
    by (auto intro!: act_touch_return act_touch_exec_bind act_touch_bind [OF act_atomic_read act_touch_read]
        act_touch_bind [OF act_atomic_write act_touch_write] split: option.split sum.split prod.split)
      (use assms(1) in \<open>auto dest: buf\<close>)
qed

lemma chain_status_touch:
  assumes "unat (cv_status_addr v) \<in> S"
  shows "act_touch (chain_status_env quiet oc v t) m S"
  unfolding chain_status_env_def
  by (auto intro!: act_touch_return act_touch_exec act_touch_bind [OF act_atomic_write act_touch_write])
    (use assms in auto)

lemma request_touch:
  assumes "driver_request m t p" and "reads_fit F"
    and "\<And>i. i \<in> set p \<Longrightarrow> {unat t + 16 * unat i..<unat t + 16 * unat i + 16} \<subseteq> S"
    and "(let a = unat (vd_addr (desc_entry m t (hd p))) in {a..<a + 16}) \<subseteq> S"
    and "buffers (chain_request m t p) \<subseteq> S"
  shows "act_touch (process_descriptor_chain_env quiet oc F d t (hd p)) m S"
  unfolding process_descriptor_chain_env_def
proof (rule act_touch_bind [OF chain_walk_atomic chain_walk_touch])
  note dr = assms(1) [unfolded driver_request_def]
  show "gm_wf m" "chain_path m t p" using dr by simp_all
  fix v m' assume "run_bind (chain_walk oc m t (hd p)) (\<lambda>x. Some (Done (x, m))) = Some (Done (v, m'))"
  then have v: "v = chain_request m t p" "m' = m" using chain_walk_path [of m t p oc] dr by auto
  show "act_touch (act_bind (chain_transfer_env quiet oc F d v) (\<lambda>(d', total).
     act_bind (chain_status_env quiet oc v total) (\<lambda>total'. act_return (d', total')))) m' S"
    by (rule act_touch_bind [OF chain_transfer_atomic chain_transfer_touch])
      (use assms(2,5) v in \<open>auto simp: buffers_def intro!: act_touch_return
        act_touch_bind [OF chain_status_atomic chain_status_touch]\<close>)
qed (use assms in auto)

text \<open>All that the device reads or writes while it serves a batch.\<close>

definition batch_region :: "'f virtio_block \<Rightarrow> guest_memory \<Rightarrow> u16 list list \<Rightarrow> nat set" where
  "batch_region d m ps = driver_region d m ps \<union> used_region d \<union> batch_buffers d m ps"

lemma batch_request_touch:
  assumes b: "batch d m ps" and F: "reads_fit F" and k: "k < length ps" and q: "batch_done d m ps k q"
  shows "act_touch (process_descriptor_chain_env quiet oc F (qv_dev q) (vb_queue_desc d) (hd (ps ! k))) (qv_mem q)
    (batch_region d m ps)"
proof -
  let ?p = "ps ! k" and ?t = "vb_queue_desc d"
  have p: "?p \<in> set ps" using k by simp
  have ag: "agree_on (- (used_region d \<union> batch_buffers d m ps)) m (qv_mem q)" using q by (simp add: batch_done_def)
  have dr: "agree_on (table_region d \<union> header_region d m ?p) m (qv_mem q)"
    using driver_region_kept [OF b ag] by (rule agree_on_subset) (use p in \<open>auto simp: driver_region_def\<close>)
  note req = driver_request_agree [OF dr batch_request(2,1) [OF b p]]
  have hd: "hd ?p \<in> set ?p" using req(1) by (cases ?p) (auto simp: driver_request_def)
  have e: "desc_entry (qv_mem q) ?t (hd ?p) = desc_entry m ?t (hd ?p)"
    by (rule desc_entry_agree [OF agree_on_subset [OF dr] batch_request(2) [OF b p hd]]) simp
  have tab: "{unat ?t + 16 * unat i..<unat ?t + 16 * unat i + 16} \<subseteq> table_region d" if "i \<in> set ?p" for i
    using batch_request(2) [OF b p that] by (auto simp: table_region_def word_less_nat_alt)
  show ?thesis
    by (rule request_touch [OF req(1) F])
      (use tab p e in \<open>auto simp: req(2) batch_region_def driver_region_def batch_buffers_def header_region_def Let_def\<close>)
qed

lemma batch_step_touch:
  assumes b: "batch d m ps" and F: "reads_fit F" and k: "k < length ps" and q: "batch_done d m ps k q"
  shows "act_touch (queue_step_env quiet oc F (q_size d) (vb_queue_desc d) (vb_queue_avail d) (vb_queue_used d)
     (avail_idx d m) (qv_last_idx q, qv_work_done q, qv_dev q)) (qv_mem q) (batch_region d m ps)"
proof -
  let ?S = "batch_region d m ps" and ?j = "qv_last_idx q mod q_size d"
  obtain d1 m1 w m2 where pc: "process_descriptor_chain oc F (qv_dev q) (qv_mem q) (vb_queue_desc d) (hd (ps ! k)) =
      Some (Done (d1, m1, w))" "ring_ok d m1"
    by (rule batch_iteration [OF b F k q, of oc])
  have ag: "agree_on (- (used_region d \<union> batch_buffers d m ps)) m (qv_mem q)" and
    li: "qv_last_idx q = vb_last_avail_idx d + of_nat k" using q by (simp_all add: batch_done_def)
  have ring: "ring_ok d (qv_mem q)" using ring_ok_agree [OF ag, of d] b by (simp add: batch_def)
  then have qs: "q_size d \<noteq> 0" "gm_wf (qv_mem q)" by (simp_all add: ring_ok_def)
  have off: "unat (4 + ucast ?j * 2 :: u64) = 4 + 2 * unat ?j" using slot_word [of 2 ?j] by simp
  note slot = range_offset [OF ring_slot_ranges(1) [OF ring] off]
  have in_S: "{unat x..<unat x + 2} \<subseteq> ?S" if "uadd oc (vb_queue_avail d) (4 + ucast ?j * 2) = Done x" for x
    using that slot(1,2) mod_size_less [OF qs(1), of "qv_last_idx q"]
    by (auto simp: batch_region_def driver_region_def avail_region_def)
  have "avail_head d (qv_mem q) (qv_last_idx q) = avail_head d m (qv_last_idx q)"
    by (rule avail_head_agree [OF agree_on_subset [OF driver_region_kept [OF b ag]] qs(1)]) (auto simp: driver_region_def)
  then have head: "read_u16 oc (qv_mem q) x = Done (Some (hd (ps ! k)))"
    if "uadd oc (vb_queue_avail d) (4 + ucast ?j * 2) = Done x" for x
    using that slot qs(2) b k li by (auto simp: read_u16_ok avail_head_def avail_slot_def batch_def)
  show ?thesis
    unfolding queue_step_env_def prod.case
    by (auto simp: head pc(1) run_bind_eq_Done intro!: act_touch_return act_touch_exec_bind
        act_touch_bind [OF read_u16_atomic read_u16_touch [OF in_S]]
        act_touch_bind [OF process_descriptor_chain_atomic batch_request_touch [OF b F k q]]
        act_touch_bind [OF push_used_atomic push_used_touch [OF pc(2)]])
      (auto simp: batch_region_def)
qed

text \<open>The state of the loop as the variables of the source and back.\<close>

abbreviation loop_vars :: "u16 \<times> bool \<times> 'f virtio_block \<Rightarrow> guest_memory \<Rightarrow> 'f queue_vars" where
  "loop_vars s m \<equiv> \<lparr>qv_last_idx = fst s, qv_work_done = fst (snd s), qv_dev = snd (snd s), qv_mem = m\<rparr>"

lemma batch_loop_touch:
  assumes b: "batch d m ps" and F: "reads_fit F"
  shows "act_touch (act_loop (queue_step_env quiet oc F (q_size d) (vb_queue_desc d) (vb_queue_avail d) (vb_queue_used d)
     (avail_idx d m)) (vb_last_avail_idx d, False, d)) m (batch_region d m ps)"
proof -
  let ?I = "\<lambda>s m'. \<exists>k \<le> length ps. batch_done d m ps k (loop_vars s m')"
  let ?step = "queue_step oc F (q_size d) (vb_queue_desc d) (vb_queue_avail d) (vb_queue_used d) (avail_idx d m)"
  let ?k = "\<lambda>s m. run_bind (?step (loop_vars s m)) (\<lambda>x. Some (Done (case x of
      Inl q \<Rightarrow> (Inl (qv_last_idx q, qv_work_done q, qv_dev q), qv_mem q)
    | Inr q \<Rightarrow> (Inr (qv_last_idx q, qv_work_done q, qv_dev q), qv_mem q))))"
  have last: "fst s = avail_idx d m" if "batch_done d m ps (length ps) (loop_vars s m')" for s m'
    using that b by (simp add: batch_done_def batch_def pending_def)
  show ?thesis
  proof (rule act_touch_loop [where I = ?I and k = ?k])
    show "?I (vb_last_avail_idx d, False, d) m" by (intro exI [of _ 0]) (simp add: batch_done_def)
  next
    fix s :: "u16 \<times> bool \<times> 'a virtio_block"
    show "act_atomic (queue_step_env quiet oc F (q_size d) (vb_queue_desc d) (vb_queue_avail d) (vb_queue_used d)
        (avail_idx d m) s) (?k s)"
      using queue_step_atomic [of oc F "q_size d" "vb_queue_desc d" "vb_queue_avail d" "vb_queue_used d" "avail_idx d m"
          "fst s" "fst (snd s)" "snd (snd s)"] by simp
  next
    fix s m' assume "?I s m'"
    then obtain k where k: "k \<le> length ps" "batch_done d m ps k (loop_vars s m')" by blast
    show "act_touch (queue_step_env quiet oc F (q_size d) (vb_queue_desc d) (vb_queue_avail d) (vb_queue_used d)
        (avail_idx d m) s) m' (batch_region d m ps)"
    proof (cases "k < length ps")
      case True
      from batch_step_touch [OF b F True k(2), of oc] show ?thesis by simp
    next
      case False
      with k last [of s m'] show ?thesis by (cases s) (simp add: queue_step_env_def act_touch_return)
    qed
  next
    fix s m' s' m'' assume "?I s m'" and s': "?k s m' = Some (Done (Inl s', m''))"
    then obtain k where k: "k \<le> length ps" "batch_done d m ps k (loop_vars s m')" by blast
    from s' obtain q where q: "?step (loop_vars s m') = Some (Done (Inl q))" "loop_vars s' m'' = q"
      by (auto split: sum.splits)
    then have "k < length ps" using k last [of s m'] by (cases "k = length ps") (simp_all add: queue_step_def)
    with batch_step [OF b F _ k(2), of oc] q show "?I s' m''" by (intro exI [of _ "Suc k"]) auto
  qed
qed

lemma batch_touch:
  assumes b: "batch d m ps" and F: "reads_fit F"
  shows "act_touch (process_queue_env quiet oc F d) m (batch_region d m ps)"
proof -
  have ring: "ring_ok d m" using b by (simp add: batch_def)
  note idx = range_offset [OF ring_slot_ranges(3) [OF ring], of 2, simplified]
  have rd: "read_u16 oc m (vb_queue_avail d + 2) = Done (Some (avail_idx d m))"
    using ring idx by (simp add: read_u16_ok avail_idx_def ring_ok_def)
  have in_S: "{unat (vb_queue_avail d + 2)..<unat (vb_queue_avail d + 2) + 2} \<subseteq> batch_region d m ps"
    using idx(2) by (auto simp: batch_region_def driver_region_def avail_region_def)
  have "act_touch (act_bind (read_u16_env quiet oc (vb_queue_avail d + 2)) (\<lambda>a. case a of None \<Rightarrow> act_return (False, d)
     | Some aidx \<Rightarrow> act_bind (act_loop (queue_step_env quiet oc F (q_size d) (vb_queue_desc d) (vb_queue_avail d)
          (vb_queue_used d) aidx) (vb_last_avail_idx d, False, d)) (\<lambda>(last_idx, work_done, d1).
        act_return (if work_done
          then (True, d1\<lparr>vb_last_avail_idx := last_idx, vb_interrupt_status := vb_interrupt_status (d1\<lparr>vb_last_avail_idx := last_idx\<rparr>) OR 1\<rparr>)
          else (False, d1\<lparr>vb_last_avail_idx := last_idx\<rparr>))))) m (batch_region d m ps)"
    by (rule act_touch_bind [OF read_u16_atomic read_u16_touch [OF in_S]])
      (auto simp: rd intro!: act_touch_return act_touch_bind [OF queue_loop_atomic batch_loop_touch [OF b F]] split: prod.split)
  then show ?thesis
    unfolding process_queue_env_def Let_def
    by (auto simp: q_size_def idx(1) intro!: act_touch_return act_touch_exec_bind)
qed

section \<open>Atomicity\<close>

lemma batch_atomic:
  assumes "batch d m ps" and "reads_fit F" and "leaves_alone E A" and "batch_region d m ps \<subseteq> A"
    and "process_queue oc F d m = Some (Done (irq, d', m1))"
  shows "\<exists>v. process_queue_env E oc F d (view_of m) = Some (Done ((irq, d'), v)) \<and> agree_on A m1 (mv_mem v)"
  using act_follows_atomic [OF process_queue_follows [OF assms(3)] process_queue_atomic _ batch_touch [OF assms(1,2)] assms(4), of oc _ _ "view_of m"]
    assms(5) by simp

lemma notify_atomic:
  assumes "batch d m ps" and "reads_fit F" and "leaves_alone E A" and "batch_region d m ps \<subseteq> A" and "4 \<le> length data"
  shows "\<exists>d' m1 m2. vb_write oc F d m VIRTIO_MMIO_QUEUE_NOTIFY data = Some (Done (Inr (ps \<noteq> []), d', m1)) \<and>
    vb_write_env E oc F d m VIRTIO_MMIO_QUEUE_NOTIFY data = Some (Done (Inr (ps \<noteq> []), d', m2)) \<and> agree_on A m1 m2"
proof -
  obtain d' m1 where p: "process_queue oc F d m = Some (Done (ps \<noteq> [], d', m1))"
    using batch_processed [OF assms(1,2), of oc] by blast
  from batch_atomic [OF assms(1-4) p] p assms(5) show ?thesis
    by (auto simp: vb_write_def vb_write_env_def Let_def)
qed

text \<open>
  C14. Atomicity of the block device. When the guest notifies a batch of well-formed requests and, while
  the device works, leaves alone the bytes of the queue, of the request headers and of the request
  buffers, the handler returns what it returns in isolation, with the same registers and the same disk,
  however the guest's other stores interleave with its accesses; and the memory is that of the
  isolated run wherever the guest has not stored.
\<close>

theorem blk_batch_atomic:
  assumes "batch d m ps" and "reads_fit F" and "leaves_alone E A" and "batch_region d m ps \<subseteq> A" and "4 \<le> length data"
  shows "\<exists>d' m1 m2. vb_write oc F d m VIRTIO_MMIO_QUEUE_NOTIFY data = Some (Done (Inr (ps \<noteq> []), d', m1)) \<and>
    vb_write_env E oc F d m VIRTIO_MMIO_QUEUE_NOTIFY data = Some (Done (Inr (ps \<noteq> []), d', m2)) \<and> agree_on A m1 m2"
  using assms by (rule notify_atomic)

lemma ring_example_region: "batch_region ring_disk ring_mem [[0, 1, 2]] \<subseteq> {1..}"
proof -
  have "header_region ring_disk ring_mem [0, 1, 2] = {0x200..<0x210}"
    by (simp add: header_region_def ring_example_regs ring_example_request)
  then show ?thesis
    by (auto simp: batch_region_def driver_region_def avail_region_def table_region_def used_region_def
        batch_buffers_def buffers_def ring_example_regs ring_example_size ring_example_request)
qed

theorem blk_batch_atomic_witness:
  "\<exists>d' m1 m2. vb_write True (image_ops Map.empty) ring_disk ring_mem VIRTIO_MMIO_QUEUE_NOTIFY [0, 0, 0, 0] =
      Some (Done (Inr True, d', m1)) \<and>
    vb_write_env counting_guest True (image_ops Map.empty) ring_disk ring_mem VIRTIO_MMIO_QUEUE_NOTIFY [0, 0, 0, 0] =
      Some (Done (Inr True, d', m2)) \<and> agree_on {1..} m1 m2"
  using blk_batch_atomic [OF ring_example_batch img.fits counting_guest_alone ring_example_region] by auto

end
