(* ===== verification/Ax_Blk_Refine.thy ===== *)
theory Ax_Blk_Refine
  imports Ax_Blk_Atomic Ax_Block_Spec
begin

text \<open>
  The block device beside a running guest refines the abstract disk: one notification, and the whole
  life of the device as a sequence of register writes.
\<close>

section \<open>One notification\<close>

lemma batch_buffers_region: "v \<in> set (batch_requests d m ps) \<Longrightarrow> buffers v \<subseteq> batch_region d m ps"
  by (auto simp: batch_region_def batch_buffers_def)

lemma notify_refines:
  assumes b: "batch d m ps" and vs: "vs = batch_requests d m ps" and f: "vb_disk d = Some f"
    and sep: "separate_buffers vs" and fits: "\<forall>v \<in> set vs. request_fits (length (img_data f)) (abs_request m v)"
    and E: "leaves_alone E A" "batch_region d m ps \<subseteq> A" and data: "4 \<le> length data"
  shows "\<exists>d' f' m'. vb_write_env E oc (image_ops fs) d m VIRTIO_MMIO_QUEUE_NOTIFY data =
      Some (Done (Inr (ps \<noteq> []), d', m')) \<and> vb_disk d' = Some f' \<and>
    disk_run (map (abs_request m) vs) (img_data f) = (img_data f', map (read_back m') vs) \<and>
    (\<forall>v \<in> set vs. status_byte m' v = VIRTIO_BLK_S_OK)"
proof -
  obtain d' f' m1 where iso: "process_queue oc (image_ops fs) d m = Some (Done (ps \<noteq> [], d', m1))"
    "vb_disk d' = Some f'" "disk_run (map (abs_request m) vs) (img_data f) = (img_data f', map (read_back m1) vs)"
    "\<forall>v \<in> set vs. status_byte m1 v = VIRTIO_BLK_S_OK"
    using batch_refines_disk [OF b vs f sep fits] by blast
  obtain w where w: "process_queue_env E oc (image_ops fs) d (view_of m) = Some (Done ((ps \<noteq> [], d'), w))"
    "agree_on A m1 (mv_mem w)"
    using batch_atomic [OF b img.fits E iso(1)] by blast
  have "agree_on (buffers v) m1 (mv_mem w)" if "v \<in> set vs" for v
    using w(2) by (rule agree_on_subset) (use batch_buffers_region that vs E(2) in blast)
  note kept = buffer_reads_agree(2,3) [OF this]
  have "map (read_back (mv_mem w)) vs = map (read_back m1) vs" using kept(1) by simp
  with iso w(1) kept(2) data show ?thesis
    by (auto simp: vb_write_env_def Let_def)
qed

section \<open>The life of the device\<close>

text \<open>
  Register writes as a driver issues them: between two of them guest memory is whatever the guest has
  made of it, a notification finds a batch of requests, and while it is served the guest leaves that
  batch alone. The second and third argument collect the requests of all batches and the data that is
  in their buffers when the notification returns.
\<close>

inductive blk_session ::
  "bool \<Rightarrow> (string \<Rightarrow> bytes option) \<Rightarrow> image virtio_block \<Rightarrow> disk_request list \<Rightarrow> bytes list \<Rightarrow> image virtio_block \<Rightarrow> bool"
  for oc :: bool and fs :: "string \<Rightarrow> bytes option" where
  session_idle: "blk_session oc fs d [] [] d"
| session_register: "offset \<noteq> VIRTIO_MMIO_QUEUE_NOTIFY \<or> length data < 4 \<Longrightarrow>
    vb_write_env E oc (image_ops fs) d m offset data = Some (Done (r, d1, m1)) \<Longrightarrow>
    blk_session oc fs d1 rs outs d2 \<Longrightarrow> blk_session oc fs d rs outs d2"
| session_notify: "batch d m ps \<Longrightarrow> vb_disk d = Some f \<Longrightarrow> separate_buffers (batch_requests d m ps) \<Longrightarrow>
    \<forall>v \<in> set (batch_requests d m ps). request_fits (length (img_data f)) (abs_request m v) \<Longrightarrow>
    leaves_alone E A \<Longrightarrow> batch_region d m ps \<subseteq> A \<Longrightarrow> 4 \<le> length data \<Longrightarrow>
    vb_write_env E oc (image_ops fs) d m VIRTIO_MMIO_QUEUE_NOTIFY data = Some (Done (r, d1, m1)) \<Longrightarrow>
    blk_session oc fs d1 rs outs d2 \<Longrightarrow>
    blk_session oc fs d (map (abs_request m) (batch_requests d m ps) @ rs)
      (map (read_back m1) (batch_requests d m ps) @ outs) d2"

lemma disk_run_append:
  "disk_run (xs @ ys) disk = (let (disk1, outs) = disk_run xs disk; (disk2, outs') = disk_run ys disk1
     in (disk2, outs @ outs'))"
  by (induction xs arbitrary: disk) (auto simp: Let_def split: prod.splits)

lemma vb_set_reg_disk: "vb_disk (vb_set_reg d offset val) = vb_disk d"
  by (simp add: vb_set_reg_def Let_def)

lemma register_keeps_disk:
  "offset \<noteq> VIRTIO_MMIO_QUEUE_NOTIFY \<or> length data < 4 \<Longrightarrow>
   vb_write_env E oc F d m offset data = Some (Done (r, d1, m1)) \<Longrightarrow> vb_disk d1 = vb_disk d"
  by (auto simp: vb_write_env_def Let_def vb_set_reg_disk split: if_splits)

lemma session_refines:
  "blk_session oc fs d rs outs d' \<Longrightarrow> vb_disk d = Some f \<Longrightarrow>
   \<exists>f'. vb_disk d' = Some f' \<and> disk_run rs (img_data f) = (img_data f', outs)"
proof (induction arbitrary: f rule: blk_session.induct)
  case (session_register offset data E d m r d1 m1 rs outs d2)
  from session_register.IH [of f] register_keeps_disk [OF session_register(1,2)] session_register.prems
  show ?case by simp
next
  case (session_notify d m ps g E A data r d1 m1 rs outs d2)
  then have "g = f" by simp
  with notify_refines [OF session_notify(1) refl session_notify(2-7), of oc fs] session_notify(8)
  obtain f1 where "vb_disk d1 = Some f1" "disk_run (map (abs_request m) (batch_requests d m ps)) (img_data f) =
      (img_data f1, map (read_back m1) (batch_requests d m ps))" by auto
  with session_notify.IH [of f1] show ?case by (auto simp: disk_run_append)
qed simp

section \<open>Properties\<close>

text \<open>
  C1. The block device refines the abstract disk. Over any sequence of register writes, resets of the
  device and reconfigurations of the queue among them, with batches of requests that lie within the
  disk image, read at most what the host transfers in one call (\<open>MAX_RW_COUNT\<close>) and use separate buffers, and beside a guest that stores anything at any time except into
  the batch that is being served: the image ends as what the abstract disk becomes when it takes all
  requests in the order of their rings and notifications, and the data that the abstract disk delivers
  is what the driver finds in the buffers of its read requests. The data of a request is that of its
  data descriptor; where a chain has several of them it is the last one, as the device takes it (see
  \<open>blk_scattered_request_loses\<close> for what becomes of the others).
\<close>

theorem blk_refines_disk:
  assumes "blk_session oc fs d rs outs d'" and "vb_disk d = Some f"
  shows "\<exists>f'. vb_disk d' = Some f' \<and> disk_run rs (img_data f) = (img_data f', outs)"
  using assms by (rule session_refines)

lemma two_region: "batch_region two_disk two_mem [[0, 1, 2], [3, 4, 5]] \<subseteq> {1..}"
proof -
  have "header_region two_disk two_mem [0, 1, 2] = {0x200..<0x210}"
    "header_region two_disk two_mem [3, 4, 5] = {0x210..<0x220}"
    by (simp_all add: header_region_def two_regs two_requests)
  then show ?thesis
    by (auto simp: batch_region_def driver_region_def avail_region_def table_region_def used_region_def
        batch_buffers_def buffers_def two_regs two_requests)
qed

lemma two_fit:
  "\<forall>v \<in> set (batch_requests two_disk two_mem [[0, 1, 2], [3, 4, 5]]). request_fits (length [9, 8, 7, 6, 5, 4 :: u8]) (abs_request two_mem v)"
  by (simp add: two_regs two_requests two_ring abs_request_def MAX_RW_COUNT_def)

lemma two_abstract:
  "map (abs_request two_mem) (batch_requests two_disk two_mem [[0, 1, 2], [3, 4, 5]]) = [Disk_Write 0 [1, 2, 3, 4], Disk_Read 0 4]"
  by (simp add: two_regs two_requests two_ring abs_request_def)

text \<open>The driver notifies two requests, the guest counting meanwhile, and then acknowledges the interrupt.\<close>

lemma two_session:
  "\<exists>outs d'. blk_session False Map.empty two_disk [Disk_Write 0 [1, 2, 3, 4], Disk_Read 0 4] outs d'"
proof -
  let ?F = "image_ops Map.empty" and ?ps = "[[0, 1, 2], [3, 4, 5]]"
  obtain d1 m1 where n: "vb_write_env counting_guest False ?F two_disk two_mem VIRTIO_MMIO_QUEUE_NOTIFY [0, 0, 0, 0] =
      Some (Done (Inr True, d1, m1))"
    using notify_refines [OF two_batch refl two_regs(7) two_separate _ counting_guest_alone two_region, of "[0, 0, 0, 0]" False Map.empty]
      two_fit by auto
  have ne: "VIRTIO_MMIO_INTERRUPT_ACK \<noteq> VIRTIO_MMIO_QUEUE_NOTIFY" by (simp add: mmio_regs)
  have "\<exists>d2. vb_write_env counting_guest False ?F d1 m1 VIRTIO_MMIO_INTERRUPT_ACK [1, 0, 0, 0] = Some (Done (Inr False, d2, m1))"
    by (simp add: vb_write_env_def Let_def mmio_regs)
  then obtain d2 where "blk_session False Map.empty d1 [] [] d2"
    using session_register [OF disjI1 [OF ne] _ session_idle] by blast
  from session_notify [OF two_batch two_regs(7) two_separate _ counting_guest_alone two_region _ n this] two_fit
  show ?thesis unfolding two_abstract by auto
qed

theorem blk_refines_disk_witness:
  "\<exists>d' f'. blk_session False Map.empty two_disk [Disk_Write 0 [1, 2, 3, 4], Disk_Read 0 4] [[], [1, 2, 3, 4]] d' \<and>
     vb_disk d' = Some f' \<and> img_data f' = [1, 2, 3, 4, 5, 4]"
proof -
  obtain outs d' where s: "blk_session False Map.empty two_disk [Disk_Write 0 [1, 2, 3, 4], Disk_Read 0 4] outs d'"
    using two_session by blast
  from blk_refines_disk [OF s two_regs(7)] s show ?thesis by auto
qed

text \<open>
  C2. A notification returns, and in the state the driver expects. For a batch of requests within the image, of
  lengths that the host reads in one call and with separate buffers, in both build profiles and beside a guest that leaves the batch alone, the
  handler ends; the image and the buffers are what the abstract disk makes of the requests in the
  order of the ring, and every status byte says that its request succeeded. As in the refinement above,
  the data of a chain with several data descriptors is that of the last one.
\<close>

theorem blk_notify_refines:
  assumes "batch d m ps" and "vs = batch_requests d m ps" and "vb_disk d = Some f" and "separate_buffers vs"
    and "\<forall>v \<in> set vs. request_fits (length (img_data f)) (abs_request m v)"
    and "leaves_alone E A" and "batch_region d m ps \<subseteq> A" and "4 \<le> length data"
  shows "\<exists>d' f' m'. vb_write_env E oc (image_ops fs) d m VIRTIO_MMIO_QUEUE_NOTIFY data =
      Some (Done (Inr (ps \<noteq> []), d', m')) \<and> vb_disk d' = Some f' \<and>
    disk_run (map (abs_request m) vs) (img_data f) = (img_data f', map (read_back m') vs) \<and>
    (\<forall>v \<in> set vs. status_byte m' v = VIRTIO_BLK_S_OK)"
  using assms by (rule notify_refines)

theorem blk_notify_refines_witness:
  "\<exists>d' f' m'. vb_write_env counting_guest False (image_ops Map.empty) two_disk two_mem VIRTIO_MMIO_QUEUE_NOTIFY [0, 0, 0, 0] =
      Some (Done (Inr True, d', m')) \<and> vb_disk d' = Some f' \<and> img_data f' = [1, 2, 3, 4, 5, 4] \<and>
    mem_get (gm_bytes m') 0x310 4 = [1, 2, 3, 4] \<and> gm_bytes m' 0x400 = 0 \<and> gm_bytes m' 0x401 = 0"
  using blk_notify_refines [OF two_batch refl two_regs(7) two_separate _ counting_guest_alone two_region, of "[0, 0, 0, 0]" False Map.empty]
  by (auto simp: two_regs two_requests two_ring abs_request_def read_back_def status_byte_def VIRTIO_BLK_S_OK_def MAX_RW_COUNT_def)

end
