(* ===== verification/Ax_Net_Env.thy ===== *)
theory Ax_Net_Env
  imports Ax_Net_Queue Ax_Blk_Env
begin

text \<open>
  The polls of the network device beside a running guest: the definitions of \<open>Ax_Virtio_Net\<close> over a
  view of the memory, in which the guest may store before every byte that the device reads or writes.
\<close>

section \<open>Accesses to the memory slice\<close>

definition slice_range_env :: "guest_env \<Rightarrow> usize \<Rightarrow> usize \<Rightarrow> bytes act" where
  "slice_range_env E a b v = (if b < a \<or> gm_len (mv_mem v) < b then Some (Abort Slice_Index)
     else (let (bs, v') = fetch E (unat a) (unat b - unat a) v in Some (Done (bs, v'))))"

definition raw_store_env :: "guest_env \<Rightarrow> usize \<Rightarrow> bytes \<Rightarrow> unit act" where
  "raw_store_env E a bs v = (if unat a + length bs \<le> unat (gm_len (mv_mem v))
     then Some (Done ((), store E (unat a) bs v)) else Some (Abort Undefined_Behaviour))"

definition raw_store_u16_env :: "guest_env \<Rightarrow> usize \<Rightarrow> u16 \<Rightarrow> unit act" where
  "raw_store_u16_env E a w v = (if even (unat (gm_ptr (mv_mem v)) + unat a)
     then raw_store_env E a (to_le_bytes 2 w) v else Some (Abort Undefined_Behaviour))"

section \<open>The virtqueue\<close>

definition available_idx_env :: "guest_env \<Rightarrow> bool \<Rightarrow> virt_queue \<Rightarrow> u16 act" where
  "available_idx_env E oc q =
     act_bind (act_exec (uadd oc (vq_avail_addr q) 2)) (\<lambda>idx_addr.
     act_bind (act_exec (uadd oc idx_addr 2)) (\<lambda>fin. act_len (\<lambda>len.
       if len < fin then act_return 0
       else act_bind (slice_range_env E idx_addr fin) (\<lambda>b. act_return (from_le_bytes [b ! 0, b ! 1])))))"

definition get_avail_desc_idx_env :: "guest_env \<Rightarrow> bool \<Rightarrow> virt_queue \<Rightarrow> u16 option act" where
  "get_avail_desc_idx_env E oc q =
     act_bind (available_idx_env E oc q) (\<lambda>guest_idx.
       if vq_last_avail_idx q = guest_idx then act_return None else
       act_bind (act_exec (urem (vq_last_avail_idx q) (vq_queue_size q))) (\<lambda>i.
       act_bind (act_exec (uadd oc (vq_avail_addr q) (4 + ucast i * 2))) (\<lambda>addr.
       act_bind (act_exec (uadd oc addr 2)) (\<lambda>fin. act_len (\<lambda>len.
         if len < fin then act_return None
         else act_bind (slice_range_env E addr fin) (\<lambda>b.
           act_return (Some (from_le_bytes [b ! 0, b ! 1]))))))))"

definition read_desc_env :: "guest_env \<Rightarrow> bool \<Rightarrow> virt_queue \<Rightarrow> u16 \<Rightarrow> vring_desc option act" where
  "read_desc_env E oc q idx =
     act_bind (act_exec (uadd oc (vq_desc_addr q) (ucast idx * 16))) (\<lambda>offset.
     act_bind (act_exec (uadd oc offset 16)) (\<lambda>fin. act_len (\<lambda>len.
       if len < fin then act_return None
       else act_bind (slice_range_env E offset fin) (\<lambda>b. act_return (Some (decode_desc b))))))"

definition add_used_env :: "guest_env \<Rightarrow> bool \<Rightarrow> virt_queue \<Rightarrow> u16 \<Rightarrow> u32 \<Rightarrow> virt_queue act" where
  "add_used_env E oc q desc_idx n =
     act_bind (act_exec (urem (vq_last_avail_idx q) (vq_queue_size q))) (\<lambda>i.
     act_bind (act_exec (uadd oc (vq_used_addr q) (4 + ucast i * 8))) (\<lambda>addr.
     act_bind (act_exec (uadd oc addr 8)) (\<lambda>fin. act_len (\<lambda>len.
       if len < fin then act_return q else
       act_bind (raw_store_env E addr (to_le_bytes 4 (ucast desc_idx :: u32) @ to_le_bytes 4 n)) (\<lambda>_.
       let q' = q\<lparr>vq_last_avail_idx := vq_last_avail_idx q + 1\<rparr> in
       act_bind (act_exec (uadd oc (vq_used_addr q) 2)) (\<lambda>idx_addr.
       act_bind (act_exec (uadd oc idx_addr 2)) (\<lambda>fin'.
         if fin' \<le> len
         then act_bind (raw_store_u16_env E idx_addr (vq_last_avail_idx q')) (\<lambda>_. act_return q')
         else act_return q')))))))"

section \<open>The polls\<close>

definition rx_copy_env :: "guest_env \<Rightarrow> bool \<Rightarrow> vring_desc \<Rightarrow> bytes \<Rightarrow> bool act" where
  "rx_copy_env E oc e packet =
     (let n = length packet in
      if vd_len e < of_nat (n + NET_HDR_LEN) then act_return False else
      act_bind (act_exec (uadd oc (vd_addr e) (of_nat NET_HDR_LEN))) (\<lambda>a.
      act_bind (act_exec (uadd oc a (of_nat n))) (\<lambda>fin. act_len (\<lambda>len.
        if len < fin then act_return False else
        act_bind (raw_store_env E (vd_addr e) (replicate NET_HDR_LEN 0 @ packet)) (\<lambda>_. act_return True)))))"

definition process_rx_env ::
  "guest_env \<Rightarrow> bool \<Rightarrow> 'p tap_ops \<Rightarrow> 'p virtio_net \<Rightarrow> (bool \<times> 'p virtio_net) act" where
  "process_rx_env E oc T d =
     (case vn_tap d of None \<Rightarrow> act_return (False, d)
      | Some tap \<Rightarrow>
          (let q = vn_queues d ! 0 in
           if \<not> vq_ready q then act_return (False, d) else
           act_bind (get_avail_desc_idx_env E oc q) (\<lambda>o1. case o1 of None \<Rightarrow> act_return (False, d)
           | Some desc_idx \<Rightarrow>
               act_bind (read_desc_env E oc q desc_idx) (\<lambda>o2. case o2 of None \<Rightarrow> act_return (False, d)
               | Some e \<Rightarrow>
                   (let (r, tap') = tap_read T tap 1514; d' = d\<lparr>vn_tap := Some tap'\<rparr> in
                    case r of Inl _ \<Rightarrow> act_return (False, d')
                    | Inr packet \<Rightarrow>
                        if packet = [] then act_return (False, d') else
                        act_bind (rx_copy_env E oc e packet) (\<lambda>copied.
                          if \<not> copied then act_return (False, d') else
                          act_bind (add_used_env E oc q desc_idx (of_nat (length packet + NET_HDR_LEN))) (\<lambda>q'.
                            act_return (True, d'\<lparr>vn_queues := (vn_queues d')[0 := q'],
                              vn_interrupt_status := vn_interrupt_status d' OR 1\<rparr>))))))))"

definition tx_send_env ::
  "guest_env \<Rightarrow> bool \<Rightarrow> 'p tap_ops \<Rightarrow> 'p tap_interface \<Rightarrow> vring_desc \<Rightarrow> (bool \<times> 'p tap_interface) act" where
  "tx_send_env E oc T tap e =
     (let desc_len = ucast (vd_len e) :: usize in
      if NET_HDR_LEN < unat desc_len then
        act_bind (act_exec (uadd oc (vd_addr e) desc_len)) (\<lambda>fin. act_len (\<lambda>len.
          if fin \<le> len then
            act_bind (act_exec (uadd oc (vd_addr e) (of_nat NET_HDR_LEN))) (\<lambda>start.
            act_bind (slice_range_env E start fin) (\<lambda>packet_slice.
              let (r, tap') = tap_write T tap packet_slice in
              act_return (case r of Inr _ \<Rightarrow> True | Inl _ \<Rightarrow> False, tap')))
          else act_return (False, tap)))
      else act_return (False, tap))"

text \<open>The variables of the loop: the queue, the interface, the interrupt status and \<open>work_done\<close>.\<close>

definition tx_step_env ::
  "guest_env \<Rightarrow> bool \<Rightarrow> 'p tap_ops \<Rightarrow> virt_queue \<times> 'p tap_interface \<times> u32 \<times> bool \<Rightarrow>
   ((virt_queue \<times> 'p tap_interface \<times> u32 \<times> bool) + (virt_queue \<times> 'p tap_interface \<times> u32 \<times> bool)) act" where
  "tx_step_env E oc T = (\<lambda>(q, tap, irq, work).
     act_bind (get_avail_desc_idx_env E oc q) (\<lambda>o1. case o1 of None \<Rightarrow> act_return (Inr (q, tap, irq, work))
     | Some desc_idx \<Rightarrow>
         act_bind (read_desc_env E oc q desc_idx) (\<lambda>o2. case o2 of None \<Rightarrow> act_return (Inr (q, tap, irq, work))
         | Some e \<Rightarrow>
             act_bind (tx_send_env E oc T tap e) (\<lambda>(ok, tap').
             act_bind (add_used_env E oc q desc_idx 0) (\<lambda>q'.
               act_return (Inl (q', tap', irq OR 1, work \<or> ok)))))))"

definition process_tx_env ::
  "guest_env \<Rightarrow> bool \<Rightarrow> 'p tap_ops \<Rightarrow> 'p virtio_net \<Rightarrow> (bool \<times> 'p virtio_net) act" where
  "process_tx_env E oc T d =
     (case vn_tap d of None \<Rightarrow> act_return (False, d)
      | Some tap \<Rightarrow>
          (let q = vn_queues d ! 1 in
           if \<not> vq_ready q then act_return (False, d) else
           act_bind (act_loop (tx_step_env E oc T) (q, tap, vn_interrupt_status d, False)) (\<lambda>(q', tap', irq, work).
             act_return (work, d\<lparr>vn_tap := Some tap', vn_queues := (vn_queues d)[1 := q'],
               vn_interrupt_status := irq\<rparr>))))"

section \<open>Rules for the accesses\<close>

lemma act_ok_slice [act_rules]: "(\<And>bs. Q bs) \<Longrightarrow> act_ok ub m0 (slice_range_env E a b) Q"
  unfolding act_ok_def
proof (intro allI impI)
  fix v :: mview assume "\<And>bs. Q bs" "same_shape m0 (mv_mem v)"
  then show "run_ok ub m0 Q (slice_range_env E a b v)"
    using fetch_shape [of E "unat a" "unat b - unat a" v]
    by (cases "fetch E (unat a) (unat b - unat a) v")
      (auto simp: slice_range_env_def intro: same_shape_trans)
qed

lemma act_ok_raw_store:
  assumes "ub \<Longrightarrow> unat a + length bs \<le> unat (gm_len m0)" and "Q ()"
  shows "act_ok ub m0 (raw_store_env E a bs) Q"
  using assms store_shape [of _ E "unat a" bs]
  by (auto simp: act_ok_def raw_store_env_def intro: same_shape_trans) (simp add: same_shape_def)

lemma act_ok_raw_store_u16:
  assumes "ub \<Longrightarrow> even (unat (gm_ptr m0) + unat a) \<and> unat a + 2 \<le> unat (gm_len m0)" and "Q ()"
  shows "act_ok ub m0 (raw_store_u16_env E a w) Q"
proof -
  have "act_ok ub m0 (raw_store_env E a (to_le_bytes 2 w)) Q"
    by (rule act_ok_raw_store) (use assms in auto)
  with assms show ?thesis by (auto simp: act_ok_def raw_store_u16_env_def same_shape_def)
qed

lemma slice_range_atomic:
  "act_atomic (slice_range_env quiet a b) (\<lambda>m. run_bind (Some (slice_range m a b)) (\<lambda>bs. Some (Done (bs, m))))"
  by (simp add: act_atomic_def slice_range_env_def slice_range_def fetch_quiet)

lemma raw_store_atomic:
  "act_atomic (raw_store_env quiet a bs) (\<lambda>m. run_bind (Some (raw_store m a bs)) (\<lambda>m'. Some (Done ((), m'))))"
  by (simp add: act_atomic_def raw_store_env_def raw_store_def store_quiet)

lemma raw_store_u16_atomic:
  "act_atomic (raw_store_u16_env quiet a w) (\<lambda>m. run_bind (Some (raw_store_u16 m a w)) (\<lambda>m'. Some (Done ((), m'))))"
  using raw_store_atomic [of a "to_le_bytes 2 w"]
  by (simp add: act_atomic_def raw_store_u16_env_def raw_store_u16_def)

lemma slice_range_follows:
  assumes "leaves_alone E A"
  shows "act_follows A (slice_range_env E a b) (slice_range_env quiet a b)"
  unfolding act_follows_def
proof (intro allI impI, goal_cases)
  case (1 w x w')
  let ?n = "unat b - unat a"
  have "\<exists>v'. (case fetch E (unat a) ?n v of (bs, v') \<Rightarrow> Some (Done (bs, v'))) =
      Some (Done (mem_get (gm_bytes (mv_mem w)) (unat a) ?n, v')) \<and> agree_on A (mv_mem w) (mv_mem v')"
    if "{unat a..<unat a + ?n} \<subseteq> A" "agree_on A (mv_mem w) (mv_mem v)" for v
    using fetch_follows [OF assms that] by auto
  with 1 show ?case by (auto simp: slice_range_env_def fetch_quiet agree_len split: if_splits)
qed

lemma raw_store_follows:
  assumes "leaves_alone E A"
  shows "act_follows A (raw_store_env E a bs) (raw_store_env quiet a bs)"
  using store_follows [OF assms, of _ _ "unat a" bs]
  by (auto simp: act_follows_def raw_store_env_def store_quiet agree_len split: if_splits)

lemma raw_store_u16_follows:
  assumes "leaves_alone E A"
  shows "act_follows A (raw_store_u16_env E a w) (raw_store_u16_env quiet a w)"
  using raw_store_follows [OF assms, of a "to_le_bytes 2 w"]
  by (auto simp: act_follows_def raw_store_u16_env_def agree_on_def same_shape_def split: if_splits)

lemma get_avail_follows:
  "leaves_alone E A \<Longrightarrow> act_follows A (get_avail_desc_idx_env E oc q) (get_avail_desc_idx_env quiet oc q)"
  unfolding get_avail_desc_idx_env_def available_idx_env_def
  by (rule act_follows_intros slice_range_follows | assumption)+

lemma read_desc_follows:
  "leaves_alone E A \<Longrightarrow> act_follows A (read_desc_env E oc q i) (read_desc_env quiet oc q i)"
  unfolding read_desc_env_def by (rule act_follows_intros slice_range_follows | assumption)+

lemma add_used_follows:
  "leaves_alone E A \<Longrightarrow> act_follows A (add_used_env E oc q h n) (add_used_env quiet oc q h n)"
  unfolding add_used_env_def Let_def
  by (rule act_follows_intros raw_store_follows raw_store_u16_follows | assumption)+

lemma rx_copy_follows:
  "leaves_alone E A \<Longrightarrow> act_follows A (rx_copy_env E oc e p) (rx_copy_env quiet oc e p)"
  unfolding rx_copy_env_def Let_def by (rule act_follows_intros raw_store_follows | assumption)+

lemma tx_send_follows:
  "leaves_alone E A \<Longrightarrow> act_follows A (tx_send_env E oc T tap e) (tx_send_env quiet oc T tap e)"
  unfolding tx_send_env_def Let_def by (rule act_follows_intros slice_range_follows | assumption)+

lemma process_rx_follows:
  "leaves_alone E A \<Longrightarrow> act_follows A (process_rx_env E oc T d) (process_rx_env quiet oc T d)"
  unfolding process_rx_env_def Let_def
  by (rule act_follows_intros get_avail_follows read_desc_follows rx_copy_follows add_used_follows | assumption)+

lemma process_tx_follows:
  "leaves_alone E A \<Longrightarrow> act_follows A (process_tx_env E oc T d) (process_tx_env quiet oc T d)"
  unfolding process_tx_env_def tx_step_env_def Let_def
  by (rule act_follows_intros get_avail_follows read_desc_follows tx_send_follows add_used_follows | assumption)+

section \<open>Beside a quiet guest\<close>

lemmas slice_atomic = act_atomic_intros slice_range_atomic raw_store_atomic raw_store_u16_atomic

lemma get_avail_atomic:
  "act_atomic (get_avail_desc_idx_env quiet oc q)
     (\<lambda>m. run_bind (Some (get_avail_desc_idx oc q m)) (\<lambda>x. Some (Done (x, m))))"
  unfolding get_avail_desc_idx_env_def available_idx_env_def
  by (rule act_atomic_eq, (rule slice_atomic)+)
    (auto simp: get_avail_desc_idx_def available_idx_def run_bind_def split: exec.splits)

lemma read_desc_atomic:
  "act_atomic (read_desc_env quiet oc q i) (\<lambda>m. run_bind (Some (read_desc oc q m i)) (\<lambda>x. Some (Done (x, m))))"
  unfolding read_desc_env_def
  by (rule act_atomic_eq, (rule slice_atomic)+) (auto simp: read_desc_def run_bind_def split: exec.splits)

lemma add_used_atomic:
  "act_atomic (add_used_env quiet oc q h n)
     (\<lambda>m. run_bind (Some (add_used oc q m h n)) (\<lambda>(q', m'). Some (Done (q', m'))))"
  unfolding add_used_env_def Let_def
  by (rule act_atomic_eq, (rule slice_atomic)+)
    (auto simp: add_used_def Let_def run_bind_def split: exec.splits)

lemma rx_copy_atomic:
  "act_atomic (rx_copy_env quiet oc e p) (\<lambda>m. run_bind (Some (rx_copy oc m e p)) (\<lambda>c.
     Some (Done (case c of None \<Rightarrow> (False, m) | Some m' \<Rightarrow> (True, m')))))"
  unfolding rx_copy_env_def Let_def
  by (rule act_atomic_eq, (rule slice_atomic)+)
    (auto simp: rx_copy_def Let_def run_bind_def split: exec.splits)

lemma process_rx_atomic:
  "act_atomic (process_rx_env quiet oc T d)
     (\<lambda>m. run_bind (Some (process_rx oc T d m)) (\<lambda>(w, d', m'). Some (Done ((w, d'), m'))))"
  unfolding process_rx_env_def Let_def
  by (rule act_atomic_eq, (rule slice_atomic get_avail_atomic read_desc_atomic add_used_atomic rx_copy_atomic)+)
    (auto simp: process_rx_def Let_def run_bind_def split: exec.splits option.splits sum.splits prod.splits)

lemma tx_send_atomic:
  "act_atomic (tx_send_env quiet oc T tap e)
     (\<lambda>m. run_bind (Some (tx_send oc T tap m e)) (\<lambda>x. Some (Done (x, m))))"
  unfolding tx_send_env_def Let_def
  by (rule act_atomic_eq, (rule slice_atomic)+)
    (auto simp: tx_send_def Let_def run_bind_def split: exec.splits prod.splits)

lemma tx_step_atomic:
  "act_atomic (tx_step_env quiet oc T (q, tap, irq, work))
     (\<lambda>m. run_bind (Some (tx_step oc T \<lparr>tv_queue = q, tv_tap = tap, tv_mem = m, tv_irq = irq, tv_work = work\<rparr>))
        (\<lambda>x. Some (Done (case x of
           Inl v \<Rightarrow> (Inl (tv_queue v, tv_tap v, tv_irq v, tv_work v), tv_mem v)
         | Inr v \<Rightarrow> (Inr (tv_queue v, tv_tap v, tv_irq v, tv_work v), tv_mem v)))))"
  unfolding tx_step_env_def prod.case
  by (rule act_atomic_eq, (rule slice_atomic get_avail_atomic read_desc_atomic add_used_atomic tx_send_atomic)+)
    (auto simp: tx_step_def run_bind_def split: exec.splits option.splits prod.splits)

lemma tx_loop_atomic:
  "act_atomic (act_loop (tx_step_env quiet oc T) (q, tap, irq, work))
     (\<lambda>m. run_bind (exec_loop (\<lambda>v. Some (tx_step oc T v))
          \<lparr>tv_queue = q, tv_tap = tap, tv_mem = m, tv_irq = irq, tv_work = work\<rparr>)
        (\<lambda>v. Some (Done ((tv_queue v, tv_tap v, tv_irq v, tv_work v), tv_mem v))))"
proof (rule act_atomic_eq, rule act_atomic_loop)
  let ?k = "\<lambda>(q, tap, irq, work) m.
     run_bind (Some (tx_step oc T \<lparr>tv_queue = q, tv_tap = tap, tv_mem = m, tv_irq = irq, tv_work = work\<rparr>))
        (\<lambda>x. Some (Done (case x of
           Inl v \<Rightarrow> (Inl (tv_queue v, tv_tap v, tv_irq v, tv_work v), tv_mem v)
         | Inr v \<Rightarrow> (Inr (tv_queue v, tv_tap v, tv_irq v, tv_work v), tv_mem v))))"
  let ?f = "\<lambda>v. ((tv_queue v, tv_tap v, tv_irq v, tv_work v), tv_mem v)"
  show "act_atomic (tx_step_env quiet oc T s) (?k s)" for s
    by (cases s) (simp add: tx_step_atomic)
  fix m
  have "mem_body ?k (?f v) = run_map (map_sum ?f ?f) (Some (tx_step oc T v))" for v
    by (cases v) (auto simp: mem_body_def run_map_def run_bind_def split: exec.split sum.split option.split)
  from exec_loop_map [where f = ?f and g = ?f and body' = "mem_body ?k" and body = "\<lambda>v. Some (tx_step oc T v)", OF this,
      of "\<lparr>tv_queue = q, tv_tap = tap, tv_mem = m, tv_irq = irq, tv_work = work\<rparr>"]
  show "run_bind (exec_loop (\<lambda>v. Some (tx_step oc T v)) \<lparr>tv_queue = q, tv_tap = tap, tv_mem = m, tv_irq = irq, tv_work = work\<rparr>)
        (\<lambda>v. Some (Done ((tv_queue v, tv_tap v, tv_irq v, tv_work v), tv_mem v))) =
     exec_loop (mem_body ?k) ((q, tap, irq, work), m)"
    by (simp add: run_map_def)
qed

lemma process_tx_atomic:
  "act_atomic (process_tx_env quiet oc T d)
     (\<lambda>m. run_bind (process_tx oc T d m) (\<lambda>(w, d', m'). Some (Done ((w, d'), m'))))"
  unfolding process_tx_env_def Let_def
  by (rule act_atomic_eq, (rule slice_atomic tx_loop_atomic)+)
    (auto simp: process_tx_def Let_def run_bind_def split: exec.splits option.splits)

section \<open>Memory safety and invariant\<close>

lemma get_avail_ok_env: "(\<And>x. Q x) \<Longrightarrow> act_ok ub m0 (get_avail_desc_idx_env E oc q) Q"
  unfolding get_avail_desc_idx_env_def available_idx_env_def by (auto intro!: act_rules act_ok_seq)

lemma read_desc_ok_env: "(\<And>x. Q x) \<Longrightarrow> act_ok ub m0 (read_desc_env E oc q i) Q"
  unfolding read_desc_env_def by (auto intro!: act_rules act_ok_seq)

lemma tx_send_ok_env: "(\<And>x. Q x) \<Longrightarrow> act_ok ub m0 (tx_send_env E oc T tap e) Q"
  unfolding tx_send_env_def Let_def by (auto intro!: act_rules act_ok_seq split: prod.splits)

lemma add_used_ok_env:
  assumes "ub \<Longrightarrow> oc \<and> used_aligned m0 q" and "\<And>q'. vq_used_addr q' = vq_used_addr q \<Longrightarrow> Q q'"
  shows "act_ok ub m0 (add_used_env E oc q h n) Q"
proof -
  have elem: "unat a + 8 \<le> unat (gm_len m0)" if "ub" "uadd oc a 8 = Done c" "\<not> gm_len m0 < c" for a c
    using uadd_checked_le [of a 8 c m0] that assms(1) by simp
  have idx: "even (unat (gm_ptr m0) + unat i) \<and> unat i + 2 \<le> unat (gm_len m0)"
    if "ub" "uadd oc (vq_used_addr q) 2 = Done i" "uadd oc i 2 = Done c" "c \<le> gm_len m0" for i c
    using uadd_checked_unat [of "vq_used_addr q" 2 i] uadd_checked_le [of i 2 c m0] that assms(1)
    by (simp add: used_aligned_def)
  show ?thesis
    unfolding add_used_env_def Let_def
    by (auto intro!: act_ok_exec_bind act_ok_len act_ok_return act_ok_seq [OF act_ok_raw_store]
        act_ok_seq [OF act_ok_raw_store_u16] assms(2)) (use elem in blast, (use idx in fastforce)+)
qed

lemma rx_copy_ok_env:
  assumes "ub \<Longrightarrow> oc \<and> length p \<le> 1514" and "\<And>x. Q x"
  shows "act_ok ub m0 (rx_copy_env E oc e p) Q"
proof -
  have "unat (vd_addr e) + (12 + length p) \<le> unat (gm_len m0)"
    if "ub" "uadd oc (vd_addr e) 12 = Done a" "uadd oc a (of_nat (length p)) = Done c" "\<not> gm_len m0 < c" for a c
  proof -
    have "unat (of_nat (length p) :: u64) = length p" using assms(1) that(1) by (intro unat_of_nat_small) simp
    with uadd_checked_le [of a "of_nat (length p)" c m0] uadd_checked_unat [of "vd_addr e" 12 a] that assms(1)
    show ?thesis by simp
  qed
  then show ?thesis
    unfolding rx_copy_env_def Let_def NET_HDR_LEN_def
    by (auto intro!: act_ok_exec_bind act_ok_len act_ok_return act_ok_seq [OF act_ok_raw_store] assms(2))
qed

lemma process_rx_ok_env:
  assumes "ub \<Longrightarrow> oc \<and> tap_reads_fit T \<and> used_aligned m0 (vn_queues d ! 0)"
    and "\<And>w d'. (net_inv d \<Longrightarrow> net_inv d') \<Longrightarrow> map vq_used_addr (vn_queues d') = map vq_used_addr (vn_queues d) \<Longrightarrow> Q (w, d')"
  shows "act_ok ub m0 (process_rx_env E oc T d) Q"
proof (cases "vn_tap d")
  case (Some tap)
  obtain r tap' where r: "tap_read T tap 1514 = (r, tap')" by fastforce
  have same: "Q (False, d)" "Q (False, d\<lparr>vn_tap := Some tap'\<rparr>)"
    by (rule assms(2); simp add: net_inv_def)+
  have added: "Q (True, d\<lparr>vn_tap := Some tap', vn_queues := (vn_queues d)[0 := q'],
      vn_interrupt_status := vn_interrupt_status d OR 1\<rparr>)" if "vq_used_addr q' = vq_used_addr (vn_queues d ! 0)" for q'
    by (rule assms(2)) (use that in \<open>auto simp: net_inv_def irq_ok_raise map_update_same\<close>)
  have serve: "act_ok ub m0 (act_bind (add_used_env E oc (vn_queues d ! 0) h n) (\<lambda>q'. act_return (True,
      d\<lparr>vn_tap := Some tap', vn_queues := (vn_queues d)[0 := q'], vn_interrupt_status := vn_interrupt_status d OR 1\<rparr>))) Q" for h n
    by (rule act_ok_bind [where R = "\<lambda>q'. vq_used_addr q' = vq_used_addr (vn_queues d ! 0)", OF add_used_ok_env])
      (use assms(1) added in \<open>auto intro!: act_ok_return\<close>)
  have fits: "length p \<le> 1514" if "ub" "r = Inr p" for p
    using tap_reads_fitD [of T tap 1514 p tap'] assms(1) that r by simp
  show ?thesis
    unfolding process_rx_env_def Some r Let_def option.case prod.case
    by (auto intro!: act_ok_return act_ok_seq [OF get_avail_ok_env] act_ok_seq [OF read_desc_ok_env]
        act_ok_seq [OF rx_copy_ok_env] serve same fits split: option.splits sum.splits)
      (use assms(1) in auto)
qed (use assms(2) [of d False] in \<open>simp add: process_rx_env_def act_ok_return\<close>)

definition tx_inv :: "virt_queue \<Rightarrow> u32 \<Rightarrow> virt_queue \<times> 'p tap_interface \<times> u32 \<times> bool \<Rightarrow> bool" where
  "tx_inv q0 i0 s \<longleftrightarrow> vq_used_addr (fst s) = vq_used_addr q0 \<and> (irq_ok i0 \<longrightarrow> irq_ok (fst (snd (snd s))))"

lemma tx_step_ok_env:
  assumes "ub \<Longrightarrow> oc \<and> used_aligned m0 q0" and "tx_inv q0 i0 s"
  shows "act_ok ub m0 (tx_step_env E oc T s) (\<lambda>x. case x of Inl s \<Rightarrow> tx_inv q0 i0 s | Inr s \<Rightarrow> tx_inv q0 i0 s)"
    (is "act_ok _ _ _ ?Q")
proof -
  obtain q tap irq work where s: "s = (q, tap, irq, work)" by (metis prod.collapse)
  have al: "ub \<Longrightarrow> oc \<and> used_aligned m0 q" using assms s by (simp add: used_aligned_def tx_inv_def)
  have serve: "act_ok ub m0 (act_bind (add_used_env E oc q h 0) (\<lambda>q'. act_return (Inl (q', tap', irq OR 1, w)))) ?Q" for h tap' w
    by (rule act_ok_bind [where R = "\<lambda>q'. vq_used_addr q' = vq_used_addr q", OF add_used_ok_env [OF al]])
      (use assms s in \<open>auto simp: tx_inv_def intro!: act_ok_return irq_ok_raise\<close>)
  show ?thesis
    unfolding tx_step_env_def s prod.case
    by (auto intro!: act_ok_seq [OF get_avail_ok_env] act_ok_seq [OF read_desc_ok_env] act_ok_seq [OF tx_send_ok_env]
        act_ok_return serve split: option.split)
      (use assms s in simp_all)
qed

lemma process_tx_ok_env:
  assumes "ub \<Longrightarrow> oc \<and> used_aligned m0 (vn_queues d ! 1)"
    and "\<And>w d'. (net_inv d \<Longrightarrow> net_inv d') \<Longrightarrow> map vq_used_addr (vn_queues d') = map vq_used_addr (vn_queues d) \<Longrightarrow> Q (w, d')"
  shows "act_ok ub m0 (process_tx_env E oc T d) Q"
proof (cases "vn_tap d")
  case (Some tap)
  let ?q = "vn_queues d ! 1" and ?i = "vn_interrupt_status d"
  let ?I = "tx_inv ?q ?i"
  have "act_ok ub m0 (act_loop (tx_step_env E oc T) (?q, tap, ?i, False)) ?I"
    by (rule act_ok_loop [where I = ?I]) (use assms(1) in \<open>auto intro: tx_step_ok_env simp: tx_inv_def\<close>)
  moreover have "Q (w, d\<lparr>vn_tap := Some t, vn_queues := (vn_queues d)[1 := q], vn_interrupt_status := i\<rparr>)"
    if "?I (q, t, i, w)" for q t i w
    by (rule assms(2)) (use that in \<open>auto simp: net_inv_def map_update_same tx_inv_def\<close>)
  moreover have "Q (False, d)" by (rule assms(2)) simp_all
  ultimately show ?thesis
    unfolding process_tx_env_def Some Let_def option.case
    by (auto intro!: act_ok_return act_ok_bind [where R = ?I])
qed (use assms(2) [of d False] in \<open>simp add: process_tx_env_def act_ok_return\<close>)

section \<open>What every guest leaves true\<close>

text \<open>All states that a guest and the wire can drive the device into; the guest stores also while a poll works.\<close>

inductive net_reach ::
  "bool \<Rightarrow> 'p tap_ops \<Rightarrow> 'p virtio_net \<Rightarrow> guest_memory \<Rightarrow> 'p virtio_net \<Rightarrow> guest_memory \<Rightarrow> bool"
  for oc T d0 m0 where
  start: "net_reach oc T d0 m0 d0 m0"
| store: "net_reach oc T d0 m0 d m \<Longrightarrow> same_shape m m' \<Longrightarrow> net_reach oc T d0 m0 d m'"
| mmio: "net_reach oc T d0 m0 d m \<Longrightarrow> vn_write d offset data = (r, d') \<Longrightarrow> net_reach oc T d0 m0 d' m"
| rx: "net_reach oc T d0 m0 d m \<Longrightarrow> process_rx_env E oc T d (view_of m) = Some (Done ((w, d'), v)) \<Longrightarrow>
     net_reach oc T d0 m0 d' (mv_mem v)"
| tx: "net_reach oc T d0 m0 d m \<Longrightarrow> process_tx_env E oc T d (view_of m) = Some (Done ((w, d'), v)) \<Longrightarrow>
     net_reach oc T d0 m0 d' (mv_mem v)"

lemma rx_keeps: "act_ok False m0 (process_rx_env E oc T d) (\<lambda>(w, d'). net_inv d \<longrightarrow> net_inv d')"
  by (rule process_rx_ok_env) auto

lemma tx_keeps: "act_ok False m0 (process_tx_env E oc T d) (\<lambda>(w, d'). net_inv d \<longrightarrow> net_inv d')"
  by (rule process_tx_ok_env) auto

text \<open>
  C24. Invariant of the network device under any sequence of guest stores, register writes and polls,
  stores in the middle of a poll included: there are always two queues, the MAC address stays the one of the device, the interrupt status
  stays 0 or 1 and the guest memory keeps its size.
\<close>

theorem net_invariant:
  assumes "net_reach oc T (vn_new tap) m0 d m"
  shows "length (vn_queues d) = 2 \<and> vn_mac d = [0x52, 0x54, 0x00, 0x12, 0x34, 0x56] \<and>
    (vn_interrupt_status d = 0 \<or> vn_interrupt_status d = 1) \<and> same_shape m0 m"
proof -
  from assms have "net_inv d \<and> same_shape m0 m"
  proof (induction rule: net_reach.induct)
    case (store d m m')
    then show ?case by (auto intro: same_shape_trans)
  next
    case (rx d m E w d' v)
    then have "same_shape m0 (mv_mem (view_of m))" by simp
    from act_okD [OF rx_keeps this rx.hyps(2)] rx.IH show ?case by simp
  next
    case (tx d m E w d' v)
    then have "same_shape m0 (mv_mem (view_of m))" by simp
    from act_okD [OF tx_keeps this tx.hyps(2)] tx.IH show ?case by simp
  qed (auto simp: net_inv_new intro: vn_write_inv)
  then show ?thesis by (auto simp: net_inv_def irq_ok_def)
qed

theorem net_invariant_witness:
  "length (vn_queues (vn_set_reg (vn_new None :: wire virtio_net) MMIO_QUEUE_SEL 7)) = 2"
proof -
  have "vn_write (vn_new None :: wire virtio_net) MMIO_QUEUE_SEL [7] =
      (Inr False, vn_set_reg (vn_new None) MMIO_QUEUE_SEL 7)"
    by (simp add: vn_write_def)
  from net_invariant [OF net_reach.mmio [OF net_reach.start [of False "wire_ops []" "vn_new None" "net_mem []"] this]]
  show ?thesis by simp
qed

text \<open>
  C22. Memory safety of the network device in a debug build: as long as the used rings are at aligned
  addresses, a poll never accesses memory outside the slice, whatever the guest has put into its
  rings and descriptors, whatever it stores there while the poll works and whatever arrives on the wire.
\<close>

theorem net_checked_memory_safe:
  assumes "tap_reads_fit T" and "used_aligned m (vn_queues d ! 0)" and "used_aligned m (vn_queues d ! 1)"
  shows "process_rx_env E True T d (view_of m) \<noteq> Some (Abort Undefined_Behaviour) \<and>
    process_tx_env E True T d (view_of m) \<noteq> Some (Abort Undefined_Behaviour)"
proof -
  have "act_ok True m (process_rx_env E True T d) (\<lambda>_. True)" "act_ok True m (process_tx_env E True T d) (\<lambda>_. True)"
    using assms by (auto intro: process_rx_ok_env process_tx_ok_env)
  then show ?thesis by (auto dest!: act_ok_ub [of m _ _ "view_of m"] simp: run_ub_free_def)
qed

theorem net_checked_memory_safe_witness:
  "process_tx_env counting_guest True (wire_ops []) (net_dev []) (view_of (net_mem [9])) \<noteq> Some (Abort Undefined_Behaviour)"
  using net_checked_memory_safe [OF wire.fits, of "net_mem [9]" "net_dev []"]
  by (simp add: used_aligned_def net_mem_def net_dev_def net_queue_def)

end
