(* ===== verification/Ax_Net_Atomic.thy ===== *)
theory Ax_Net_Atomic
  imports Ax_Net_Env
begin

text \<open>
  When the polls of the network device may be taken to work in one step: beside a guest that leaves
  the rings, the descriptors and the queued buffers alone until they are completed.
\<close>

section \<open>What the accesses touch\<close>

lemma slice_range_touch: "{unat a..<unat b} \<subseteq> S \<Longrightarrow> act_touch (slice_range_env quiet a b) m S"
  by (auto simp: act_touch_def slice_range_env_def fetch_quiet word_less_nat_alt not_less split: if_splits)

lemma raw_store_touch: "{unat a..<unat a + length bs} \<subseteq> S \<Longrightarrow> act_touch (raw_store_env quiet a bs) m S"
  by (auto simp: act_touch_def raw_store_env_def store_quiet split: if_splits)

lemma raw_store_u16_touch: "{unat a..<unat a + 2} \<subseteq> S \<Longrightarrow> act_touch (raw_store_u16_env quiet a w) m S"
  using raw_store_touch [of a "to_le_bytes 2 w" S m]
  by (simp add: act_touch_def raw_store_u16_env_def)

lemmas slice_touch = act_touch_bind [OF slice_range_atomic slice_range_touch]

lemma available_idx_atomic:
  "act_atomic (available_idx_env quiet oc q) (\<lambda>m. run_bind (Some (available_idx oc q m)) (\<lambda>x. Some (Done (x, m))))"
  unfolding available_idx_env_def
  by (rule act_atomic_eq, (rule slice_atomic)+) (auto simp: available_idx_def run_bind_def split: exec.splits)

text \<open>The end of an access at an offset into a ring.\<close>

lemma ring_access:
  assumes "gm_range m b (unat off + n)" and "uadd oc b off = Done a" and "uadd oc a c = Done fin" and "unat c = n"
  shows "unat a = unat b + unat off" and "unat fin = unat b + unat off + n"
proof -
  note a = range_offset [OF assms(1) refl]
  show 1: "unat a = unat b + unat off" using a(1,2) assms(2) by auto
  have "gm_range m a n" using a(1,3) assms(2) by auto
  from gm_range_lt [OF this] assms(3,4) 1 show "unat fin = unat b + unat off + n"
    by (auto simp: uadd_no_overflow unat_plus_no_overflow)
qed

lemma available_idx_touch:
  assumes "vq_ok q m" and "vq_driver_region q \<subseteq> S"
  shows "act_touch (available_idx_env quiet oc q) m S"
proof -
  have "gm_range m (vq_avail_addr q) (unat (2 :: u64) + 2)" using vq_ranges(3) [OF assms(1)] by simp
  from ring_access [OF this] have in_S: "{unat a..<unat fin} \<subseteq> S"
    if "uadd oc (vq_avail_addr q) 2 = Done a" "uadd oc a 2 = Done fin" for a fin
    using that assms(2) by (fastforce simp: vq_driver_region_def)
  show ?thesis
    unfolding available_idx_env_def
    by (auto intro!: act_touch_exec_bind act_touch_len act_touch_return slice_touch [OF in_S])
qed

lemma get_avail_touch:
  assumes "vq_ok q m" and "vq_driver_region q \<subseteq> S"
  shows "act_touch (get_avail_desc_idx_env quiet oc q) m S"
proof -
  let ?j = "vq_last_avail_idx q mod vq_queue_size q"
  have off: "unat (4 + ucast ?j * 2 :: u64) = 4 + 2 * unat ?j" using slot_word [of 2 ?j] by simp
  then have "gm_range m (vq_avail_addr q) (unat (4 + ucast ?j * 2 :: u64) + 2)"
    using vq_ranges(1) [OF assms(1), of "vq_last_avail_idx q"] by simp
  from ring_access [OF this, unfolded off] have in_S: "{unat a..<unat fin} \<subseteq> S"
    if "uadd oc (vq_avail_addr q) (4 + ucast ?j * 2) = Done a" "uadd oc a 2 = Done fin" for a fin
    using that vq_mod_less [OF assms(1), of "vq_last_avail_idx q"] assms(2) by (fastforce simp: vq_driver_region_def)
  show ?thesis
    unfolding get_avail_desc_idx_env_def
    by (auto simp: urem_def run_bind_eq_Done intro!: act_touch_exec_bind act_touch_len act_touch_return slice_touch [OF in_S]
        act_touch_bind [OF available_idx_atomic available_idx_touch [OF assms]] split: if_splits)
qed

lemma read_desc_touch:
  assumes "vq_ok q m" and "vq_table_region q \<subseteq> S" and "i < vq_queue_size q"
  shows "act_touch (read_desc_env quiet oc q i) m S"
proof -
  have off: "unat (ucast i * 16 :: u64) = 16 * unat i" using index_scale(2) [of 16 i] by simp
  then have r: "gm_range m (vq_desc_addr q) (unat (ucast i * 16 :: u64) + 16)" using vq_ranges(5) [OF assms(1,3)] by simp
  have in_S: "{unat a..<unat fin} \<subseteq> S"
    if "uadd oc (vq_desc_addr q) (ucast i * 16) = Done a" "uadd oc a 16 = Done fin" for a fin
  proof -
    have "unat a = unat (vq_desc_addr q) + 16 * unat i" "unat fin = unat (vq_desc_addr q) + 16 * unat i + 16"
      using ring_access [OF r that] off by simp_all
    with assms(2,3) show ?thesis by (auto simp: vq_table_region_def word_less_nat_alt)
  qed
  show ?thesis
    unfolding read_desc_env_def
    by (auto intro!: act_touch_exec_bind act_touch_len act_touch_return slice_touch [OF in_S])
qed

lemma tx_send_touch:
  assumes "unat (vd_addr e) + unat (vd_len e) < 2 ^ 64" and "buffer_region e \<subseteq> S"
  shows "act_touch (tx_send_env quiet oc T tap e) m S"
proof -
  have in_S: "{unat a..<unat fin} \<subseteq> S"
    if "uadd oc (vd_addr e) (ucast (vd_len e)) = Done fin" "uadd oc (vd_addr e) 12 = Done a" "12 < unat (vd_len e)" for a fin
    using that assms by (fastforce simp: uadd_no_overflow unat_plus_no_overflow buffer_region_def)
  show ?thesis
    unfolding tx_send_env_def Let_def NET_HDR_LEN_def
    by (auto intro!: act_touch_exec_bind act_touch_len act_touch_return slice_touch [OF in_S] split: prod.split)
qed

lemma add_used_touch:
  assumes "vq_ok q m" and "vq_used_region q \<subseteq> S"
  shows "act_touch (add_used_env quiet oc q h n) m S"
proof -
  let ?j = "vq_last_avail_idx q mod vq_queue_size q"
  have off: "unat (4 + ucast ?j * 8 :: u64) = 4 + 8 * unat ?j" using slot_word [of 8 ?j] by simp
  then have "gm_range m (vq_used_addr q) (unat (4 + ucast ?j * 8 :: u64) + 8)"
    using vq_ranges(2) [OF assms(1), of "vq_last_avail_idx q"] by simp
  note slot = ring_access(1) [OF this, unfolded off]
  have elem: "act_touch (raw_store_env quiet a bs) m' S"
    if "uadd oc (vq_used_addr q) (4 + ucast ?j * 8) = Done a" "uadd oc a 8 = Done fin" "length bs = 8" for a fin bs m'
    by (rule raw_store_touch)
      (use slot [OF that(1,2)] that(3) vq_mod_less [OF assms(1), of "vq_last_avail_idx q"] assms(2) in \<open>auto simp: vq_used_region_def\<close>)
  have "gm_range m (vq_used_addr q) (unat (2 :: u64) + 2)" using vq_ranges(4) [OF assms(1)] by simp
  note index = ring_access(1) [OF this]
  have idx: "act_touch (raw_store_u16_env quiet a w) m' S"
    if "uadd oc (vq_used_addr q) 2 = Done a" "uadd oc a 2 = Done fin" for a fin w m'
    by (rule raw_store_u16_touch) (use index [OF that] assms(2) in \<open>auto simp: vq_used_region_def\<close>)
  show ?thesis
    unfolding add_used_env_def Let_def
    by (auto intro!: act_touch_exec_bind act_touch_len act_touch_return act_touch_bind [OF raw_store_atomic elem]
        act_touch_bind [OF raw_store_u16_atomic idx] simp: urem_def split: if_splits)
qed

section \<open>What a batch of packets touches\<close>

definition tx_region :: "virt_queue \<Rightarrow> guest_memory \<Rightarrow> u16 list \<Rightarrow> nat set" where
  "tx_region q m hs = vq_driver_region q \<union> vq_used_region q \<union> (\<Union>h \<in> set hs. buffer_region (vq_desc q m h))"

lemma tx_step_touch:
  assumes b: "tx_batch q m hs" and k: "k < length hs" and v: "tx_done T q tap m irq hs k v"
  shows "act_touch (tx_step_env quiet oc T (tv_queue v, tv_tap v, tv_irq v, tv_work v)) (tv_mem v) (tx_region q m hs)"
proof -
  let ?h = "hs ! k" and ?S = "tx_region q m hs"
  note entry = tx_batch_entry(1) [OF b k v] tx_batch_entry(2,3) [OF b k v, of oc]
  have tq: "tv_queue v = q\<lparr>vq_last_avail_idx := vq_last_avail_idx q + of_nat k\<rparr>" using v by (simp add: tx_done_def)
  have h: "?h < vq_queue_size (tv_queue v)"
    "unat (vd_addr (vq_desc q m ?h)) + unat (vd_len (vq_desc q m ?h)) < 2 ^ 64"
    using b k by (auto simp: tx_batch_def tq)
  have S: "vq_driver_region (tv_queue v) \<subseteq> ?S" "vq_used_region (tv_queue v) \<subseteq> ?S" "buffer_region (vq_desc q m ?h) \<subseteq> ?S"
    "vq_table_region (tv_queue v) \<subseteq> ?S"
    using k vq_table_driver [of q] by (auto simp: tx_region_def tq)
  show ?thesis
    unfolding tx_step_env_def prod.case
    by (auto simp: entry run_bind_eq_Done intro!: act_touch_return
        act_touch_bind [OF get_avail_atomic get_avail_touch [OF entry(1) S(1)]]
        act_touch_bind [OF read_desc_atomic read_desc_touch [OF entry(1) S(4) h(1)]]
        act_touch_bind [OF tx_send_atomic tx_send_touch [OF h(2) S(3)]]
        act_touch_bind [OF add_used_atomic add_used_touch [OF entry(1) S(2)]])
qed

text \<open>The variables of the loop as the record of the isolated model.\<close>

abbreviation tx_vars_of :: "virt_queue \<times> 'p tap_interface \<times> u32 \<times> bool \<Rightarrow> guest_memory \<Rightarrow> 'p tx_vars" where
  "tx_vars_of s m \<equiv> \<lparr>tv_queue = fst s, tv_tap = fst (snd s), tv_mem = m, tv_irq = fst (snd (snd s)), tv_work = snd (snd (snd s))\<rparr>"

lemma tx_loop_touch:
  assumes b: "tx_batch q m hs"
  shows "act_touch (act_loop (tx_step_env quiet oc T) (q, tap, irq, False)) m (tx_region q m hs)"
proof -
  let ?I = "\<lambda>s m'. \<exists>k \<le> length hs. tx_done T q tap m irq hs k (tx_vars_of s m')"
  let ?k = "\<lambda>s m. run_bind (Some (tx_step oc T (tx_vars_of s m))) (\<lambda>x. Some (Done (case x of
           Inl v \<Rightarrow> (Inl (tv_queue v, tv_tap v, tv_irq v, tv_work v), tv_mem v)
         | Inr v \<Rightarrow> (Inr (tv_queue v, tv_tap v, tv_irq v, tv_work v), tv_mem v))))"
  show ?thesis
  proof (rule act_touch_loop [where I = ?I and k = ?k])
    show "act_atomic (tx_step_env quiet oc T s) (?k s)" for s
      using tx_step_atomic [of oc T "fst s" "fst (snd s)" "fst (snd (snd s))" "snd (snd (snd s))"] by simp
    show "?I (q, tap, irq, False) m" by (intro exI [of _ 0]) (simp add: tx_done_def tx_packets_def)
  next
    fix s m' assume "?I s m'"
    then obtain k where k: "k \<le> length hs" "tx_done T q tap m irq hs k (tx_vars_of s m')" by blast
    show "act_touch (tx_step_env quiet oc T s) m' (tx_region q m hs)"
    proof (cases "k < length hs")
      case True
      from tx_step_touch [OF b True k(2), of oc] show ?thesis by simp
    next
      case False
      with k have d: "tx_done T q tap m irq hs (length hs) (tx_vars_of s m')" by simp
      have ok: "vq_ok (fst s) m'" "vq_driver_region (fst s) \<subseteq> tx_region q m hs"
        using tx_batch_leave(1) [OF b d] d by (auto simp: tx_done_def tx_region_def)
      obtain q1 s1 where s: "s = (q1, s1)" by (cases s)
      show ?thesis
        unfolding s tx_step_env_def
        by (cases s1) (use ok tx_batch_leave(2) [OF b d, of oc] s in
          \<open>auto intro!: act_touch_return act_touch_bind [OF get_avail_atomic get_avail_touch]\<close>)
    qed
  next
    fix s m' s' m'' assume "?I s m'" and s': "?k s m' = Some (Done (Inl s', m''))"
    then obtain k where k: "k \<le> length hs" "tx_done T q tap m irq hs k (tx_vars_of s m')" by blast
    from s' obtain v where v: "tx_step oc T (tx_vars_of s m') = Done (Inl v)" "tx_vars_of s' m'' = v"
      by (fastforce simp: run_bind_eq_Done split: sum.splits)
    have "k < length hs"
    proof (rule ccontr)
      assume "\<not> k < length hs"
      with k have "tx_done T q tap m irq hs (length hs) (tx_vars_of s m')" by simp
      from tx_batch_leave(2) [OF b this, of oc] v(1) show False by (simp add: tx_step_def)
    qed
    with tx_batch_step [OF b _ k(2), of oc] v show "?I s' m''" by (intro exI [of _ "Suc k"]) auto
  qed
qed

lemma tx_touch:
  assumes "q = vn_queues d ! 1" and "tx_batch q m hs"
  shows "act_touch (process_tx_env quiet oc T d) m (tx_region q m hs)"
  unfolding process_tx_env_def Let_def assms(1) [symmetric]
  by (auto intro!: act_touch_return act_touch_bind [OF tx_loop_atomic tx_loop_touch [OF assms(2)]] split: option.split)

section \<open>Atomicity\<close>

lemma tx_atomic:
  assumes "vn_tap d = Some tap" and "q = vn_queues d ! 1" and "vq_ready q" and "tx_batch q m hs"
    and "leaves_alone E A" and "tx_region q m hs \<subseteq> A"
  shows "\<exists>d' m1 v. process_tx oc T d m = Some (Done (fst (send_all T tap (tx_packets q m hs)), d', m1)) \<and>
    process_tx_env E oc T d (view_of m) = Some (Done ((fst (send_all T tap (tx_packets q m hs)), d'), v)) \<and>
    agree_on A m1 (mv_mem v)"
proof -
  obtain d' m1 where p: "process_tx oc T d m = Some (Done (fst (send_all T tap (tx_packets q m hs)), d', m1))"
    using tx_processed [OF assms(1-4), of oc T] by blast
  with act_follows_atomic [OF process_tx_follows [OF assms(5)] process_tx_atomic _ tx_touch [OF assms(2,4)] assms(6), of oc T _ _ "view_of m"]
  show ?thesis by fastforce
qed

section \<open>Reception\<close>

lemma rx_copy_touch:
  assumes "length p + 12 \<le> unat (vd_len e)" and "buffer_region e \<subseteq> S"
  shows "act_touch (rx_copy_env quiet oc e p) m S"
proof -
  have "{unat (vd_addr e)..<unat (vd_addr e) + length (replicate 12 0 @ p)} \<subseteq> S"
    using assms by (auto simp: buffer_region_def)
  note store = act_touch_bind [OF raw_store_atomic raw_store_touch [OF this]]
  show ?thesis
    unfolding rx_copy_env_def Let_def NET_HDR_LEN_def
    by (auto intro!: act_touch_exec_bind act_touch_len act_touch_return store)
qed

lemma rx_touch:
  assumes "vn_tap d = Some tap" and "q = vn_queues d ! 0" and "tap_read T tap 1514 = (Inr p, tap')" and "p \<noteq> []"
    and b: "rx_buffer q m h p"
  shows "act_touch (process_rx_env quiet oc T d) m (tx_region q m [h])"
proof -
  let ?S = "tx_region q m [h]" and ?e = "vq_desc q m h"
  have ok: "vq_ok q m" "h < vq_queue_size q" "length p + 12 \<le> unat (vd_len ?e)" "gm_range m (vd_addr ?e) (12 + length p)"
    using b by (simp_all add: rx_buffer_def)
  have get: "get_avail_desc_idx oc q m = Done (Some h)" "read_desc oc q m h = Done (Some ?e)"
    using b get_avail_desc_idx_ok [OF ok(1), of oc] read_desc_ok [OF ok(1,2), of oc] by (simp_all add: rx_buffer_def)
  note copy = rx_copy_ok [OF ok(3,4), of oc]
  have S: "vq_driver_region q \<subseteq> ?S" "vq_used_region q \<subseteq> ?S" "buffer_region ?e \<subseteq> ?S"
    "vq_table_region q \<subseteq> ?S" using vq_table_driver [of q] by (auto simp: tx_region_def)
  have ok1: "vq_ok q (m\<lparr>gm_bytes := f\<rparr>)" for f using ok(1) by (simp add: vq_ok_def)
  show ?thesis
    unfolding process_rx_env_def Let_def assms(1) assms(2) [symmetric]
    by (auto simp: assms(3,4) get copy run_bind_eq_Done intro!: act_touch_return
        act_touch_bind [OF get_avail_atomic get_avail_touch [OF ok(1) S(1)]]
        act_touch_bind [OF read_desc_atomic read_desc_touch [OF ok(1) S(4) ok(2)]]
        act_touch_bind [OF rx_copy_atomic rx_copy_touch [OF ok(3) S(3)]]
        act_touch_bind [OF add_used_atomic add_used_touch [OF ok1 S(2)]])
qed

lemma rx_atomic:
  assumes "vn_tap d = Some tap" and "q = vn_queues d ! 0" and "tap_read T tap 1514 = (Inr p, tap')" and "p \<noteq> []"
    and "rx_buffer q m h p" and "leaves_alone E A" and "tx_region q m [h] \<subseteq> A"
    and "process_rx oc T d m = Done (True, d', m1)"
  shows "\<exists>v. process_rx_env E oc T d (view_of m) = Some (Done ((True, d'), v)) \<and> agree_on A m1 (mv_mem v)"
  using act_follows_atomic [OF process_rx_follows [OF assms(6)] process_rx_atomic _ rx_touch [OF assms(1-5)] assms(7), of oc _ _ "view_of m"]
    assms(8) by simp

lemma net_example_region: "tx_region net_queue (net_mem [1, 2, 3, 4]) [0] \<subseteq> {1..}"
proof -
  have "vq_driver_region net_queue \<subseteq> {1..}" "vq_used_region net_queue \<subseteq> {1..}"
    by (auto simp: vq_driver_region_def vq_used_region_def net_queue_def)
  moreover have "buffer_region (vq_desc net_queue (net_mem [1, 2, 3, 4]) 0) \<subseteq> {1..}"
    by (auto simp: net_example buffer_region_def)
  ultimately show ?thesis by (simp add: tx_region_def)
qed

text \<open>
  Atomicity of transmission. When the guest, while a poll of the transmit queue works, leaves alone
  the rings, the descriptors and the packets that are queued, the poll returns what it returns in
  isolation, with the same state of the device and the interface, however the guest's other stores
  interleave with its accesses; and the memory is that of the isolated run wherever the guest has
  not stored.
\<close>

theorem net_tx_atomic:
  assumes "vn_tap d = Some tap" and "q = vn_queues d ! 1" and "vq_ready q" and "tx_batch q m hs"
    and "leaves_alone E A" and "tx_region q m hs \<subseteq> A"
  shows "\<exists>d' m1 v. process_tx oc T d m = Some (Done (fst (send_all T tap (tx_packets q m hs)), d', m1)) \<and>
    process_tx_env E oc T d (view_of m) = Some (Done ((fst (send_all T tap (tx_packets q m hs)), d'), v)) \<and>
    agree_on A m1 (mv_mem v)"
  using assms by (rule tx_atomic)

theorem net_tx_atomic_witness:
  "\<exists>d' m1 v w. process_tx True (wire_ops []) (net_dev []) (net_mem [1, 2, 3, 4]) = Some (Done (w, d', m1)) \<and>
    process_tx_env counting_guest True (wire_ops []) (net_dev []) (view_of (net_mem [1, 2, 3, 4])) = Some (Done ((w, d'), v)) \<and>
    agree_on {1..} m1 (mv_mem v)"
proof -
  have "vn_tap (net_dev []) = Some \<lparr>ti_file = \<lparr>w_rx = [], w_tx = []\<rparr>, ti_name = []\<rparr>"
    "net_queue = vn_queues (net_dev []) ! 1" "vq_ready net_queue"
    by (simp_all add: net_dev_def vn_new_def net_queue_def)
  from net_tx_atomic [OF this net_example_batch counting_guest_alone net_example_region, of True "wire_ops []"]
  show ?thesis by blast
qed

end
