(* ===== verification/Ax_Net_Poll.thy ===== *)
theory Ax_Net_Poll
  imports Ax_Net_Atomic
begin

text \<open>
  A poll of the receive queue in full: with a buffer or without one, with a packet that fits, one that
  does not, or none; in isolation and beside a guest that leaves the queue and its next buffer alone.
\<close>

section \<open>What a poll finds\<close>

abbreviation rx_head :: "virt_queue \<Rightarrow> guest_memory \<Rightarrow> u16" where
  "rx_head q m \<equiv> vq_head q m (vq_last_avail_idx q)"

abbreviation rx_desc :: "virt_queue \<Rightarrow> guest_memory \<Rightarrow> vring_desc" where
  "rx_desc q m \<equiv> vq_desc q m (rx_head q m)"

definition rx_waiting :: "virt_queue \<Rightarrow> guest_memory \<Rightarrow> bool" where
  "rx_waiting q m \<longleftrightarrow> vq_ready q \<and> vq_last_avail_idx q \<noteq> vq_avail_idx q m"

text \<open>
  What the driver promises of its receive queue: rings in memory, and a next buffer, if there is one,
  that is in the table, apart from the used ring and not at the very end of the address space. The
  buffer may be too small for a packet, or outside of guest memory.
\<close>

definition rx_queue_ok :: "virt_queue \<Rightarrow> guest_memory \<Rightarrow> bool" where
  "rx_queue_ok q m \<longleftrightarrow> vq_ready q \<longrightarrow> vq_ok q m \<and> (rx_waiting q m \<longrightarrow> rx_head q m < vq_queue_size q \<and>
     unat (vd_addr (rx_desc q m)) + 1526 < 2 ^ 64 \<and> buffer_region (rx_desc q m) \<inter> vq_used_region q = {})"

text \<open>The bytes of the next buffer that the device may write: those that lie in guest memory.\<close>

definition rx_room :: "virt_queue \<Rightarrow> guest_memory \<Rightarrow> nat" where
  "rx_room q m = min (unat (vd_len (rx_desc q m))) (unat (gm_len m) - unat (vd_addr (rx_desc q m)))"

text \<open>What the poll writes, and what it touches.\<close>

definition rx_writes :: "virt_queue \<Rightarrow> guest_memory \<Rightarrow> nat set" where
  "rx_writes q m = (if rx_waiting q m then vq_used_region q \<union> buffer_region (rx_desc q m) else {})"

definition rx_region :: "virt_queue \<Rightarrow> guest_memory \<Rightarrow> nat set" where
  "rx_region q m = (if vq_ready q then vq_driver_region q else {}) \<union> rx_writes q m"

text \<open>The packet that is delivered, if there is one, and the interface afterwards.\<close>

definition rx_taken :: "'p tap_ops \<Rightarrow> 'p tap_interface \<Rightarrow> virt_queue \<Rightarrow> guest_memory \<Rightarrow> bytes option" where
  "rx_taken T tap q m = (if rx_waiting q m then
     (case fst (tap_read T tap 1514) of Inl _ \<Rightarrow> None
      | Inr p \<Rightarrow> if p \<noteq> [] \<and> 12 + length p \<le> rx_room q m then Some p else None) else None)"

definition rx_tap :: "'p tap_ops \<Rightarrow> 'p tap_interface \<Rightarrow> virt_queue \<Rightarrow> guest_memory \<Rightarrow> 'p tap_interface" where
  "rx_tap T tap q m = (if rx_waiting q m then snd (tap_read T tap 1514) else tap)"

section \<open>In isolation\<close>

lemma rx_copy_refused:
  assumes "length p \<le> 1514" and "unat (vd_addr e) + 1526 < 2 ^ 64"
    and "unat (vd_len e) < 12 + length p \<or> unat (gm_len m) < unat (vd_addr e) + (12 + length p)"
  shows "rx_copy oc m e p = Done None"
proof -
  have n: "unat (of_nat (length p + 12) :: u32) = length p + 12" "unat (of_nat (length p) :: u64) = length p"
    using assms(1) by (simp_all add: unat_of_nat_small del: of_nat_add)
  have a: "unat (vd_addr e + 12) = unat (vd_addr e) + 12" "uadd oc (vd_addr e) 12 = Done (vd_addr e + 12)"
    using assms(2) by (simp_all add: uadd_no_overflow unat_plus_no_overflow)
  have fin: "uadd oc (vd_addr e + 12) (of_nat (length p)) = Done (vd_addr e + 12 + of_nat (length p))"
    "unat (vd_addr e + 12 + of_nat (length p)) = unat (vd_addr e) + 12 + length p"
    using assms(1,2) a n(2) by (simp_all add: uadd_no_overflow unat_plus_no_overflow)
  show ?thesis
    using assms(3) a fin n
    by (auto simp: rx_copy_def Let_def NET_HDR_LEN_def word_less_nat_alt simp del: of_nat_add)
qed

lemma rx_buffer_waiting:
  assumes "rx_queue_ok q m" and "rx_waiting q m" and "12 + length p \<le> rx_room q m"
  shows "rx_buffer q m (rx_head q m) p"
  using assms unfolding rx_buffer_def rx_queue_ok_def rx_waiting_def rx_room_def gm_range_def by auto

lemma rx_isolated:
  assumes tap: "vn_tap d = Some tap" and q: "q = vn_queues d ! 0" and ok: "rx_queue_ok q m"
    and fits: "tap_reads_fit T" and none: "rx_taken T tap q m = None"
  shows "process_rx oc T d m = Done (False, d\<lparr>vn_tap := Some (rx_tap T tap q m)\<rparr>, m)"
proof (cases "rx_waiting q m")
  case False
  then have "d\<lparr>vn_tap := Some (rx_tap T tap q m)\<rparr> = d" using tap by (simp add: rx_tap_def)
  then show ?thesis
    using False ok tap get_avail_desc_idx_ok [of q m oc]
    by (auto simp: process_rx_def Let_def q rx_waiting_def rx_queue_ok_def)
next
  case True
  let ?e = "rx_desc q m"
  have e: "vq_ok q m" "rx_head q m < vq_queue_size q" "unat (vd_addr ?e) + 1526 < 2 ^ 64" "vq_ready q"
    using ok True by (auto simp: rx_queue_ok_def rx_waiting_def)
  have get: "get_avail_desc_idx oc q m = Done (Some (rx_head q m))" "read_desc oc q m (rx_head q m) = Done (Some ?e)"
    using True get_avail_desc_idx_ok [OF e(1), of oc] read_desc_ok [OF e(1,2), of oc] by (simp_all add: rx_waiting_def)
  obtain r tap' where t: "tap_read T tap 1514 = (r, tap')" by fastforce
  have "rx_copy oc m ?e p = Done None" if "r = Inr p" "p \<noteq> []" for p
    by (rule rx_copy_refused [OF tap_reads_fitD [OF fits t [unfolded that(1)]] e(3)])
      (use none True that t in \<open>auto simp: rx_taken_def rx_room_def split: if_splits\<close>)
  then show ?thesis
    using True t tap e(4) get by (auto simp: process_rx_def Let_def q rx_tap_def split: sum.split)
qed

lemma rx_isolated_taken:
  assumes "vn_tap d = Some tap" and "q = vn_queues d ! 0" and "rx_queue_ok q m" and "rx_taken T tap q m = Some p"
  shows "rx_waiting q m" and "p \<noteq> []" and "12 + length p \<le> rx_room q m"
    and "tap_read T tap 1514 = (Inr p, rx_tap T tap q m)" and "rx_buffer q m (rx_head q m) p"
proof -
  show w: "rx_waiting q m" "p \<noteq> []" "12 + length p \<le> rx_room q m"
    using assms(4) by (auto simp: rx_taken_def split: if_splits sum.splits)
  then show "tap_read T tap 1514 = (Inr p, rx_tap T tap q m)"
    using assms(4) by (auto simp: rx_taken_def rx_tap_def split: if_splits sum.splits intro: prod_eqI)
  show "rx_buffer q m (rx_head q m) p" using rx_buffer_waiting [OF assms(3) w(1,3)] .
qed

section \<open>Beside the guest\<close>

lemma rx_copy_touch_room:
  assumes "length p \<le> 1514" and "unat (vd_addr e) + 1526 < 2 ^ 64" and "buffer_region e \<subseteq> S"
  shows "act_touch (rx_copy_env quiet oc e p) m S"
proof (cases "length p + 12 \<le> unat (vd_len e)")
  case True
  from rx_copy_touch [OF this assms(3)] show ?thesis .
next
  case False
  have "unat (of_nat (length p + 12) :: u32) = length p + 12"
    using assms(1) by (simp add: unat_of_nat_small del: of_nat_add)
  with False have "vd_len e < of_nat (length p + NET_HDR_LEN)"
    by (simp add: NET_HDR_LEN_def word_less_nat_alt del: of_nat_add)
  then show ?thesis by (simp add: rx_copy_env_def act_touch_return)
qed

lemma rx_touch_region:
  assumes "vn_tap d = Some tap" and q: "q = vn_queues d ! 0" and b: "rx_queue_ok q m" and "tap_reads_fit T"
  shows "act_touch (process_rx_env quiet oc T d) m (rx_region q m)"
proof (cases "vq_ready q")
  case False
  then show ?thesis by (simp add: process_rx_env_def Let_def q assms(1) act_touch_return)
next
  case True
  let ?S = "rx_region q m" and ?e = "rx_desc q m"
  have ok: "vq_ok q m" "vq_driver_region q \<subseteq> ?S" using b True by (auto simp: rx_queue_ok_def rx_region_def)
  have get: "get_avail_desc_idx oc q m = Done (if rx_waiting q m then Some (rx_head q m) else None)"
    using True get_avail_desc_idx_ok [OF ok(1), of oc] by (simp add: rx_waiting_def)
  have w: "rx_head q m < vq_queue_size q" "read_desc oc q m (rx_head q m) = Done (Some ?e)"
    "unat (vd_addr ?e) + 1526 < 2 ^ 64" "vq_used_region q \<subseteq> ?S" "buffer_region ?e \<subseteq> ?S" if "rx_waiting q m"
    using that b True read_desc_ok [OF ok(1), of "rx_head q m" oc] by (auto simp: rx_queue_ok_def rx_region_def rx_writes_def)
  have table: "vq_table_region q \<subseteq> ?S" using ok(2) vq_table_driver [of q] by blast
  have len: "length p \<le> 1514" if "fst (tap_read T tap 1514) = Inr p" for p
    using tap_reads_fitD [OF assms(4)] that by (metis prod.collapse)
  have okm: "vq_ok q m'" if "rx_copy oc m ?e p = Done c" "(case c of None \<Rightarrow> (False, m) | Some m' \<Rightarrow> (True, m')) = (x, m')" for p c x m'
    using that ok(1) by (auto simp: rx_copy_def Let_def raw_store_def vq_ok_def gm_range_def split: if_splits option.splits)
  show ?thesis
    unfolding process_rx_env_def Let_def assms(1) q [symmetric]
    by (auto simp: get w run_bind_eq_Done intro!: act_touch_return
        act_touch_bind [OF get_avail_atomic get_avail_touch [OF ok]]
        act_touch_bind [OF read_desc_atomic read_desc_touch [OF ok(1) table w(1)]]
        act_touch_bind [OF rx_copy_atomic rx_copy_touch_room [OF len w(3,5)]]
        act_touch_bind [OF add_used_atomic add_used_touch [OF okm w(4)]] split: prod.split sum.split if_splits)
qed

lemma rx_beside:
  assumes "vn_tap d = Some tap" and "q = vn_queues d ! 0" and "rx_queue_ok q m" and "tap_reads_fit T"
    and "leaves_alone E A" and "rx_region q m \<subseteq> A" and "process_rx oc T d m = Done (w, d', m1)"
    and "agree_on A m (mv_mem u)"
  shows "\<exists>v. process_rx_env E oc T d u = Some (Done ((w, d'), v)) \<and> agree_on A m1 (mv_mem v)"
  using act_follows_atomic [OF process_rx_follows [OF assms(5)] process_rx_atomic _ rx_touch_region [OF assms(1-4)] assms(6,8), of oc]
    assms(7) by simp

section \<open>The transmit queue\<close>

text \<open>A transmit queue that is off, or on which the driver has queued the packets of \<open>hs\<close>, and what a poll touches of it.\<close>

definition tx_queue_ok :: "virt_queue \<Rightarrow> guest_memory \<Rightarrow> u16 list \<Rightarrow> bool" where
  "tx_queue_ok q m hs \<longleftrightarrow> (if vq_ready q then tx_batch q m hs else hs = [])"

definition tx_touched :: "virt_queue \<Rightarrow> guest_memory \<Rightarrow> u16 list \<Rightarrow> nat set" where
  "tx_touched q m hs = (if vq_ready q then tx_region q m hs else {})"

lemma tx_beside:
  assumes "vn_tap d = Some tap" and "q = vn_queues d ! 1" and "tx_queue_ok q m hs"
    and "leaves_alone E A" and "tx_touched q m hs \<subseteq> A" and "agree_on A m (mv_mem u)"
  shows "\<exists>d' m1 v. process_tx_env E oc T d u = Some (Done ((fst (send_all T tap (tx_packets q m hs)), d'), v)) \<and>
    agree_on A m1 (mv_mem v) \<and> vn_tap d' = Some (snd (send_all T tap (tx_packets q m hs))) \<and>
    (hs \<noteq> [] \<longrightarrow> vq_used_idx q m1 = vq_avail_idx q m) \<and>
    (\<forall>k < length hs. vq_used_id q m1 (vq_last_avail_idx q + of_nat k) = ucast (hs ! k)) \<and>
    vn_interrupt_status d' = (if hs = [] then vn_interrupt_status d else vn_interrupt_status d OR 1) \<and>
    agree_on (- (vq_used_region q \<inter> tx_touched q m hs)) m m1"
proof (cases "vq_ready q")
  case True
  with assms have b: "tx_batch q m hs" "tx_region q m hs \<subseteq> A" "vq_used_region q \<inter> tx_touched q m hs = vq_used_region q"
    by (auto simp: tx_queue_ok_def tx_touched_def tx_region_def)
  from tx_processed [OF assms(1,2) True b(1), of oc T] obtain d' m1 where
    p: "process_tx oc T d m = Some (Done (fst (send_all T tap (tx_packets q m hs)), d', m1))"
    and r: "vn_tap d' = Some (snd (send_all T tap (tx_packets q m hs)))"
      "hs \<noteq> [] \<longrightarrow> vq_used_idx q m1 = vq_avail_idx q m"
      "\<forall>k < length hs. vq_used_id q m1 (vq_last_avail_idx q + of_nat k) = ucast (hs ! k)"
      "vn_interrupt_status d' = (if hs = [] then vn_interrupt_status d else vn_interrupt_status d OR 1)"
      "agree_on (- vq_used_region q) m m1" by blast
  from act_follows_atomic [OF process_tx_follows [OF assms(4)] process_tx_atomic _ tx_touch [OF assms(2) b(1)] b(2) assms(6), of oc T] p
  obtain v where v: "process_tx_env E oc T d u = Some (Done ((fst (send_all T tap (tx_packets q m hs)), d'), v))"
    "agree_on A m1 (mv_mem v)" by fastforce
  with r show ?thesis by (intro exI [of _ d'] exI [of _ m1] exI [of _ v]) (simp add: b(3))
next
  case False
  then have "process_tx_env E oc T d u = Some (Done ((False, d), u))" "hs = []"
    using assms(1-3) by (auto simp: tx_queue_ok_def process_tx_env_def act_return_def)
  with assms(1,6) show ?thesis by (auto simp: tx_packets_def)
qed

text \<open>The packets of a queue do not change with memory that is none of its business.\<close>

lemma tx_queue_agree:
  assumes "tx_queue_ok q m hs" and "agree_on (tx_touched q m hs) m m1"
  shows "tx_queue_ok q m1 hs \<and> tx_packets q m1 hs = tx_packets q m hs \<and> tx_touched q m1 hs = tx_touched q m hs \<and>
    (vq_ready q \<longrightarrow> vq_avail_idx q m1 = vq_avail_idx q m)"
proof (cases "vq_ready q")
  case True
  with assms have b: "tx_batch q m hs" and ag: "agree_on (tx_region q m hs) m m1" by (simp_all add: tx_queue_ok_def tx_touched_def)
  have ok: "vq_ok q m" and hs: "\<And>h. h \<in> set hs \<Longrightarrow> h < vq_queue_size q" using b by (auto simp: tx_batch_def)
  have dr: "agree_on (vq_driver_region q) m m1" using ag by (rule agree_on_subset) (auto simp: tx_region_def)
  note drv = vq_driver_agree [OF ok dr]
  have desc: "vq_desc q m1 h = vq_desc q m h" if "h \<in> set hs" for h using drv(3) hs that by blast
  have pk: "tx_packet m1 (vq_desc q m h) = tx_packet m (vq_desc q m h)" if "h \<in> set hs" for h
  proof -
    let ?e = "vq_desc q m h"
    have "mem_get (gm_bytes m1) (unat (vd_addr ?e) + NET_HDR_LEN) (unat (vd_len ?e) - NET_HDR_LEN) =
        mem_get (gm_bytes m) (unat (vd_addr ?e) + NET_HDR_LEN) (unat (vd_len ?e) - NET_HDR_LEN)"
      by (rule agree_on_get [OF ag]) (use that in \<open>fastforce simp: tx_region_def buffer_region_def\<close>)
    moreover have "same_shape m m1" using ag by (simp add: agree_on_def)
    ultimately show ?thesis by (simp add: tx_packet_def same_shape_range)
  qed
  have "tx_batch q m1 hs" using b vq_ok_agree [OF ag, of q] by (simp add: tx_batch_def drv(1,2) desc)
  moreover have "tx_packets q m1 hs = tx_packets q m hs"
    unfolding tx_packets_def by (rule arg_cong [where f = concat]) (simp add: desc pk)
  moreover have "tx_region q m1 hs = tx_region q m hs" by (simp add: tx_region_def desc)
  ultimately show ?thesis
    using True drv(1) by (simp add: tx_queue_ok_def tx_touched_def)
qed (use assms(1) in \<open>simp add: tx_queue_ok_def tx_packets_def tx_touched_def\<close>)

section \<open>Both queues\<close>

text \<open>
  What the driver promises of its two queues, either of which may be off: each of them is in order, and
  what a receive poll writes is apart from everything that belongs to the packets being sent.
\<close>

definition net_driver_ok :: "'p virtio_net \<Rightarrow> guest_memory \<Rightarrow> u16 list \<Rightarrow> bool" where
  "net_driver_ok n m hs \<longleftrightarrow> length (vn_queues n) = 2 \<and> rx_queue_ok (vn_queues n ! 0) m \<and> tx_queue_ok (vn_queues n ! 1) m hs \<and>
     rx_writes (vn_queues n ! 0) m \<inter> tx_touched (vn_queues n ! 1) m hs = {}"

definition net_region :: "'p virtio_net \<Rightarrow> guest_memory \<Rightarrow> u16 list \<Rightarrow> nat set" where
  "net_region n m hs = rx_region (vn_queues n ! 0) m \<union> tx_touched (vn_queues n ! 1) m hs"

lemma rx_isolated_frame:
  assumes "vn_tap d = Some tap" and "q = vn_queues d ! 0" and "rx_queue_ok q m" and "tap_reads_fit T"
  shows "\<exists>d' m1. process_rx oc T d m = Done (rx_taken T tap q m \<noteq> None, d', m1) \<and> vn_tap d' = Some (rx_tap T tap q m) \<and>
    vn_queues d' ! 1 = vn_queues d ! 1 \<and> agree_on (- rx_writes q m) m m1 \<and>
    vn_interrupt_status d' = (if rx_taken T tap q m = None then vn_interrupt_status d else vn_interrupt_status d OR 1) \<and>
    (\<forall>p. rx_taken T tap q m = Some p \<longrightarrow>
       mem_get (gm_bytes m1) (unat (vd_addr (rx_desc q m))) (12 + length p) = replicate 12 0 @ p \<and>
       vq_used_id q m1 (vq_last_avail_idx q) = ucast (rx_head q m) \<and>
       vq_used_len q m1 (vq_last_avail_idx q) = of_nat (length p + 12) \<and> vq_used_idx q m1 = vq_last_avail_idx q + 1)"
proof (cases "rx_taken T tap q m")
  case None
  with rx_isolated [OF assms None, of oc] show ?thesis by simp
next
  case (Some p)
  note t = rx_isolated_taken [OF assms(1-3) Some]
  from rx_processed [OF assms(1,2) t(4,2,5) refl, of oc] Some t(1) show ?thesis by (auto simp: rx_writes_def)
qed

end
