(* ===== verification/Ax_Net_Link.thy ===== *)
theory Ax_Net_Link
  imports Ax_Net_Poll "HOL-Library.Sublist"
begin

text \<open>
  What the network device promises, without rings and memory: a link that offers every packet of the
  driver to the TAP interface once, in order, and hands over the packets that it takes from the interface,
  in order, those excepted that do not fit into the driver's buffer; and the refinement of this link by
  the device beside a running guest, over any sequence of register writes and polls and for any
  interface.
\<close>

section \<open>The abstract link\<close>

text \<open>
  What a driver sees of the link: it has queued a packet; it finds a packet in a buffer with room for
  \<open>n\<close> bytes; it has a buffer with room for \<open>n\<close> bytes waiting and the poll has brought it nothing.
\<close>

datatype link_event = Queue bytes | Deliver nat bytes | Miss nat

text \<open>
  The link itself. A queued packet is offered to the interface once, and is gone if that refuses it. A packet
  that is taken from the interface goes to the driver if the buffer has room for it and the header of
  12 bytes, and is lost otherwise; \<open>None\<close> where the link does not have such an event.
\<close>

definition fits_room :: "nat \<Rightarrow> bytes \<Rightarrow> bool" where
  "fits_room n p \<longleftrightarrow> p \<noteq> [] \<and> 12 + length p \<le> n"

fun link_step :: "'p tap_ops \<Rightarrow> link_event \<Rightarrow> 'p tap_interface \<Rightarrow> 'p tap_interface option" where
  "link_step T (Queue p) tap = Some (snd (tap_write T tap p))"
| "link_step T (Deliver n p) tap = (case tap_read T tap 1514 of
     (Inr x, tap') \<Rightarrow> if x = p \<and> fits_room n p then Some tap' else None | _ \<Rightarrow> None)"
| "link_step T (Miss n) tap = (case tap_read T tap 1514 of
     (Inr x, tap') \<Rightarrow> if fits_room n x then None else Some tap' | (Inl _, tap') \<Rightarrow> Some tap')"

primrec link_run :: "'p tap_ops \<Rightarrow> link_event list \<Rightarrow> 'p tap_interface \<Rightarrow> 'p tap_interface option" where
  "link_run T [] tap = Some tap"
| "link_run T (e # es) tap = (case link_step T e tap of None \<Rightarrow> None | Some tap1 \<Rightarrow> link_run T es tap1)"

text \<open>The packets that the interface accepts, and those it gives, each with the room that was there for it.\<close>

fun accepted :: "'p tap_ops \<Rightarrow> link_event list \<Rightarrow> 'p tap_interface \<Rightarrow> bytes list" where
  "accepted T [] tap = []"
| "accepted T (Queue p # es) tap = (case tap_write T tap p of
     (Inr _, tap1) \<Rightarrow> p # accepted T es tap1 | (Inl _, tap1) \<Rightarrow> accepted T es tap1)"
| "accepted T (Deliver n p # es) tap = accepted T es (snd (tap_read T tap 1514))"
| "accepted T (Miss n # es) tap = accepted T es (snd (tap_read T tap 1514))"

fun arrivals :: "'p tap_ops \<Rightarrow> link_event list \<Rightarrow> 'p tap_interface \<Rightarrow> (nat \<times> bytes) list" where
  "arrivals T [] tap = []"
| "arrivals T (Queue p # es) tap = arrivals T es (snd (tap_write T tap p))"
| "arrivals T (Deliver n p # es) tap = (case tap_read T tap 1514 of
     (Inr x, tap1) \<Rightarrow> (n, x) # arrivals T es tap1 | (Inl _, tap1) \<Rightarrow> arrivals T es tap1)"
| "arrivals T (Miss n # es) tap = (case tap_read T tap 1514 of
     (Inr x, tap1) \<Rightarrow> (n, x) # arrivals T es tap1 | (Inl _, tap1) \<Rightarrow> arrivals T es tap1)"

fun queued_packets :: "link_event list \<Rightarrow> bytes list" where
  "queued_packets [] = []"
| "queued_packets (Queue p # es) = p # queued_packets es"
| "queued_packets (Deliver n p # es) = queued_packets es"
| "queued_packets (Miss n # es) = queued_packets es"

fun delivered_packets :: "link_event list \<Rightarrow> bytes list" where
  "delivered_packets [] = []"
| "delivered_packets (Queue p # es) = delivered_packets es"
| "delivered_packets (Deliver n p # es) = p # delivered_packets es"
| "delivered_packets (Miss n # es) = delivered_packets es"

text \<open>What is delivered is what was taken and fits, in order; what is accepted was queued, in order.\<close>

lemma link_run_delivers:
  "link_run T es tap = Some tap' \<Longrightarrow>
   delivered_packets es = map snd (filter (\<lambda>(n, p). fits_room n p) (arrivals T es tap))"
proof (induction es arbitrary: tap)
  case (Cons e es)
  then obtain tap1 where s: "link_step T e tap = Some tap1" "link_run T es tap1 = Some tap'" by (auto split: option.splits)
  note ih = Cons.IH [OF s(2)]
  show ?case
  proof (cases e)
    case (Queue p)
    with s(1) ih show ?thesis by simp
  qed (use s(1) ih in \<open>auto split: prod.splits sum.splits if_splits\<close>)
qed simp

lemma accepted_subseq: "subseq (accepted T es tap) (queued_packets es)"
  by (induction T es tap rule: accepted.induct) (auto split: prod.splits sum.splits)

lemma link_run_queue: "link_run T (map Queue ps @ es) tap = link_run T es (snd (send_all T tap ps))"
  by (induction ps arbitrary: tap) (simp_all add: case_prod_beta)

context packet_tap
begin

lemma tap_write_sends:
  assumes "tap_write T tap p = (r, tap')"
  shows "waiting (ti_file tap') = waiting (ti_file tap)"
    and "sent (ti_file tap') = (case r of Inr _ \<Rightarrow> sent (ti_file tap) @ [p] | Inl _ \<Rightarrow> sent (ti_file tap))"
  using assms write_sends [of "ti_file tap" p r "ti_file tap'"] by (auto simp: tap_write_def split: prod.splits)

lemma tap_read_takes:
  "tap_read T tap n = (Inr x, tap') \<Longrightarrow> sent (ti_file tap') = sent (ti_file tap) \<and>
     (\<exists>p. waiting (ti_file tap) = p # waiting (ti_file tap') \<and> x = take n p)"
  "tap_read T tap n = (Inl e, tap') \<Longrightarrow> sent (ti_file tap') = sent (ti_file tap) \<and>
     waiting (ti_file tap') = waiting (ti_file tap)"
  using read_takes [of "ti_file tap" n x "ti_file tap'"] read_fails [of "ti_file tap" n e "ti_file tap'"]
  by (auto simp: tap_read_def split: prod.splits)

text \<open>On such an interface the link adds what was accepted to the wire and takes what arrived from it.\<close>

lemma link_run_wire:
  "link_run T es tap = Some tap' \<Longrightarrow> sent (ti_file tap') = sent (ti_file tap) @ accepted T es tap \<and>
   (\<exists>ps. waiting (ti_file tap) = ps @ waiting (ti_file tap') \<and> map (take 1514) ps = map snd (arrivals T es tap))"
proof (induction es arbitrary: tap)
  case (Cons e es)
  then obtain tap1 where s: "link_step T e tap = Some tap1" "link_run T es tap1 = Some tap'"
    by (auto split: option.splits)
  note ih = Cons.IH [OF s(2)]
  show ?case
  proof (cases e)
    case (Queue p)
    obtain r where "tap_write T tap p = (r, tap1)" using s(1) Queue by (cases "tap_write T tap p") simp
    with tap_write_sends [OF this] ih Queue show ?thesis by (cases r) simp_all
  next
    case (Deliver n p)
    then have r: "tap_read T tap 1514 = (Inr p, tap1)" using s(1) by (auto split: prod.splits sum.splits if_splits)
    from tap_read_takes(1) [OF r] obtain q where "sent (ti_file tap1) = sent (ti_file tap)"
      "waiting (ti_file tap) = q # waiting (ti_file tap1)" "p = take 1514 q" by blast
    with ih Deliver r show ?thesis by (auto intro: exI [of _ "q # _"])
  next
    case (Miss n)
    obtain r where r: "tap_read T tap 1514 = (r, tap1)" using s(1) Miss by (auto split: prod.splits sum.splits if_splits)
    show ?thesis
    proof (cases r)
      case (Inl x)
      with tap_read_takes(2) [of tap 1514 x tap1] ih Miss r show ?thesis by simp
    next
      case (Inr x)
      with tap_read_takes(1) [of tap 1514 x tap1] r obtain q where "sent (ti_file tap1) = sent (ti_file tap)"
        "waiting (ti_file tap) = q # waiting (ti_file tap1)" "x = take 1514 q" by blast
      with ih Miss r Inr show ?thesis by (auto intro: exI [of _ "q # _"])
    qed
  qed
qed simp

end

section \<open>Polls beside the guest\<close>

text \<open>The packet that a driver finds behind a completed buffer, by the length that was published.\<close>

definition rx_packet :: "virt_queue \<Rightarrow> guest_memory \<Rightarrow> vring_desc \<Rightarrow> u16 \<Rightarrow> bytes" where
  "rx_packet q m e i = mem_get (gm_bytes m) (unat (vd_addr e) + 12) (unat (vq_used_len q m i) - 12)"

lemma mem_get_drop: "drop k (mem_get f a (k + n)) = mem_get f (a + k) n"
  by (rule nth_equalityI) (simp_all add: add.assoc)

lemma rx_packet_found:
  assumes "rx_buffer q m h p" and "e = vq_desc q m h" and "i = vq_last_avail_idx q"
    and "mem_get (gm_bytes m1) (unat (vd_addr e)) (12 + length p) = replicate 12 0 @ p"
    and "vq_used_len q m1 i = of_nat (length p + 12)"
    and "agree_on A m1 m'" and "vq_used_region q \<subseteq> A" and "buffer_region e \<subseteq> A"
  shows "rx_packet q m' e i = p"
proof -
  have ok: "vq_ok q m" "length p + 12 \<le> unat (vd_len e)" using assms(1,2) by (simp_all add: rx_buffer_def)
  have len: "unat (vq_used_len q m' i) = length p + 12"
    using vq_used_agree(3) [OF assms(6,7) ok(1)] assms(5) ok(2) unat_u32_bound [of "vd_len e"]
    by (simp add: unat_of_nat_small del: of_nat_add)
  have "mem_get (gm_bytes m') (unat (vd_addr e) + 12) (length p) = mem_get (gm_bytes m1) (unat (vd_addr e) + 12) (length p)"
    by (rule agree_on_get [OF assms(6)]) (use assms(8) ok(2) in \<open>auto simp: buffer_region_def\<close>)
  also have "\<dots> = p" using mem_get_drop [of 12 "gm_bytes m1" "unat (vd_addr e)" "length p"] assms(4) by simp
  finally show ?thesis using len by (simp add: rx_packet_def)
qed

lemma rx_carries:
  assumes tap: "vn_tap d = Some tap" and q: "q = vn_queues d ! 0" and ok: "rx_queue_ok q m" and fits: "tap_reads_fit T"
    and E: "leaves_alone E A" "rx_region q m \<subseteq> A"
  shows "\<exists>w d' v. process_rx_env E oc T d (view_of m) = Some (Done ((w, d'), v)) \<and>
    vn_tap d' = Some (rx_tap T tap q m) \<and> w = (rx_taken T tap q m \<noteq> None) \<and> (\<not> w \<longrightarrow> vn_queues d' = vn_queues d) \<and>
    vn_queues d' ! 1 = vn_queues d ! 1 \<and>
    (\<forall>p. rx_taken T tap q m = Some p \<longrightarrow> rx_packet q (mv_mem v) (rx_desc q m) (vq_last_avail_idx q) = p)"
proof (cases "rx_taken T tap q m")
  case None
  from rx_beside [OF tap q ok fits E rx_isolated [OF tap q ok fits None, of oc], of "view_of m"] None
  show ?thesis by fastforce
next
  case (Some p)
  note t = rx_isolated_taken [OF tap q ok Some]
  obtain m1 where iso: "process_rx oc T d m = Done (True, d\<lparr>vn_tap := Some (rx_tap T tap q m),
        vn_queues := (vn_queues d)[0 := q\<lparr>vq_last_avail_idx := vq_last_avail_idx q + 1\<rparr>],
        vn_interrupt_status := vn_interrupt_status d OR 1\<rparr>, m1)"
    "mem_get (gm_bytes m1) (unat (vd_addr (rx_desc q m))) (12 + length p) = replicate 12 0 @ p"
    "vq_used_len q m1 (vq_last_avail_idx q) = of_nat (length p + 12)"
    using rx_processed [OF tap q t(4,2,5) refl, of oc] by blast
  obtain v where v: "process_rx_env E oc T d (view_of m) = Some (Done ((True, d\<lparr>vn_tap := Some (rx_tap T tap q m),
        vn_queues := (vn_queues d)[0 := q\<lparr>vq_last_avail_idx := vq_last_avail_idx q + 1\<rparr>],
        vn_interrupt_status := vn_interrupt_status d OR 1\<rparr>), v))" "agree_on A m1 (mv_mem v)"
    using rx_beside [OF tap q ok fits E iso(1), of "view_of m"] by auto
  have "rx_packet q (mv_mem v) (rx_desc q m) (vq_last_avail_idx q) = p"
    by (rule rx_packet_found [OF t(5) refl refl iso(2,3) v(2)]) (use E(2) t(1) in \<open>auto simp: rx_region_def rx_writes_def\<close>)
  with v(1) Some show ?thesis by auto
qed

section \<open>The life of the device\<close>

text \<open>
  Register writes and polls, with guest memory changed at will in between. While a poll works, the guest leaves
  the queue and the buffers that it serves alone. The events are the packets queued by the driver, the
  packets it finds in its completed buffers, and the polls that left its next buffer empty.
\<close>

definition rx_events :: "virt_queue \<Rightarrow> guest_memory \<Rightarrow> bool \<Rightarrow> guest_memory \<Rightarrow> link_event list" where
  "rx_events q m w m' = (if \<not> rx_waiting q m then []
     else if w then [Deliver (rx_room q m) (rx_packet q m' (rx_desc q m) (vq_last_avail_idx q))] else [Miss (rx_room q m)])"

inductive net_session ::
  "bool \<Rightarrow> 'p tap_ops \<Rightarrow> 'p virtio_net \<Rightarrow> link_event list \<Rightarrow> 'p virtio_net \<Rightarrow> bool"
  for oc :: bool and T :: "'p tap_ops" where
  net_idle: "net_session oc T d [] d"
| net_register: "vn_write d offset data = (r, d1) \<Longrightarrow> net_session oc T d1 es d2 \<Longrightarrow> net_session oc T d es d2"
| net_transmit: "tx_queue_ok (vn_queues d ! 1) m hs \<Longrightarrow> leaves_alone E A \<Longrightarrow>
    tx_touched (vn_queues d ! 1) m hs \<subseteq> A \<Longrightarrow>
    process_tx_env E oc T d (view_of m) = Some (Done ((w, d1), v)) \<Longrightarrow> net_session oc T d1 es d2 \<Longrightarrow>
    net_session oc T d (map Queue (tx_packets (vn_queues d ! 1) m hs) @ es) d2"
| net_receive: "rx_queue_ok (vn_queues d ! 0) m \<Longrightarrow> leaves_alone E A \<Longrightarrow> rx_region (vn_queues d ! 0) m \<subseteq> A \<Longrightarrow>
    process_rx_env E oc T d (view_of m) = Some (Done ((w, d1), v)) \<Longrightarrow> net_session oc T d1 es d2 \<Longrightarrow>
    net_session oc T d (rx_events (vn_queues d ! 0) m w (mv_mem v) @ es) d2"

lemma vn_upd_queue_tap: "vn_tap (vn_upd_queue d f) = vn_tap d"
  by (simp add: vn_upd_queue_def Let_def)

lemma vn_set_reg_tap: "vn_tap (vn_set_reg d offset val) = vn_tap d"
  unfolding vn_set_reg_def by (simp add: vn_upd_queue_tap vn_reset_def Let_def)

lemma vn_write_tap: "vn_tap (snd (vn_write d offset data)) = vn_tap d"
  by (simp add: vn_write_def vn_set_reg_tap)

text \<open>A receive poll is what the link does with its events.\<close>

lemma rx_events_step:
  assumes "w = (rx_taken T tap q m \<noteq> None)"
    and "\<And>p. rx_taken T tap q m = Some p \<Longrightarrow> rx_packet q m' (rx_desc q m) (vq_last_avail_idx q) = p"
  shows "link_run T (rx_events q m w m' @ es) tap = link_run T es (rx_tap T tap q m)"
proof (cases "rx_waiting q m")
  case True
  obtain r tap1 where r: "tap_read T tap 1514 = (r, tap1)" by fastforce
  with True assms show ?thesis
    by (cases r) (auto simp: rx_events_def rx_taken_def rx_tap_def fits_room_def)
qed (simp add: rx_events_def rx_tap_def)

lemma net_session_refines:
  "net_session oc T d es d' \<Longrightarrow> tap_reads_fit T \<Longrightarrow> vn_tap d = Some tap \<Longrightarrow>
   \<exists>tap'. vn_tap d' = Some tap' \<and> link_run T es tap = Some tap'"
proof (induction arbitrary: tap rule: net_session.induct)
  case (net_register d offset data r d1 es d2)
  with vn_write_tap [of d offset data] show ?case by simp
next
  case (net_transmit d m hs E A w d1 v es d2)
  from tx_beside [OF net_transmit.prems(2) refl net_transmit(1-3), of "view_of m" oc T] net_transmit(4)
  have "vn_tap d1 = Some (snd (send_all T tap (tx_packets (vn_queues d ! 1) m hs)))" by auto
  from net_transmit.IH [OF net_transmit.prems(1) this] show ?case by (simp add: link_run_queue)
next
  case (net_receive d m E A w d1 v es d2)
  from rx_carries [OF net_receive.prems(2) refl net_receive(1) net_receive.prems(1) net_receive(2,3), of oc] net_receive(4)
  have r: "vn_tap d1 = Some (rx_tap T tap (vn_queues d ! 0) m)" "w = (rx_taken T tap (vn_queues d ! 0) m \<noteq> None)"
    "\<And>p. rx_taken T tap (vn_queues d ! 0) m = Some p \<Longrightarrow>
       rx_packet (vn_queues d ! 0) (mv_mem v) (rx_desc (vn_queues d ! 0) m) (vq_last_avail_idx (vn_queues d ! 0)) = p"
    by auto
  from net_receive.IH [OF net_receive.prems(1) r(1)] rx_events_step [OF r(2,3)] show ?case by simp
qed simp

section \<open>Properties\<close>


text \<open>
  A packet of six bytes arrives that is too long for the buffer, then one of two bytes that fits; then the driver
  sends a packet that the interface refuses. The guest counts meanwhile.
\<close>

definition picky_tap :: "wire tap_ops" where
  "picky_tap = choosy_ops (\<lambda>p. p \<noteq> [1, 2, 3, 4]) []"

lemma net_example_rx: "rx_queue_ok net_queue (net_mem [1, 2, 3, 4])" "rx_room net_queue (net_mem [1, 2, 3, 4]) = 16"
  "rx_waiting net_queue (net_mem [1, 2, 3, 4])" "rx_region net_queue (net_mem [1, 2, 3, 4]) \<subseteq> {1..}"
proof -
  have b: "rx_buffer net_queue (net_mem [1, 2, 3, 4]) 0 [5, 6]" by (rule net_example_buffer)
  have h: "rx_head net_queue (net_mem [1, 2, 3, 4]) = 0" using b by (simp add: rx_buffer_def)
  show w: "rx_waiting net_queue (net_mem [1, 2, 3, 4])" using b by (simp add: rx_buffer_def rx_waiting_def)
  show "rx_queue_ok net_queue (net_mem [1, 2, 3, 4])"
    using b unfolding rx_queue_ok_def h by (simp add: rx_buffer_def net_example)
  show "rx_room net_queue (net_mem [1, 2, 3, 4]) = 16"
    unfolding rx_room_def h net_example by (simp add: net_bytes)
  show "rx_region net_queue (net_mem [1, 2, 3, 4]) \<subseteq> {1..}"
    using net_example_region unfolding rx_region_def rx_writes_def h by (auto simp: tx_region_def)
qed

lemma link_session:
  "\<exists>p d'. net_session True picky_tap (net_dev [[1, 2, 3, 4, 5, 6], [5, 6]]) [Miss 16, Deliver 16 p, Queue [1, 2, 3, 4]] d'"
proof -
  let ?m = "net_mem [1, 2, 3, 4]" and ?d = "net_dev [[1, 2, 3, 4, 5, 6], [5, 6]]"
  let ?t = "\<lambda>ps. \<lparr>ti_file = \<lparr>w_rx = ps, w_tx = []\<rparr>, ti_name = []\<rparr>"
  have d: "vn_tap ?d = Some (?t [[1, 2, 3, 4, 5, 6], [5, 6]])" "vn_queues ?d = [net_queue, net_queue]"
    by (simp_all add: net_dev_def vn_new_def)
  have read: "tap_read picky_tap (?t (p # ps)) 1514 = (Inr (take 1514 p), ?t ps)" for p ps
    by (simp add: picky_tap_def choosy_ops_def tap_read_def wire_ops_def wire_read_def)
  have t1: "rx_taken picky_tap (?t [[1, 2, 3, 4, 5, 6], [5, 6]]) net_queue ?m = None"
    "rx_tap picky_tap (?t [[1, 2, 3, 4, 5, 6], [5, 6]]) net_queue ?m = ?t [[5, 6]]"
    "rx_taken picky_tap (?t [[5, 6]]) net_queue ?m = Some [5, 6]"
    by (simp_all add: rx_taken_def rx_tap_def net_example_rx read)
  have fits: "tap_reads_fit picky_tap" unfolding picky_tap_def by (rule choosy.fits)
  note rx = rx_carries [OF _ refl _ fits counting_guest_alone, of _ _ ?m True]
  obtain d1 v1 where r1: "process_rx_env counting_guest True picky_tap ?d (view_of ?m) = Some (Done ((False, d1), v1))"
    "vn_tap d1 = Some (?t [[5, 6]])" "vn_queues d1 = [net_queue, net_queue]"
    using rx [OF d(1)] d(2) net_example_rx t1 by fastforce
  obtain d2 v2 tap2 where r2: "process_rx_env counting_guest True picky_tap d1 (view_of ?m) = Some (Done ((True, d2), v2))"
    "vn_tap d2 = Some tap2" "vn_queues d2 ! 1 = net_queue"
    using rx [OF r1(2)] r1(3) net_example_rx t1 by fastforce
  have q: "tx_queue_ok (vn_queues d2 ! 1) ?m [0]" "tx_touched (vn_queues d2 ! 1) ?m [0] \<subseteq> {1..}"
    unfolding r2(3) using net_example_batch net_example_region
    by (simp_all add: tx_queue_ok_def tx_touched_def net_queue_def [THEN arg_cong, of vq_ready])
  obtain w d3 v3 where tx: "process_tx_env counting_guest True picky_tap d2 (view_of ?m) = Some (Done ((w, d3), v3))"
    using tx_beside [OF r2(2) refl q(1) counting_guest_alone q(2), of "view_of ?m" True picky_tap] by auto
  have p: "tx_packets (vn_queues d2 ! 1) ?m [0] = [[1, 2, 3, 4]]"
    unfolding r2(3) by (simp add: tx_packets_def net_example tx_packet_def gm_range_def NET_HDR_LEN_def net_bytes)
  have s3: "net_session True picky_tap d2 [Queue [1, 2, 3, 4]] d3"
    using net_transmit [OF q(1) counting_guest_alone q(2) tx net_idle] unfolding p by simp
  from net_receive [OF _ counting_guest_alone _ r2(1) s3] r1(3) net_example_rx
  obtain x where s2: "net_session True picky_tap d1 [Deliver 16 x, Queue [1, 2, 3, 4]] d3" by (auto simp: rx_events_def)
  from net_receive [OF _ counting_guest_alone _ r1(1) s2] d(2) net_example_rx show ?thesis by (auto simp: rx_events_def)
qed


end
