(* ===== verification/Ax_Net_Starve.thy ===== *)
theory Ax_Net_Starve
  imports Ax_Net_Atomic
begin

text \<open>
  Transmission beside a guest that never stops sending. The loop of \<open>process_tx\<close> reads the available
  index again in every iteration; a driver that queues the next packet as soon as it sees one
  completed keeps the loop going.
\<close>

section \<open>The guest\<close>

text \<open>One processor of the guest keeps the available index one ahead of the used index.\<close>

definition sending_guest :: "virt_queue \<Rightarrow> guest_env" where
  "sending_guest q t f = mem_upd f (unat (vq_avail_addr q) + 2)
     (to_le_bytes 2 (from_le_bytes (mem_get f (unat (vq_used_addr q) + 2) 2) + 1 :: u16))"

definition avail_idx_bytes :: "virt_queue \<Rightarrow> nat set" where
  "avail_idx_bytes q = {unat (vq_avail_addr q) + 2..<unat (vq_avail_addr q) + 4}"

text \<open>A queue whose available ring names descriptors of the table throughout.\<close>

definition busy_queue :: "virt_queue \<Rightarrow> guest_memory \<Rightarrow> bool" where
  "busy_queue q m \<longleftrightarrow> vq_ready q \<and> vq_ok q m \<and> vq_used_idx q m = vq_last_avail_idx q \<and>
     vq_used_region q \<inter> vq_driver_region q = {} \<and> vq_table_region q \<inter> avail_idx_bytes q = {} \<and>
     (\<forall>i. vq_head q m i < vq_queue_size q) \<and>
     (\<forall>h < vq_queue_size q. unat (vd_addr (vq_desc q m h)) + unat (vd_len (vq_desc q m h)) < 2 ^ 64 \<and>
        buffer_region (vq_desc q m h) \<inter> avail_idx_bytes q = {})"

lemma mem_upd_idem: "mem_upd (mem_upd f a d) a d = mem_upd f a d"
  by (rule ext) (simp add: mem_upd_def)

lemma sending_guest_alone: "leaves_alone (sending_guest q) (- avail_idx_bytes q)"
  by (auto simp: leaves_alone_def sending_guest_def avail_idx_bytes_def mem_upd_out)

lemma avail_idx_apart: "vq_used_region q \<inter> vq_driver_region q = {} \<Longrightarrow> vq_used_region q \<subseteq> - avail_idx_bytes q"
  unfolding avail_idx_bytes_def vq_driver_region_def by fastforce

lemma sending_last [simp]:
  "sending_guest (q\<lparr>vq_last_avail_idx := i\<rparr>) = sending_guest q"
  "avail_idx_bytes (q\<lparr>vq_last_avail_idx := i\<rparr>) = avail_idx_bytes q"
  by (simp_all add: fun_eq_iff sending_guest_def avail_idx_bytes_def)

text \<open>Whenever the device looks, there is one more packet.\<close>

lemma sending_interfere:
  assumes "vq_used_region q \<subseteq> - avail_idx_bytes q"
  shows "gm_bytes (mv_mem (interfere (sending_guest q) b (interfere (sending_guest q) a v))) =
      gm_bytes (mv_mem (interfere (sending_guest q) a v))"
    and "mem_get (gm_bytes (mv_mem (interfere (sending_guest q) a v))) (unat (vq_avail_addr q) + 2) 2 =
      to_le_bytes 2 (vq_used_idx q (mv_mem v) + 1)"
proof -
  have "unat (vq_used_addr q) + 2 \<notin> avail_idx_bytes q" "unat (vq_used_addr q) + 3 \<notin> avail_idx_bytes q"
    using assms by (auto simp: vq_used_region_def subset_iff)
  then have "unat (vq_used_addr q) + 4 \<le> unat (vq_avail_addr q) + 2 \<or> unat (vq_avail_addr q) + 4 \<le> unat (vq_used_addr q) + 2"
    by (auto simp: avail_idx_bytes_def)
  then show "gm_bytes (mv_mem (interfere (sending_guest q) b (interfere (sending_guest q) a v))) =
      gm_bytes (mv_mem (interfere (sending_guest q) a v))"
    by (auto simp: interfere_def sending_guest_def mem_get_upd_disjoint mem_upd_idem)
  show "mem_get (gm_bytes (mv_mem (interfere (sending_guest q) a v))) (unat (vq_avail_addr q) + 2) 2 =
      to_le_bytes 2 (vq_used_idx q (mv_mem v) + 1)"
    by (simp add: interfere_def sending_guest_def vq_used_idx_def mem_u16_def mem_get_upd_inside)
qed

lemma sending_available:
  assumes "vq_ok q (mv_mem v)" and "vq_used_region q \<subseteq> - avail_idx_bytes q"
  shows "\<exists>v'. available_idx_env (sending_guest q) oc q v = Some (Done (vq_used_idx q (mv_mem v) + 1, v')) \<and>
    agree_on (- avail_idx_bytes q) (mv_mem v) (mv_mem v')"
proof -
  let ?E = "sending_guest q" and ?a = "vq_avail_addr q + 2" and ?m = "mv_mem v"
  have "gm_range ?m (vq_avail_addr q) (2 + 2)" using vq_ranges(3) [OF assms(1)] by simp
  note a = range_offset [OF this, of 2, simplified]
  note e = gm_range_end [OF a(3), simplified]
  have fin: "unat (?a + 2) = unat ?a + 2" using gm_range_lt [OF a(3)] by (subst unat_plus_no_overflow) simp_all
  define v1 where "v1 = interfere ?E (unat ?a) v"
  define v2 where "v2 = interfere ?E (Suc (unat ?a)) v1"
  have f: "fetch ?E (unat ?a) 2 v = ([gm_bytes (mv_mem v1) (unat ?a), gm_bytes (mv_mem v1) (Suc (unat ?a))], v2)"
    using sending_interfere(1) [OF assms(2), of "Suc (unat ?a)" "unat ?a" v]
    by (simp add: numeral_2_eq_2 v1_def v2_def Let_def)
  have "mem_get (gm_bytes (mv_mem v1)) (unat ?a) 2 = to_le_bytes 2 (vq_used_idx q ?m + 1)"
    using sending_interfere(2) [OF assms(2), of "unat ?a" v] a(2) by (simp add: v1_def)
  then have bs: "[gm_bytes (mv_mem v1) (unat ?a), gm_bytes (mv_mem v1) (Suc (unat ?a))] = to_le_bytes 2 (vq_used_idx q ?m + 1)"
    by (simp add: numeral_2_eq_2 mem_get_Suc mem_get_def)
  have "agree_on (- avail_idx_bytes q) ?m (mv_mem v2)"
    unfolding v2_def v1_def by (intro leaves_alone_agree [OF sending_guest_alone]) simp
  moreover have "slice_range_env ?E ?a (?a + 2) v = Some (Done (to_le_bytes 2 (vq_used_idx q ?m + 1), v2))"
    using e(2) fin f bs by (simp add: slice_range_env_def word_less_nat_alt)
  then have "available_idx_env ?E oc q v = Some (Done (from_le_bytes (to_le_bytes 2 (vq_used_idx q ?m + 1)), v2))"
    using a(1) e bytes2 [of "to_le_bytes 2 (vq_used_idx q ?m + 1)"]
    by (simp add: available_idx_env_def act_bind_def act_exec_def act_len_def act_return_def del: from_le_bytes_u16 to_le_bytes.simps from_le_bytes.simps)
  ultimately show ?thesis by auto
qed

lemma sending_head:
  assumes "vq_ok q (mv_mem v)" and "vq_used_region q \<subseteq> - avail_idx_bytes q"
    and "vq_used_idx q (mv_mem v) = vq_last_avail_idx q"
  shows "\<exists>v'. get_avail_desc_idx_env (sending_guest q) oc q v =
      Some (Done (Some (vq_head q (mv_mem v) (vq_last_avail_idx q)), v')) \<and>
    agree_on (- avail_idx_bytes q) (mv_mem v) (mv_mem v')"
proof -
  let ?E = "sending_guest q" and ?m = "mv_mem v" and ?j = "vq_last_avail_idx q mod vq_queue_size q"
  let ?A = "- avail_idx_bytes q"
  obtain v1 where v1: "available_idx_env ?E oc q v = Some (Done (vq_last_avail_idx q + 1, v1))" "agree_on ?A ?m (mv_mem v1)"
    using sending_available [OF assms(1,2), of oc] assms(3) by auto
  have nz: "vq_queue_size q \<noteq> 0" using assms(1) by (simp add: vq_ok_def)
  have off: "unat (4 + ucast ?j * 2 :: u64) = 4 + 2 * unat ?j" using slot_word [of 2 ?j] by simp
  note a = range_offset [OF vq_ranges(1) [OF assms(1)] off]
  let ?a = "vq_avail_addr q + (4 + ucast ?j * 2)"
  note e = gm_range_end [OF a(3), simplified] slice_range_ok [OF a(3) refl, simplified]
  have fin: "unat (?a + 2) = unat ?a + 2" using gm_range_lt [OF a(3)] by (subst unat_plus_no_overflow) simp_all
  have "{unat ?a..<unat (?a + 2)} \<subseteq> ?A" using a(2) fin by (auto simp: avail_idx_bytes_def)
  from act_follows_atomic [OF slice_range_follows [OF sending_guest_alone] slice_range_atomic _ slice_range_touch [OF this] subset_refl v1(2)]
  obtain v2 where v2: "slice_range_env ?E ?a (?a + 2) v1 = Some (Done (mem_get (gm_bytes ?m) (unat ?a) 2, v2))"
    "agree_on ?A ?m (mv_mem v2)"
    using e by (auto simp: add.commute)
  have len: "gm_len (mv_mem v1) = gm_len ?m" using agree_len(1) [OF v1(2)] .
  have "get_avail_desc_idx_env ?E oc q v = Some (Done (Some (from_le_bytes (mem_get (gm_bytes ?m) (unat ?a) 2)), v2))"
    using v1(1) nz a(1) e v2(1) len bytes2 [of "mem_get (gm_bytes ?m) (unat ?a) 2"]
    by (simp add: get_avail_desc_idx_env_def act_bind_def act_exec_def act_len_def act_return_def
        del: from_le_bytes.simps nth_mem_get)
  with v2(2) a(2) show ?thesis by (simp add: vq_head_def mem_u16_def)
qed

section \<open>The loop\<close>

text \<open>The bytes that neither the guest's sending nor the device's completions change.\<close>

abbreviation steady :: "virt_queue \<Rightarrow> nat set" where
  "steady q \<equiv> - (avail_idx_bytes q \<union> vq_used_region q)"

lemma steady_queue:
  assumes "busy_queue q m" and "agree_on (steady q) m m'"
  shows "vq_ok q m'" and "vq_head q m' i = vq_head q m i" and "h < vq_queue_size q \<Longrightarrow> vq_desc q m' h = vq_desc q m h"
proof -
  have b: "vq_ok q m" "vq_used_region q \<inter> vq_driver_region q = {}" "vq_table_region q \<inter> avail_idx_bytes q = {}"
    using assms(1) by (simp_all add: busy_queue_def)
  show "vq_ok q m'" using vq_ok_agree [OF assms(2)] b(1) by simp
  have "{unat (vq_avail_addr q) + (4 + 2 * unat (i mod vq_queue_size q))..<unat (vq_avail_addr q) + (4 + 2 * unat (i mod vq_queue_size q)) + 2}
      \<subseteq> vq_driver_region q - avail_idx_bytes q"
    using vq_mod_less [OF b(1), of i] by (auto simp: vq_driver_region_def avail_idx_bytes_def)
  then show "vq_head q m' i = vq_head q m i"
    unfolding vq_head_def mem_u16_def using b(2) by (subst agree_on_get [OF assms(2)]) auto
  assume "h < vq_queue_size q"
  then have "{unat (vq_desc_addr q) + 16 * unat h..<unat (vq_desc_addr q) + 16 * unat h + 16} \<subseteq> vq_table_region q"
    by (auto simp: vq_table_region_def word_less_nat_alt)
  moreover have "vq_table_region q \<subseteq> steady q" using b(2,3) vq_table_driver [of q] by blast
  ultimately show "vq_desc q m' h = vq_desc q m h"
    unfolding vq_desc_def desc_entry_def by (subst agree_on_get [OF assms(2)]) auto
qed

lemma sending_step:
  assumes b: "busy_queue q m" and ag: "agree_on (steady q) m (mv_mem v)" and used: "vq_used_idx q (mv_mem v) = l"
  shows "\<exists>tap' irq' work' v'. tx_step_env (sending_guest q) oc T (q\<lparr>vq_last_avail_idx := l\<rparr>, tap, irq, work) v =
      Some (Done (Inl (q\<lparr>vq_last_avail_idx := l + 1\<rparr>, tap', irq', work'), v')) \<and>
    agree_on (steady q) m (mv_mem v') \<and> vq_used_idx q (mv_mem v') = l + 1"
proof -
  let ?E = "sending_guest q" and ?A = "- avail_idx_bytes q" and ?q = "q\<lparr>vq_last_avail_idx := l\<rparr>"
  let ?h = "vq_head q m l" and ?e = "vq_desc q m (vq_head q m l)"
  have h: "?h < vq_queue_size q" and e: "unat (vd_addr ?e) + unat (vd_len ?e) < 2 ^ 64" "buffer_region ?e \<subseteq> ?A"
    and tab: "vq_table_region q \<subseteq> ?A" and u: "vq_used_region q \<subseteq> ?A"
    using b avail_idx_apart [of q] by (auto simp: busy_queue_def)
  have alone: "leaves_alone ?E ?A" by (rule sending_guest_alone)
  have more: "agree_on (steady q) m (mv_mem y)" if "agree_on (steady q) m m1" "agree_on ?A m1 (mv_mem y)" for m1 y
    using that(1) agree_on_subset [OF that(2), of "steady q"] by (rule agree_on_trans) auto
  note ok = steady_queue(1) [OF b]
  obtain v1 where v1: "get_avail_desc_idx_env ?E oc ?q v = Some (Done (Some ?h, v1))" "agree_on ?A (mv_mem v) (mv_mem v1)"
    using sending_head [of ?q v oc] ok [OF ag] u used steady_queue(2) [OF b ag] by auto
  note ag1 = more [OF ag v1(2)]
  have ok1: "vq_ok ?q (mv_mem v1)" "vq_table_region ?q \<subseteq> ?A" "?h < vq_queue_size ?q" using ok [OF ag1] tab h by simp_all
  have "\<exists>y. read_desc_env ?E oc ?q ?h v1 = Some (Done (Some ?e, y)) \<and> agree_on ?A (mv_mem v1) (mv_mem y)"
    by (rule act_follows_atomic [OF read_desc_follows [OF alone] read_desc_atomic _ read_desc_touch [OF ok1] subset_refl agree_on_refl])
      (use read_desc_ok [OF ok1(1,3), of oc] steady_queue(3) [OF b ag1 h] in simp)
  then obtain v2 where v2: "read_desc_env ?E oc ?q ?h v1 = Some (Done (Some ?e, v2))" "agree_on ?A (mv_mem v1) (mv_mem v2)"
    by blast
  note ag2 = more [OF ag1 v2(2)]
  obtain ok' tap' where sent: "send_all T tap (tx_packet (mv_mem v2) ?e) = (ok', tap')" by fastforce
  have "\<exists>y. tx_send_env ?E oc T tap ?e v2 = Some (Done ((ok', tap'), y)) \<and> agree_on ?A (mv_mem v2) (mv_mem y)"
    by (rule act_follows_atomic [OF tx_send_follows [OF alone] tx_send_atomic _ tx_send_touch [OF e] subset_refl agree_on_refl])
      (use tx_send_ok [OF e(1), of oc T tap "mv_mem v2"] sent in simp)
  then obtain v3 where v3: "tx_send_env ?E oc T tap ?e v2 = Some (Done ((ok', tap'), v3))" "agree_on ?A (mv_mem v2) (mv_mem v3)"
    by blast
  note ag3 = more [OF ag2 v3(2)]
  have ok3: "vq_ok ?q (mv_mem v3)" using ok [OF ag3] by simp
  obtain q' m4 where au: "add_used oc ?q (mv_mem v3) ?h 0 = Done (q', m4)" using add_used_ok [OF ok3, of oc ?h 0] by blast
  note sp = add_used_spec [OF ok3 au, unfolded vq_last_upd, simplified]
  have u3: "vq_used_region ?q \<subseteq> ?A" using u by simp
  have "\<exists>y. add_used_env ?E oc ?q ?h 0 v3 = Some (Done (q', y)) \<and> agree_on ?A m4 (mv_mem y)"
    by (rule act_follows_atomic [OF add_used_follows [OF alone] add_used_atomic _ add_used_touch [OF ok3 u3] subset_refl agree_on_refl])
      (use au in simp)
  then obtain v4 where v4: "add_used_env ?E oc ?q ?h 0 v3 = Some (Done (q', v4))" "agree_on ?A m4 (mv_mem v4)" by blast
  have "agree_on (steady q) m m4"
    using ag3 agree_on_subset [OF sp(5), of "steady q"] by (rule agree_on_trans) auto
  note ag4 = more [OF this v4(2)]
  have "vq_used_idx q (mv_mem v4) = l + 1" using vq_used_agree(1) [OF v4(2) u, of m4] ok3 sp(4,5) vq_ok_agree by auto
  with ag4 v1(1) v2(1) v3(1) v4(1) sp(1) show ?thesis
    by (auto simp: tx_step_env_def act_bind_def act_return_def)
qed

text \<open>
  C37. A driver that never stops sending keeps the poll of processor 0 in its loop forever, with the
  memory lock held: the loop reads the available index again in each iteration, and the guest's other
  processors, which are not stopped by the lock, advance it each time a packet is completed. The queue
  itself is well formed; in isolation the poll of such a queue returns.
\<close>

theorem net_tx_starves:
  assumes "vn_tap d = Some tap" and "q = vn_queues d ! 1" and "busy_queue q m"
  shows "process_tx_env (sending_guest q) oc T d (view_of m) = None"
proof -
  let ?I = "\<lambda>(s, v). (\<exists>l. fst s = q\<lparr>vq_last_avail_idx := l\<rparr> \<and> vq_used_idx q (mv_mem v) = l) \<and> agree_on (steady q) m (mv_mem v)"
  have "exec_loop (loop_body (tx_step_env (sending_guest q) oc T)) ((q, tap, vn_interrupt_status d, False), view_of m) = None"
  proof (rule exec_loop_diverges [where I = ?I])
    have "q = q\<lparr>vq_last_avail_idx := vq_used_idx q m\<rparr>" using assms(3) by (simp add: busy_queue_def)
    then show "?I ((q, tap, vn_interrupt_status d, False), view_of m)" by auto
    fix c :: "(virt_queue \<times> 'a tap_interface \<times> u32 \<times> bool) \<times> mview"
    assume "?I c"
    then obtain l tp irq work v where c: "c = ((q\<lparr>vq_last_avail_idx := l\<rparr>, tp, irq, work), v)"
      and v: "vq_used_idx q (mv_mem v) = l" "agree_on (steady q) m (mv_mem v)"
      by (cases c) fastforce
    from sending_step [OF assms(3) v(2,1), of oc T tp irq work]
    show "\<exists>c'. loop_body (tx_step_env (sending_guest q) oc T) c = Some (Done (Inl c')) \<and> ?I c'"
      by (fastforce simp: c loop_body_def)
  qed
  moreover have "vq_ready q" using assms(3) by (simp add: busy_queue_def)
  ultimately show ?thesis
    using assms(1,2) by (simp add: process_tx_env_def act_bind_def act_loop_def Let_def)
qed

lemma net_mem_zeros:
  assumes "0x504 \<le> a \<or> 0x110 \<le> a \<and> a + n \<le> 0x300"
  shows "mem_get (gm_bytes (net_mem [1, 2, 3, 4])) a n = replicate n 0"
  by (rule nth_equalityI) (use assms in \<open>auto simp: net_mem_def mem_upd_def nth_Cons'\<close>)

lemma decode_zeros: "decode_desc (replicate 16 0) = \<lparr>vd_addr = 0, vd_len = 0, vd_flags = 0, vd_next = 0\<rparr>"
  by (simp add: decode_desc_def from_le_zero del: replicate.simps)

lemma net_example_busy: "busy_queue net_queue (net_mem [1, 2, 3, 4])"
proof -
  let ?m = "net_mem [1, 2, 3, 4]"
  have q: "vq_ready net_queue" "vq_last_avail_idx net_queue = 0" "vq_queue_size net_queue = 4"
    "vq_avail_addr net_queue = 0x500" "vq_used_addr net_queue = 0x600" "vq_desc_addr net_queue = 0x100"
    by (simp_all add: net_queue_def)
  have used: "vq_used_idx net_queue ?m = 0"
    by (simp add: vq_used_idx_def q mem_u16_def net_mem_zeros from_le_zero del: replicate.simps)
  have heads: "vq_head net_queue ?m i = 0" for i
    by (simp add: vq_head_def q mem_u16_def net_mem_zeros from_le_zero del: replicate.simps)
  have d: "vq_desc net_queue ?m h = \<lparr>vd_addr = 0, vd_len = 0, vd_flags = 0, vd_next = 0\<rparr>" if "h < 4" "h \<noteq> 0" for h :: u16
  proof -
    have "unat h < 4" "0 < unat h" using that by (simp_all add: word_less_nat_alt unat_gt_0)
    then show ?thesis
      by (simp add: vq_desc_def desc_entry_def q net_mem_zeros decode_zeros del: replicate.simps)
  qed
  have "vq_used_region net_queue \<inter> vq_driver_region net_queue = {}"
    "vq_table_region net_queue \<inter> avail_idx_bytes net_queue = {}"
    by (auto simp: vq_used_region_def vq_driver_region_def vq_table_region_def avail_idx_bytes_def q)
  moreover have "unat (vd_addr (vq_desc net_queue ?m h)) + unat (vd_len (vq_desc net_queue ?m h)) < 2 ^ 64 \<and>
      buffer_region (vq_desc net_queue ?m h) \<inter> avail_idx_bytes net_queue = {}" if "h < 4" for h :: u16
    using d [OF that] by (cases "h = 0") (simp_all add: net_example buffer_region_def avail_idx_bytes_def q)
  ultimately show ?thesis by (simp add: busy_queue_def q used heads net_example_ok)
qed

theorem net_tx_starves_witness:
  "process_tx_env (sending_guest net_queue) True (wire_ops []) (net_dev []) (view_of (net_mem [1, 2, 3, 4])) = None"
  by (rule net_tx_starves [OF _ _ net_example_busy]) (simp_all add: net_dev_def vn_new_def)

end
