(* ===== verification/Ax_Acpi.thy ===== *)
theory Ax_Acpi
  imports Ax_Memory
begin

text \<open>
  The ACPI tables (\<open>src/axvm_core/src/acpi.rs\<close>). The packed structures of the source are records with
  their byte encoding; a table is encoded with a zero checksum and the checksum byte is then set,
  as the source does. The theorem follows the tables the way a guest does: from the root pointer in
  the BIOS area to the RSDT, from there to the MADT, and through its processor entries.
\<close>

section \<open>Structures\<close>

definition RSDP_START :: usize where "RSDP_START = 0xE0000"

record rsdp =
  rsdp_signature :: bytes
  rsdp_checksum :: u8
  rsdp_oem_id :: bytes
  rsdp_revision :: u8
  rsdp_rsdt_addr :: u32
  rsdp_length :: u32
  rsdp_xsdt_addr :: u64
  rsdp_ext_checksum :: u8
  rsdp_reserved :: bytes

definition rsdp_bytes :: "rsdp \<Rightarrow> bytes" where
  "rsdp_bytes r = rsdp_signature r @ [rsdp_checksum r] @ rsdp_oem_id r @ [rsdp_revision r] @
     to_le_bytes 4 (rsdp_rsdt_addr r) @ to_le_bytes 4 (rsdp_length r) @ to_le_bytes 8 (rsdp_xsdt_addr r) @
     [rsdp_ext_checksum r] @ rsdp_reserved r"

record sdt_header =
  sdt_signature :: bytes
  sdt_length :: u32
  sdt_revision :: u8
  sdt_checksum :: u8
  sdt_oem_id :: bytes
  sdt_oem_table_id :: bytes
  sdt_oem_revision :: u32
  sdt_creator_id :: u32
  sdt_creator_revision :: u32

definition sdt_bytes :: "sdt_header \<Rightarrow> bytes" where
  "sdt_bytes h = sdt_signature h @ to_le_bytes 4 (sdt_length h) @ [sdt_revision h, sdt_checksum h] @
     sdt_oem_id h @ sdt_oem_table_id h @ to_le_bytes 4 (sdt_oem_revision h) @
     to_le_bytes 4 (sdt_creator_id h) @ to_le_bytes 4 (sdt_creator_revision h)"

record madt =
  madt_header :: sdt_header
  madt_local_apic_addr :: u32
  madt_flags :: u32

definition madt_bytes :: "madt \<Rightarrow> bytes" where
  "madt_bytes t = sdt_bytes (madt_header t) @ to_le_bytes 4 (madt_local_apic_addr t) @
     to_le_bytes 4 (madt_flags t)"

record madt_local_apic =
  la_type :: u8
  la_length :: u8
  la_acpi_processor_id :: u8
  la_apic_id :: u8
  la_flags :: u32

definition local_apic_bytes :: "madt_local_apic \<Rightarrow> bytes" where
  "local_apic_bytes e = [la_type e, la_length e, la_acpi_processor_id e, la_apic_id e] @
     to_le_bytes 4 (la_flags e)"

text \<open>The sizes of the packed structures, and the offset of the checksum in a table header.\<close>

definition RSDP_SIZE :: nat where "RSDP_SIZE = 36"
definition SDT_SIZE :: nat where "SDT_SIZE = 36"
definition MADT_SIZE :: nat where "MADT_SIZE = 44"
definition LOCAL_APIC_SIZE :: nat where "LOCAL_APIC_SIZE = 8"
definition SDT_CHECKSUM_OFFSET :: nat where "SDT_CHECKSUM_OFFSET = 9"

lemmas acpi_sizes = RSDP_SIZE_def SDT_SIZE_def MADT_SIZE_def LOCAL_APIC_SIZE_def SDT_CHECKSUM_OFFSET_def

section \<open>Generation\<close>

definition calculate_checksum :: "bytes \<Rightarrow> u8" where
  "calculate_checksum data = 0 - fold (\<lambda>x acc. acc + x) data 0"

definition axvm_header :: "bytes \<Rightarrow> bytes \<Rightarrow> u32 \<Rightarrow> sdt_header" where
  "axvm_header signature table_id len = \<lparr>sdt_signature = signature, sdt_length = len,
     sdt_revision = 1, sdt_checksum = 0, sdt_oem_id = bytes_of_string ''AXVM  '',
     sdt_oem_table_id = table_id, sdt_oem_revision = 1, sdt_creator_id = 0x4D5641,
     sdt_creator_revision = 1\<rparr>"

definition local_apic_entry :: "nat \<Rightarrow> madt_local_apic" where
  "local_apic_entry i = \<lparr>la_type = 0, la_length = 8, la_acpi_processor_id = of_nat i,
     la_apic_id = of_nat i, la_flags = 1\<rparr>"

definition set_checksum :: "bytes \<Rightarrow> bytes" where
  "set_checksum data = data[SDT_CHECKSUM_OFFSET := calculate_checksum data]"

definition madt_data :: "u8 \<Rightarrow> bytes" where
  "madt_data vcpu_count =
     (let madt_len = MADT_SIZE + LOCAL_APIC_SIZE * unat vcpu_count in
      set_checksum (madt_bytes \<lparr>madt_header = axvm_header (bytes_of_string ''APIC'')
          (bytes_of_string ''AXVMCPU '') (of_nat madt_len),
        madt_local_apic_addr = 0xFEE00000, madt_flags = 1\<rparr> @
        concat (map (\<lambda>i. local_apic_bytes (local_apic_entry i)) [0..<unat vcpu_count])))"

definition rsdt_data :: "usize \<Rightarrow> bytes" where
  "rsdt_data madt_addr =
     set_checksum (sdt_bytes (axvm_header (bytes_of_string ''RSDT'') (bytes_of_string ''AXVMRSDT'')
         (of_nat (SDT_SIZE + 4))) @ to_le_bytes 4 (ucast madt_addr :: u32))"

definition rsdp_data :: "usize \<Rightarrow> bytes" where
  "rsdp_data rsdt_addr =
     (let bs = rsdp_bytes \<lparr>rsdp_signature = bytes_of_string ''RSD PTR '', rsdp_checksum = 0,
        rsdp_oem_id = bytes_of_string ''AXVM  '', rsdp_revision = 0, rsdp_rsdt_addr = ucast rsdt_addr,
        rsdp_length = of_nat RSDP_SIZE, rsdp_xsdt_addr = 0, rsdp_ext_checksum = 0,
        rsdp_reserved = [0, 0, 0]\<rparr>
      in bs[8 := calculate_checksum (take 20 bs)])"

definition RSDT_ADDR :: usize where "RSDT_ADDR = RSDP_START + of_nat RSDP_SIZE"
definition MADT_ADDR :: usize where "MADT_ADDR = RSDT_ADDR + of_nat SDT_SIZE + 4"

definition setup_acpi :: "bool \<Rightarrow> guest_memory \<Rightarrow> u8 \<Rightarrow> guest_memory result exec" where
  "setup_acpi oc mem vcpu_count =
     try_bind (write_slice oc mem MADT_ADDR (madt_data vcpu_count)) (\<lambda>m1.
     try_bind (write_slice oc m1 RSDT_ADDR (rsdt_data MADT_ADDR)) (\<lambda>m2.
       write_slice oc m2 RSDP_START (rsdp_data RSDT_ADDR)))"

section \<open>Sizes and checksums\<close>

lemma fold_sum: "fold (\<lambda>x acc. acc + x) xs (a :: u8) = a + sum_list xs"
  by (induction xs arbitrary: a) (simp_all add: add.assoc)

lemma calculate_checksum_sum: "calculate_checksum xs = - sum_list xs"
  by (simp add: calculate_checksum_def fold_sum)

lemma sum_list_set:
  "i < length xs \<Longrightarrow> sum_list (xs[i := x]) = sum_list xs + x - (xs ! i :: u8)"
  by (induction xs arbitrary: i) (auto split: nat.splits)

lemma set_checksum_sum:
  "9 < length xs \<Longrightarrow> xs ! 9 = 0 \<Longrightarrow> sum_list (set_checksum xs) = 0"
  by (simp add: set_checksum_def acpi_sizes sum_list_set calculate_checksum_sum)

lemma length_local_apics:
  "length (concat (map (\<lambda>i. local_apic_bytes (local_apic_entry i)) [0..<n])) = 8 * n"
  by (induction n) (simp_all add: local_apic_bytes_def)

lemma length_tables [simp]:
  "length (madt_data n) = 44 + 8 * unat n" "length (rsdt_data a) = 40" "length (rsdp_data a) = 36"
  by (simp_all add: madt_data_def rsdt_data_def rsdp_data_def set_checksum_def madt_bytes_def sdt_bytes_def
      rsdp_bytes_def axvm_header_def length_local_apics Let_def acpi_sizes)

section \<open>What a guest finds\<close>

text \<open>The guest's side: the pointers it follows and the tables it reads, by the lengths they carry.\<close>

definition acpi_rsdt :: "(nat \<Rightarrow> u8) \<Rightarrow> nat" where
  "acpi_rsdt f = unat (from_le_bytes (mem_get f (0xE0000 + 16) 4) :: u32)"

definition acpi_table :: "(nat \<Rightarrow> u8) \<Rightarrow> nat \<Rightarrow> bytes" where
  "acpi_table f a = mem_get f a (unat (from_le_bytes (mem_get f (a + 4) 4) :: u32))"

definition acpi_madt :: "(nat \<Rightarrow> u8) \<Rightarrow> nat" where
  "acpi_madt f = unat (from_le_bytes (drop 36 (acpi_table f (acpi_rsdt f))) :: u32)"

lemma acpi_addrs: "unat RSDP_START = 0xE0000" "unat RSDT_ADDR = 0xE0024" "unat MADT_ADDR = 0xE004C"
  "RSDT_ADDR = 0xE0024" "MADT_ADDR = 0xE004C"
  by (simp_all add: MADT_ADDR_def RSDT_ADDR_def RSDP_START_def acpi_sizes)

lemma acpi_memory:
  assumes "gm_wf m" and "gm_range m 0 0x100000"
  shows "setup_acpi oc m n = Done (Inr (m\<lparr>gm_bytes := mem_upd (mem_upd (mem_upd (gm_bytes m)
    0xE004C (madt_data n)) 0xE0024 (rsdt_data MADT_ADDR)) 0xE0000 (rsdp_data RSDT_ADDR)\<rparr>))"
proof -
  have "unat n < 256" using unat_bound [of n] by simp
  then have "gm_range m MADT_ADDR (44 + 8 * unat n)" "gm_range m RSDT_ADDR 40" "gm_range m RSDP_START 36"
    using assms(2) by (simp_all add: gm_range_def acpi_addrs)
  then show ?thesis using assms(1) by (simp add: setup_acpi_def write_slice_ok acpi_addrs)
qed

lemma header_fields:
  assumes "length sig = 4" and "length tid = 8"
  shows "length (sdt_bytes (axvm_header sig tid len)) = 36" and "take 4 (sdt_bytes (axvm_header sig tid len)) = sig"
    and "take 4 (drop 4 (sdt_bytes (axvm_header sig tid len))) = to_le_bytes 4 len"
    and "sdt_bytes (axvm_header sig tid len) ! 9 = 0"
  using assms by (simp_all add: sdt_bytes_def axvm_header_def nth_append)

lemma rsdt_fields:
  "take 4 (rsdt_data a) = bytes_of_string ''RSDT''" "take 4 (drop 4 (rsdt_data a)) = to_le_bytes 4 (40 :: u32)"
  "sum_list (rsdt_data a) = 0" "drop 36 (rsdt_data a) = to_le_bytes 4 (ucast a :: u32)"
  unfolding rsdt_data_def
  by (simp_all add: set_checksum_sum header_fields nth_append)
    (simp_all add: set_checksum_def acpi_sizes header_fields drop_update_swap)

lemma madt_fields:
  "take 4 (madt_data n) = bytes_of_string ''APIC''"
  "take 4 (drop 4 (madt_data n)) = to_le_bytes 4 (of_nat (44 + 8 * unat n) :: u32)"
  "sum_list (madt_data n) = 0"
  unfolding madt_data_def Let_def madt_bytes_def
  by (simp_all add: set_checksum_sum header_fields nth_append)
    (simp_all add: set_checksum_def acpi_sizes header_fields drop_update_swap)

lemma concat_chunk:
  "i < n \<Longrightarrow> (\<And>i. length (f i) = k) \<Longrightarrow> take k (drop (k * i) (concat (map f [0..<n]))) = f i"
proof (induction n)
  case (Suc n)
  have len: "length (concat (map f [0..<n])) = k * n" for n
    using Suc.prems(2) by (induction n) simp_all
  show ?case
  proof (cases "i = n")
    case False
    with Suc.prems(1) have i: "i < n" by simp
    then have "k * i + k \<le> k * n" using mult_le_mono2 [of "Suc i" n k] by simp
    with Suc.IH [OF i Suc.prems(2)] show ?thesis by (simp add: len)
  qed (simp add: len Suc.prems(2))
qed simp

lemma madt_entry:
  assumes "i < unat n"
  shows "take 8 (drop (44 + 8 * i) (madt_data n)) = [0, 8, of_nat i, of_nat i, 1, 0, 0, 0]"
proof -
  have "take 8 (drop (44 + 8 * i) (madt_data n)) =
      take 8 (drop (8 * i) (concat (map (\<lambda>i. local_apic_bytes (local_apic_entry i)) [0..<unat n])))"
    by (simp add: madt_data_def Let_def madt_bytes_def set_checksum_def acpi_sizes header_fields)
  also have "\<dots> = local_apic_bytes (local_apic_entry i)"
    by (rule concat_chunk) (simp_all add: assms local_apic_bytes_def)
  finally show ?thesis
    by (simp add: local_apic_bytes_def local_apic_entry_def numeral_eq_Suc)
qed

lemma rsdp_fields:
  "take 8 (rsdp_data a) = bytes_of_string ''RSD PTR ''" "sum_list (take 20 (rsdp_data a)) = 0"
  "take 4 (drop 16 (rsdp_data a)) = to_le_bytes 4 (ucast a :: u32)"
proof -
  let ?bs = "rsdp_bytes \<lparr>rsdp_signature = bytes_of_string ''RSD PTR '', rsdp_checksum = 0,
        rsdp_oem_id = bytes_of_string ''AXVM  '', rsdp_revision = 0, rsdp_rsdt_addr = ucast a,
        rsdp_length = of_nat RSDP_SIZE, rsdp_xsdt_addr = 0, rsdp_ext_checksum = 0,
        rsdp_reserved = [0, 0, 0]\<rparr>"
  have d: "rsdp_data a = ?bs[8 := calculate_checksum (take 20 ?bs)]" by (simp add: rsdp_data_def Let_def)
  have b: "length ?bs = 36" "?bs ! 8 = 0" "take 8 ?bs = bytes_of_string ''RSD PTR ''"
    "take 4 (drop 16 ?bs) = to_le_bytes 4 (ucast a :: u32)"
    by (simp_all add: rsdp_bytes_def nth_append)
  then show "take 8 (rsdp_data a) = bytes_of_string ''RSD PTR ''"
    "take 4 (drop 16 (rsdp_data a)) = to_le_bytes 4 (ucast a :: u32)" by (simp_all add: d)
  show "sum_list (take 20 (rsdp_data a)) = 0"
    using b by (simp add: d take_update_swap sum_list_set calculate_checksum_sum)
qed

text \<open>
  Tables that a guest can follow: the root pointer carries its signature and a valid checksum and
  leads to an RSDT whose bytes sum to zero; that leads to a MADT of the right length whose bytes sum
  to zero and which has one enabled local APIC entry for each processor, numbered from zero.
\<close>

definition acpi_valid :: "(nat \<Rightarrow> u8) \<Rightarrow> nat \<Rightarrow> bool" where
  "acpi_valid f n \<longleftrightarrow>
     (let rsdt = acpi_table f (acpi_rsdt f); madt = acpi_table f (acpi_madt f) in
      mem_get f 0xE0000 8 = bytes_of_string ''RSD PTR '' \<and> sum_list (mem_get f 0xE0000 20) = 0 \<and>
      take 4 rsdt = bytes_of_string ''RSDT'' \<and> sum_list rsdt = 0 \<and>
      take 4 madt = bytes_of_string ''APIC'' \<and> sum_list madt = 0 \<and> length madt = 44 + 8 * n \<and>
      (\<forall>i < n. take 8 (drop (44 + 8 * i) madt) = [0, 8, of_nat i, of_nat i, 1, 0, 0, 0]))"

lemma acpi_valid_tables:
  assumes p: "mem_get f 0xE0000 36 = rsdp_data RSDT_ADDR" and r: "mem_get f 0xE0024 40 = rsdt_data MADT_ADDR"
    and t: "mem_get f 0xE004C (44 + 8 * unat n) = madt_data n"
  shows "acpi_valid f (unat n)"
proof -
  have len: "unat (of_nat (44 + 8 * unat n) :: u32) = 44 + 8 * unat n"
    using unat_bound [of n] by (intro unat_of_nat_small) simp
  have "mem_get f 0xE0000 8 = take 8 (rsdp_data RSDT_ADDR)" "mem_get f 0xE0000 20 = take 20 (rsdp_data RSDT_ADDR)"
    "mem_get f 0xE0010 4 = take 4 (drop 16 (rsdp_data RSDT_ADDR))"
    "mem_get f 0xE0028 4 = take 4 (drop 4 (rsdt_data MADT_ADDR))"
    "mem_get f 0xE0050 4 = take 4 (drop 4 (madt_data n))"
    by (simp_all add: p [symmetric] r [symmetric] t [symmetric] take_mem_get drop_mem_get)
  note get = this
  have 1: "acpi_rsdt f = 0xE0024" by (simp add: acpi_rsdt_def get rsdp_fields) (simp add: acpi_addrs)
  have 2: "acpi_table f 0xE0024 = rsdt_data MADT_ADDR" by (simp add: acpi_table_def get r rsdt_fields)
  have 3: "acpi_madt f = 0xE004C" by (simp add: acpi_madt_def 1 2 rsdt_fields) (simp add: acpi_addrs)
  have 4: "acpi_table f 0xE004C = madt_data n"
    using len by (simp add: acpi_table_def get t madt_fields del: of_nat_add)
  show ?thesis
    by (simp add: acpi_valid_def Let_def 1 2 3 4 get rsdp_fields rsdt_fields madt_fields madt_entry)
qed

text \<open>
  C26. The ACPI tables are what a guest can follow. For every number of processors and both build
  profiles, table generation succeeds in a memory of at least 1 MB, the tables are valid for that
  number of processors, and no byte outside the tables changes.
\<close>

theorem acpi_tables_found:
  assumes "gm_wf m" and "gm_range m 0 0x100000"
  shows "\<exists>m'. setup_acpi oc m n = Done (Inr m') \<and> acpi_valid (gm_bytes m') (unat n) \<and>
    (\<forall>a. a < 0xE0000 \<or> 0xE0000 + 76 + (44 + 8 * unat n) \<le> a \<longrightarrow> gm_bytes m' a = gm_bytes m a)"
proof -
  let ?f = "mem_upd (mem_upd (mem_upd (gm_bytes m) 0xE004C (madt_data n)) 0xE0024 (rsdt_data MADT_ADDR))
     0xE0000 (rsdp_data RSDT_ADDR)"
  have "acpi_valid ?f (unat n)"
    by (rule acpi_valid_tables) (simp_all add: mem_get_upd_disjoint)
  moreover have "?f a = gm_bytes m a" if "a < 0xE0000 \<or> 0xE0000 + 76 + (44 + 8 * unat n) \<le> a" for a
    using that by (auto simp: mem_upd_out)
  ultimately show ?thesis by (simp add: acpi_memory [OF assms])
qed

theorem acpi_tables_found_witness:
  "\<exists>m'. setup_acpi True \<lparr>gm_ptr = 4096, gm_len = 0x8000000, gm_owned = True, gm_mapped = 0x8000000,
      gm_bytes = (\<lambda>_. 0)\<rparr> 4 = Done (Inr m') \<and>
    length (acpi_table (gm_bytes m') (acpi_madt (gm_bytes m'))) = 76"
  using acpi_tables_found [of "\<lparr>gm_ptr = 4096, gm_len = 0x8000000, gm_owned = True,
      gm_mapped = 0x8000000, gm_bytes = (\<lambda>_. 0)\<rparr>" True 4]
  by (auto simp: gm_wf_def gm_range_def acpi_valid_def Let_def)

end
