(* ===== verification/Ax_Linux.thy ===== *)
theory Ax_Linux
  imports Ax_Memory
begin

text \<open>
  The Linux boot protocol structures (\<open>src/axvm_core/src/linux.rs\<close>). A packed structure is its bytes
  together with a layout: the fields in order with their sizes. Offsets are computed from the
  layout, the way the compiler computes them, and the lemmas check them against the offsets that
  the boot protocol fixes.
\<close>

section \<open>Constants\<close>

definition ZERO_PAGE_START :: usize where "ZERO_PAGE_START = 0x7000"
definition CMDLINE_START :: usize where "CMDLINE_START = 0x20000"
definition KERNEL_START :: usize where "KERNEL_START = 0x100000"
definition E820_RAM :: u32 where "E820_RAM = 1"
definition HDRS_MAGIC :: u32 where "HDRS_MAGIC = 0x53726448"

section \<open>Layouts\<close>

type_synonym layout = "(string \<times> nat) list"

fun field_offset :: "layout \<Rightarrow> string \<Rightarrow> nat" where
  "field_offset [] f = 0"
| "field_offset ((g, n) # fs) f = (if g = f then 0 else n + field_offset fs f)"

fun field_size :: "layout \<Rightarrow> string \<Rightarrow> nat" where
  "field_size [] f = 0"
| "field_size ((g, n) # fs) f = (if g = f then n else field_size fs f)"

definition struct_size :: "layout \<Rightarrow> nat" where
  "struct_size fs = sum_list (map snd fs)"

definition setup_header :: layout where
  "setup_header =
     [(''setup_sects'', 1), (''root_flags'', 2), (''syssize'', 4), (''ram_size'', 2), (''vid_mode'', 2),
      (''root_dev'', 2), (''boot_flag'', 2), (''jump'', 2), (''header'', 4), (''version'', 2),
      (''realmode_swtch'', 4), (''start_sys_seg'', 2), (''kernel_version'', 2), (''type_of_loader'', 1),
      (''loadflags'', 1), (''setup_move_size'', 2), (''code32_start'', 4), (''ramdisk_image'', 4),
      (''ramdisk_size'', 4), (''bootsect_kludge'', 4), (''heap_end_ptr'', 2), (''ext_loader_ver'', 1),
      (''ext_loader_type'', 1), (''cmd_line_ptr'', 4), (''initrd_addr_max'', 4), (''kernel_alignment'', 4),
      (''relocatable_kernel'', 1), (''min_alignment'', 1), (''xloadflags'', 2), (''cmdline_size'', 4),
      (''hardware_subarch'', 4), (''hardware_subarch_data'', 8), (''payload_offset'', 4),
      (''payload_length'', 4), (''setup_data'', 8), (''pref_address'', 8), (''init_size'', 4),
      (''handover_offset'', 4)]"

record e820_entry =
  e820_addr :: u64
  e820_size :: u64
  e820_type :: u32

definition e820_bytes :: "e820_entry \<Rightarrow> bytes" where
  "e820_bytes e = to_le_bytes 8 (e820_addr e) @ to_le_bytes 8 (e820_size e) @ to_le_bytes 4 (e820_type e)"

definition boot_params :: layout where
  "boot_params =
     [(''_pad1'', 0x1e8), (''e820_entries'', 1), (''eddbuf_entries'', 1), (''eddbuf_ptr'', 1),
      (''_pad2'', 1), (''max_pfn'', 4), (''_pad3'', 1), (''hdr'', struct_size setup_header),
      (''_pad4'', 0x2d0 - 0x1f1 - struct_size setup_header), (''e820_table'', 128 * 20),
      (''_pad5'', 4096 - 0x2d0 - 128 * 20)]"

text \<open>\<open>BootParams::default\<close>: all zero. The structure is addressed by offset, like guest memory.\<close>

definition boot_params_default :: "nat \<Rightarrow> u8" where
  "boot_params_default = (\<lambda>_. 0)"

definition bp_offset :: "string \<Rightarrow> nat" where
  "bp_offset f = field_offset boot_params f"

definition hdr_offset :: "string \<Rightarrow> nat" where
  "hdr_offset f = bp_offset ''hdr'' + field_offset setup_header f"

text \<open>The unaligned field accesses of the loader's two macros, on fields of the embedded header.\<close>

definition read_packed :: "(nat \<Rightarrow> u8) \<Rightarrow> string \<Rightarrow> 'a::len word" where
  "read_packed bp f = from_le_bytes (mem_get bp (hdr_offset f) (field_size setup_header f))"

definition write_packed :: "(nat \<Rightarrow> u8) \<Rightarrow> string \<Rightarrow> 'a::len word \<Rightarrow> nat \<Rightarrow> u8" where
  "write_packed bp f v = mem_upd bp (hdr_offset f) (to_le_bytes (field_size setup_header f) v)"

section \<open>The offsets of the boot protocol\<close>

lemma header_size: "struct_size setup_header = 119"
  by (simp add: struct_size_def setup_header_def)

lemma boot_params_size: "struct_size boot_params = 4096"
  unfolding boot_params_def header_size by (simp add: struct_size_def)

lemma bp_offsets:
  "bp_offset ''e820_entries'' = 0x1e8" "bp_offset ''hdr'' = 0x1f1" "bp_offset ''e820_table'' = 0x2d0"
  by (simp_all add: bp_offset_def boot_params_def header_size)

lemma hdr_offsets:
  "hdr_offset ''setup_sects'' = 0x1f1" "hdr_offset ''header'' = 0x202" "hdr_offset ''version'' = 0x206"
  "hdr_offset ''type_of_loader'' = 0x210" "hdr_offset ''loadflags'' = 0x211"
  "hdr_offset ''code32_start'' = 0x214" "hdr_offset ''cmd_line_ptr'' = 0x228"
  "hdr_offset ''cmdline_size'' = 0x238"
  by (simp_all add: hdr_offset_def bp_offsets setup_header_def)

lemma hdr_sizes:
  "field_size setup_header ''setup_sects'' = 1" "field_size setup_header ''header'' = 4"
  "field_size setup_header ''version'' = 2" "field_size setup_header ''type_of_loader'' = 1"
  "field_size setup_header ''loadflags'' = 1" "field_size setup_header ''code32_start'' = 4"
  "field_size setup_header ''cmd_line_ptr'' = 4" "field_size setup_header ''cmdline_size'' = 4"
  by (simp_all add: setup_header_def)

lemmas boot_layout = bp_offsets hdr_offsets hdr_sizes

end
