(* ===== verification/Ax_Loader.thy ===== *)
theory Ax_Loader
  imports Ax_Linux Ax_File
begin

text \<open>
  The kernel loader (\<open>src/axvm_core/src/loader.rs\<close>): it reads the setup header of a bzImage, fills the
  boot parameter page, and writes the command line, the kernel and that page into guest memory.
  The kernel file is the parameter \<open>file_ops\<close>. On an error the hypervisor exits, so the memory of a
  failed load is not part of the result. The messages that are only printed are left out.
\<close>

section \<open>Definitions\<close>

definition SETUP_HEADER_OFFSET :: u64 where "SETUP_HEADER_OFFSET = 0x1F1"
definition DEFAULT_SETUP_SECTS :: u8 where "DEFAULT_SETUP_SECTS = 4"
definition LOADER_SECTOR_SIZE :: u64 where "LOADER_SECTOR_SIZE = 512"

definition msg :: "string \<Rightarrow> string \<Rightarrow> string" where
  "msg s e = s @ e"

text \<open>Opening the image and reading the header into the boot parameters.\<close>

definition load_header ::
  "'f file_ops \<Rightarrow> string \<Rightarrow> ((nat \<Rightarrow> u8) \<times> 'f) result" where
  "load_header F kernel_path =
     (case fo_open F kernel_path of
        Inl e \<Rightarrow> Inl (''Failed to open kernel file '' @ [CHR 0x27] @ kernel_path @ [CHR 0x27] @ '': '' @ e)
      | Inr file \<Rightarrow> (case fo_seek F file SETUP_HEADER_OFFSET of
          Inl e \<Rightarrow> Inl (msg ''Failed to seek to kernel header: '' e)
        | Inr f1 \<Rightarrow> (case fo_read_exact F f1 (struct_size setup_header) of
            (Inl e, _) \<Rightarrow> Inl (msg ''Failed to read kernel header: '' e)
          | (Inr hdr, f2) \<Rightarrow>
              (let bp = mem_upd boot_params_default (bp_offset ''hdr'') hdr;
                   header_magic = read_packed bp ''header'' :: u32 in
               if header_magic \<noteq> HDRS_MAGIC then
                 Inl (''Invalid kernel header magic: '' @ show_hex (unat header_magic) @ '' (expected '' @
                   show_hex (unat HDRS_MAGIC) @ ''). Not a valid bzImage?'')
               else Inr (bp, f2)))))"

definition set_e820 :: "(nat \<Rightarrow> u8) \<Rightarrow> nat \<Rightarrow> e820_entry \<Rightarrow> nat \<Rightarrow> u8" where
  "set_e820 bp i e = mem_upd bp (bp_offset ''e820_table'' + 20 * i) (e820_bytes e)"

text \<open>The memory map: low memory up to 639 KB and everything above 1 MB.\<close>

definition fill_e820 :: "bool \<Rightarrow> (nat \<Rightarrow> u8) \<Rightarrow> usize \<Rightarrow> (nat \<Rightarrow> u8) exec" where
  "fill_e820 oc bp mem_size =
     exec_bind (usub oc mem_size 0x100000) (\<lambda>high.
       Done (set_e820 (set_e820 (mem_upd bp (bp_offset ''e820_entries'') [2])
         0 \<lparr>e820_addr = 0, e820_size = 0x9FC00, e820_type = E820_RAM\<rparr>)
         1 \<lparr>e820_addr = 0x100000, e820_size = high, e820_type = E820_RAM\<rparr>))"

definition load_cmdline ::
  "bool \<Rightarrow> guest_memory \<Rightarrow> (nat \<Rightarrow> u8) \<Rightarrow> string \<Rightarrow> (guest_memory \<times> (nat \<Rightarrow> u8)) result exec" where
  "load_cmdline oc m bp cmdline =
     (if cmdline = [] then Done (Inr (m, bp)) else
      (let cmdline_bytes = bytes_of_string cmdline in
       try_bind (map_err (msg ''Failed to write cmdline: '')
           (write_slice oc m CMDLINE_START cmdline_bytes)) (\<lambda>m1.
       exec_bind (uadd oc CMDLINE_START (of_nat (length cmdline_bytes))) (\<lambda>fin.
       try_bind (map_err (msg ''Failed to write cmdline terminator: '') (write_u8 oc m1 fin 0)) (\<lambda>m2.
         Done (Inr (m2, write_packed (write_packed bp ''cmd_line_ptr'' (ucast CMDLINE_START :: u32))
           ''cmdline_size'' (of_nat (length cmdline_bytes + 1) :: u32))))))))"

definition set_loader_fields :: "(nat \<Rightarrow> u8) \<Rightarrow> nat \<Rightarrow> u8" where
  "set_loader_fields bp =
     (let bp1 = write_packed bp ''type_of_loader'' (0xFF :: u8) in
      if (0x0200 :: u16) \<le> read_packed bp ''version''
      then write_packed bp1 ''loadflags'' (read_packed bp1 ''loadflags'' OR 0x80 :: u8)
      else bp1)"

definition kernel_offset :: "(nat \<Rightarrow> u8) \<Rightarrow> u64" where
  "kernel_offset bp =
     (let setup_sects_raw = read_packed bp ''setup_sects'' :: u8;
          setup_sects = (if setup_sects_raw = 0 then DEFAULT_SETUP_SECTS else setup_sects_raw)
      in (ucast setup_sects + 1) * LOADER_SECTOR_SIZE)"

definition load_kernel ::
  "bool \<Rightarrow> 'f file_ops \<Rightarrow> 'f \<Rightarrow> guest_memory \<Rightarrow> (nat \<Rightarrow> u8) \<Rightarrow> guest_memory result exec" where
  "load_kernel oc F file m bp =
     (case fo_seek F file (kernel_offset bp) of
        Inl e \<Rightarrow> Done (Inl (msg ''Failed to seek to kernel code: '' e))
      | Inr f1 \<Rightarrow> (case fst (fo_read_to_end F f1) of
          Inl e \<Rightarrow> Done (Inl (msg ''Failed to read kernel code: '' e))
        | Inr kernel_code \<Rightarrow>
            map_err (msg ''Failed to write kernel to memory: '') (write_slice oc m KERNEL_START kernel_code)))"

definition load_linux ::
  "bool \<Rightarrow> 'f file_ops \<Rightarrow> guest_memory \<Rightarrow> string \<Rightarrow> usize \<Rightarrow> string \<Rightarrow> (u64 \<times> guest_memory) result exec" where
  "load_linux oc F guest_mem kernel_path mem_size cmdline =
     (case load_header F kernel_path of Inl e \<Rightarrow> Done (Inl e)
      | Inr (bp, file) \<Rightarrow>
          exec_bind (fill_e820 oc bp mem_size) (\<lambda>bp1.
          try_bind (load_cmdline oc guest_mem bp1 cmdline) (\<lambda>(m2, bp2).
          let bp3 = set_loader_fields bp2 in
          try_bind (load_kernel oc F file m2 bp3) (\<lambda>m3.
          try_bind (map_err (msg ''Failed to write Zero Page: '')
              (write_slice oc m3 ZERO_PAGE_START (mem_get bp3 0 (struct_size boot_params)))) (\<lambda>m4.
          let code32_start = read_packed bp3 ''code32_start'' :: u32;
              entry_point = (if code32_start \<noteq> 0 then ucast code32_start else KERNEL_START) in
          try_bind (map_err (msg ''Debug read failed: '') (read_slice oc m4 KERNEL_START 16)) (\<lambda>_.
            Done (Inr (entry_point, m4))))))))"

section \<open>The kernel image\<close>

text \<open>The parts of a bzImage that the loader uses, read off the file's bytes.\<close>

definition img_setup_sects :: "bytes \<Rightarrow> nat" where
  "img_setup_sects c = (if c ! 0x1F1 = 0 then 4 else unat (c ! 0x1F1))"

definition img_kernel :: "bytes \<Rightarrow> bytes" where
  "img_kernel c = drop ((img_setup_sects c + 1) * 512) c"

definition img_entry :: "bytes \<Rightarrow> u64" where
  "img_entry c = (let e = from_le_bytes (take 4 (drop 0x214 c)) :: u32 in if e = 0 then 0x100000 else ucast e)"

definition bz_image :: "bytes \<Rightarrow> bool" where
  "bz_image c \<longleftrightarrow> 0x1F1 + 119 \<le> length c \<and> from_le_bytes (take 4 (drop 0x202 c)) = HDRS_MAGIC"

text \<open>The boot parameters after the header has been read.\<close>

definition img_params :: "bytes \<Rightarrow> nat \<Rightarrow> u8" where
  "img_params c = mem_upd (\<lambda>_. 0) 0x1f1 (take 119 (drop 0x1f1 c))"

lemma img_params_get:
  assumes "0x1F1 \<le> a" and "a + n \<le> 0x1F1 + 119" and "0x1F1 + 119 \<le> length c"
  shows "mem_get (img_params c) a n = take n (drop a c)"
  using assms unfolding img_params_def
  by (subst mem_get_upd_inside) (simp_all add: min_def take_drop)

context regular_file
begin

lemma load_header_ok:
  assumes "fo_open F path = Inr f" and "content f = c" and "bz_image c"
  shows "\<exists>file. load_header F path = Inr (img_params c, file) \<and> content file = c"
proof -
  have len: "0x1F1 + 119 \<le> length c" and magic: "from_le_bytes (take 4 (drop 0x202 c)) = HDRS_MAGIC"
    using assms(3) by (simp_all add: bz_image_def)
  obtain f1 where f1: "fo_seek F f SETUP_HEADER_OFFSET = Inr f1" "content f1 = c" "pos f1 = 0x1F1"
    using seek [of SETUP_HEADER_OFFSET f] assms(2) by (auto simp: SETUP_HEADER_OFFSET_def)
  obtain f2 where f2: "fo_read_exact F f1 119 = (Inr (take 119 (drop 0x1F1 c)), f2)" "content f2 = c"
    using read_exact [of f1 119] f1 len by auto
  have bp: "mem_upd boot_params_default (bp_offset ''hdr'') (take 119 (drop 0x1F1 c)) = img_params c"
    by (simp add: boot_params_default_def img_params_def bp_offsets)
  have "(read_packed (img_params c) ''header'' :: u32) = HDRS_MAGIC"
    using magic len by (simp add: read_packed_def boot_layout img_params_get)
  then show ?thesis using assms(1) f1(1) f2 by (simp add: load_header_def header_size bp Let_def)
qed

lemma load_kernel_ok:
  assumes "content file = c" and "gm_wf m" and "gm_range m KERNEL_START (length (img_kernel c))"
    and "read_packed bp ''setup_sects'' = c ! 0x1F1"
  shows "load_kernel oc F file m bp =
    Done (Inr (m\<lparr>gm_bytes := mem_upd (gm_bytes m) 0x100000 (img_kernel c)\<rparr>))"
proof -
  let ?s = "if c ! 0x1F1 = 0 then DEFAULT_SETUP_SECTS else c ! 0x1F1"
  have s: "unat ?s = img_setup_sects c" by (simp add: img_setup_sects_def DEFAULT_SETUP_SECTS_def)
  have "unat (ucast ?s :: u64) = unat ?s"
    using unat_bound [of ?s] by (simp add: unsigned_ucast_eq take_bit_nat_eq_self)
  then have "unat (kernel_offset bp) = (img_setup_sects c + 1) * 512"
    using unat_bound [of ?s] s
    by (simp add: kernel_offset_def assms(4) LOADER_SECTOR_SIZE_def unat_word_ariths Let_def)
  moreover from this have "unat (kernel_offset bp) < 2 ^ 63"
    using unat_bound [of ?s] s by simp
  ultimately obtain f1 where f1: "fo_seek F file (kernel_offset bp) = Inr f1" "content f1 = c"
    "pos f1 = (img_setup_sects c + 1) * 512"
    using seek [of "kernel_offset bp" "file"] assms(1) by auto
  obtain f2 where "fo_read_to_end F f1 = (Inr (img_kernel c), f2)"
    using read_to_end [of f1] f1 by (auto simp: img_kernel_def)
  then show ?thesis
    using f1(1) assms(2,3) by (simp add: load_kernel_def write_slice_ok KERNEL_START_def)
qed

end

lemma img_params_zero: "a + n \<le> 0x1F1 \<or> 0x268 \<le> a \<Longrightarrow> mem_get (img_params c) a n = replicate n 0"
  unfolding img_params_def by (subst mem_get_upd_disjoint) (auto intro: nth_equalityI)

text \<open>The boot parameter page that the loader writes, as a function of the image and the configuration.\<close>

definition e820_params :: "bytes \<Rightarrow> usize \<Rightarrow> nat \<Rightarrow> u8" where
  "e820_params c mem_size = set_e820 (set_e820 (mem_upd (img_params c) 0x1e8 [2])
     0 \<lparr>e820_addr = 0, e820_size = 0x9FC00, e820_type = E820_RAM\<rparr>)
     1 \<lparr>e820_addr = 0x100000, e820_size = mem_size - 0x100000, e820_type = E820_RAM\<rparr>"

definition cmd_params :: "(nat \<Rightarrow> u8) \<Rightarrow> string \<Rightarrow> nat \<Rightarrow> u8" where
  "cmd_params bp cmdline = (if cmdline = [] then bp else
     write_packed (write_packed bp ''cmd_line_ptr'' (ucast CMDLINE_START :: u32))
       ''cmdline_size'' (of_nat (length cmdline + 1) :: u32))"

definition final_params :: "bytes \<Rightarrow> usize \<Rightarrow> string \<Rightarrow> nat \<Rightarrow> u8" where
  "final_params c mem_size cmdline = set_loader_fields (cmd_params (e820_params c mem_size) cmdline)"

definition cmd_bytes :: "(nat \<Rightarrow> u8) \<Rightarrow> string \<Rightarrow> nat \<Rightarrow> u8" where
  "cmd_bytes f cmdline = (if cmdline = [] then f else mem_upd f 0x20000 (bytes_of_string cmdline @ [0]))"

lemmas params_defs = final_params_def cmd_params_def e820_params_def

lemma set_loader_fields_get:
  assumes "a + n \<le> 0x210 \<or> 0x212 \<le> a"
  shows "mem_get (set_loader_fields bp) a n = mem_get bp a n"
  using assms by (auto simp: set_loader_fields_def Let_def write_packed_def boot_layout mem_get_upd_disjoint)

lemma final_params_get:
  assumes "a + n \<le> 0x1e8 \<or> 0x1e9 \<le> a \<and> a + n \<le> 0x210 \<or> 0x212 \<le> a \<and> a + n \<le> 0x228 \<or>
      0x22C \<le> a \<and> a + n \<le> 0x238 \<or> 0x23C \<le> a \<and> a + n \<le> 0x2d0 \<or> 0x2f8 \<le> a"
  shows "mem_get (final_params c s cmdline) a n = mem_get (img_params c) a n"
proof -
  have "a + n \<le> 0x210 \<or> 0x212 \<le> a" using assms by auto
  then show ?thesis
    using assms unfolding params_defs
    by (subst set_loader_fields_get)
      (auto simp: write_packed_def boot_layout set_e820_def e820_bytes_def mem_get_upd_disjoint)
qed

lemma load_cmdline_ok:
  assumes "gm_wf m" and "gm_range m CMDLINE_START (length cmdline + 1)"
  shows "load_cmdline oc m bp cmdline =
    Done (Inr (m\<lparr>gm_bytes := cmd_bytes (gm_bytes m) cmdline\<rparr>, cmd_params bp cmdline))"
proof -
  have r: "gm_range m CMDLINE_START (length cmdline)" using assms(2) by (rule gm_range_mono) simp
  have "unat (of_nat (length cmdline) :: usize) = length cmdline"
    using gm_range_lt [OF r] by (intro unat_of_nat_small) simp
  note fin = range_offset [OF assms(2) this]
  have upd: "mem_upd (mem_upd f a xs) (a + length xs) ys = mem_upd f a (xs @ ys)" for f a and xs ys :: bytes
    by (rule ext) (auto simp: mem_upd_def nth_append)
  have c: "unat CMDLINE_START = 0x20000" by (simp add: CMDLINE_START_def)
  show ?thesis
    using assms(1) r fin upd [of "gm_bytes m" 131072 "bytes_of_string cmdline" "[0]"]
    by (simp add: load_cmdline_def Let_def write_slice_ok write_u8_def c cmd_bytes_def cmd_params_def)
qed

text \<open>The contents of guest memory after a load.\<close>

definition loaded_bytes :: "(nat \<Rightarrow> u8) \<Rightarrow> bytes \<Rightarrow> usize \<Rightarrow> string \<Rightarrow> nat \<Rightarrow> u8" where
  "loaded_bytes f c mem_size cmdline =
     mem_upd (mem_upd (cmd_bytes f cmdline) 0x100000 (img_kernel c)) 0x7000
       (mem_get (final_params c mem_size cmdline) 0 4096)"

lemma loaded_page:
  "a + n \<le> 4096 \<Longrightarrow> mem_get (loaded_bytes f c s cmdline) (0x7000 + a) n = mem_get (final_params c s cmdline) a n"
  by (simp add: loaded_bytes_def mem_get_upd_inside drop_mem_get take_mem_get)

lemma final_params_fields:
  "mem_get (final_params c s cmdline) 0x1e8 1 = [2]" "mem_get (final_params c s cmdline) 0x210 1 = [0xFF]"
  "mem_get (final_params c s cmdline) 0x2d0 40 =
     e820_bytes \<lparr>e820_addr = 0, e820_size = 0x9FC00, e820_type = E820_RAM\<rparr> @
     e820_bytes \<lparr>e820_addr = 0x100000, e820_size = s - 0x100000, e820_type = E820_RAM\<rparr>"
  "cmdline \<noteq> [] \<Longrightarrow> mem_get (final_params c s cmdline) 0x228 4 = to_le_bytes 4 (0x20000 :: u32)"
  "cmdline \<noteq> [] \<Longrightarrow> mem_get (final_params c s cmdline) 0x238 4 = to_le_bytes 4 (of_nat (length cmdline + 1) :: u32)"
proof -
  note get = set_loader_fields_get
  show "mem_get (final_params c s cmdline) 0x1e8 1 = [2]"
    by (simp add: params_defs Let_def get write_packed_def boot_layout set_e820_def e820_bytes_def
        mem_get_upd_disjoint)
  show "mem_get (final_params c s cmdline) 0x210 1 = [0xFF]"
    by (simp add: params_defs Let_def set_loader_fields_def write_packed_def boot_layout mem_get_upd_disjoint)
  have "mem_get g 0x2d0 40 = mem_get g 0x2d0 20 @ mem_get g 0x2e4 20" for g
    using mem_get_append [of g 720 20 20] by simp
  then show "mem_get (final_params c s cmdline) 0x2d0 40 =
     e820_bytes \<lparr>e820_addr = 0, e820_size = 0x9FC00, e820_type = E820_RAM\<rparr> @
     e820_bytes \<lparr>e820_addr = 0x100000, e820_size = s - 0x100000, e820_type = E820_RAM\<rparr>"
    by (simp add: params_defs Let_def get write_packed_def boot_layout set_e820_def mem_get_upd_disjoint e820_bytes_def)
  show "mem_get (final_params c s cmdline) 0x228 4 = to_le_bytes 4 (0x20000 :: u32)" if "cmdline \<noteq> []"
    using that by (simp add: params_defs Let_def get write_packed_def boot_layout mem_get_upd_disjoint CMDLINE_START_def)
  show "mem_get (final_params c s cmdline) 0x238 4 = to_le_bytes 4 (of_nat (length cmdline + 1) :: u32)" if "cmdline \<noteq> []"
    using that by (simp add: params_defs Let_def get write_packed_def boot_layout mem_get_upd_disjoint del: of_nat_Suc)
qed

text \<open>The load flags: those of the image, with \<open>CAN_USE_HEAP\<close> for every protocol that has the flag.\<close>

definition img_loadflags :: "bytes \<Rightarrow> u8" where
  "img_loadflags c = (if (0x0200 :: u16) \<le> from_le_bytes (take 2 (drop 0x206 c)) then c ! 0x211 OR 0x80 else c ! 0x211)"

lemma take_one: "i < length c \<Longrightarrow> take 1 (drop i c) = [c ! i]"
  by (simp add: take_Suc_conv_app_nth hd_drop_conv_nth flip: Cons_nth_drop_Suc)

lemma final_params_loadflags:
  assumes "0x1F1 + 119 \<le> length c"
  shows "mem_get (final_params c s cmdline) 0x211 1 = [img_loadflags c]"
proof -
  let ?bp = "cmd_params (e820_params c s) cmdline"
  have get: "mem_get ?bp a n = take n (drop a c)" if "0x1F1 \<le> a" "a + n \<le> 0x228" for a n
  proof -
    have "mem_get ?bp a n = mem_get (img_params c) a n"
      using that by (auto simp: params_defs write_packed_def boot_layout set_e820_def e820_bytes_def mem_get_upd_disjoint)
    also have "\<dots> = take n (drop a c)" by (rule img_params_get) (use that assms in simp_all)
    finally show ?thesis .
  qed
  have v: "read_packed ?bp ''version'' = (from_le_bytes (take 2 (drop 0x206 c)) :: u16)"
    by (simp add: read_packed_def boot_layout get)
  have old: "mem_get ?bp 0x211 1 = [c ! 0x211]" using assms get [of "0x211" 1] take_one [of "0x211" c] by simp
  have new: "read_packed (write_packed ?bp ''type_of_loader'' (0xFF :: u8)) ''loadflags'' = c ! 0x211"
    using old by (simp add: read_packed_def write_packed_def boot_layout mem_get_upd_disjoint)
  show ?thesis
    using old new
    by (simp add: final_params_def set_loader_fields_def Let_def v img_loadflags_def)
      (simp add: write_packed_def boot_layout mem_get_upd_disjoint)
qed

lemma read_sects: "0x1F1 + 119 \<le> length c \<Longrightarrow> read_packed (final_params c s cmdline) ''setup_sects'' = c ! 0x1F1"
  by (simp add: read_packed_def boot_layout final_params_get img_params_get take_Suc_conv_app_nth
      flip: One_nat_def) (simp add: take_Suc_conv_app_nth numeral_eq_Suc hd_drop_conv_nth)

text \<open>The load, step by step.\<close>

lemma load_linux_bytes:
  assumes R: "regular_file F content pos" and "fo_open F path = Inr f" and "content f = c" and "bz_image c"
    and "gm_wf m" and "0x100000 + max 16 (length (img_kernel c)) \<le> unat (gm_len m)"
    and "length cmdline < 0xC0000"
  shows "load_linux oc F m path (gm_len m) cmdline =
    Done (Inr (img_entry c, m\<lparr>gm_bytes := loaded_bytes (gm_bytes m) c (gm_len m) cmdline\<rparr>))"
proof -
  let ?s = "gm_len m" and ?fp = "final_params c (gm_len m) cmdline"
  have len: "0x1F1 + 119 \<le> length c" using assms(4) by (simp add: bz_image_def)
  obtain g where g: "load_header F path = Inr (img_params c, g)" "content g = c"
    using regular_file.load_header_ok [OF assms(1-4)] by blast
  have "0x100000 \<le> ?s" using assms(6) by (simp add: word_le_nat_alt)
  then have sub: "usub oc ?s 0x100000 = Done (?s - 0x100000)" by (rule usub_no_underflow)
  have rc: "gm_range m CMDLINE_START (length cmdline + 1)" and rk: "gm_range m KERNEL_START (length (img_kernel c))"
    and rz: "gm_range m ZERO_PAGE_START 4096" and r16: "gm_range m KERNEL_START 16"
    using assms(6,7) by (simp_all add: gm_range_def CMDLINE_START_def KERNEL_START_def ZERO_PAGE_START_def)
  have e: "read_packed ?fp ''code32_start'' = (from_le_bytes (take 4 (drop 0x214 c)) :: u32)"
    using len by (simp add: read_packed_def boot_layout final_params_get img_params_get)
  have k: "load_kernel oc F g m2 ?fp = Done (Inr (m2\<lparr>gm_bytes := mem_upd (gm_bytes m2) 0x100000 (img_kernel c)\<rparr>))"
    if "gm_wf m2" "gm_range m2 KERNEL_START (length (img_kernel c))" for m2
    using regular_file.load_kernel_ok [OF R g(2) that read_sects [OF len]] .
  have fill: "fill_e820 oc (img_params c) ?s = Done (e820_params c ?s)"
    by (simp add: fill_e820_def sub e820_params_def bp_offsets)
  show ?thesis
    using rk rz r16 assms(5)
    by (simp add: load_linux_def g(1) fill load_cmdline_ok [OF assms(5) rc] final_params_def [symmetric] Let_def
        k e write_slice_ok read_slice_ok boot_params_size loaded_bytes_def img_entry_def)
      (simp add: ZERO_PAGE_START_def KERNEL_START_def)
qed


section \<open>Properties\<close>

text \<open>
  A loaded kernel: the protected-mode kernel is at 1 MB, byte for byte; the command line is at
  \<open>0x20000\<close> with its terminator and the boot page points to it; the memory map of the boot page has
  the low 639 KB and everything from 1 MB to the end of guest memory; the loader type is set, the load flags
  have \<open>CAN_USE_HEAP\<close>, the rest of the setup header is the one of the file and the rest of the page is zero.
\<close>

definition linux_loaded :: "(nat \<Rightarrow> u8) \<Rightarrow> bytes \<Rightarrow> usize \<Rightarrow> string \<Rightarrow> bool" where
  "linux_loaded g c mem_size cmdline \<longleftrightarrow>
     mem_get g 0x100000 (length (img_kernel c)) = img_kernel c \<and>
     (cmdline \<noteq> [] \<longrightarrow> mem_get g 0x20000 (length cmdline + 1) = bytes_of_string cmdline @ [0] \<and>
        from_le_bytes (mem_get g (0x7000 + hdr_offset ''cmd_line_ptr'') 4) = (0x20000 :: u32) \<and>
        from_le_bytes (mem_get g (0x7000 + hdr_offset ''cmdline_size'') 4) = (of_nat (length cmdline + 1) :: u32)) \<and>
     mem_get g (0x7000 + bp_offset ''e820_entries'') 1 = [2] \<and>
     mem_get g (0x7000 + bp_offset ''e820_table'') 40 =
       e820_bytes \<lparr>e820_addr = 0, e820_size = 0x9FC00, e820_type = E820_RAM\<rparr> @
       e820_bytes \<lparr>e820_addr = 0x100000, e820_size = mem_size - 0x100000, e820_type = E820_RAM\<rparr> \<and>
     mem_get g (0x7000 + hdr_offset ''type_of_loader'') 1 = [0xFF] \<and>
     mem_get g (0x7000 + hdr_offset ''loadflags'') 1 = [img_loadflags c] \<and>
     (\<forall>(a, n) \<in> {(0x1f1, 31), (0x212, 22), (0x22C, 12), (0x23C, 44)}. mem_get g (0x7000 + a) n = take n (drop a c)) \<and>
     (\<forall>(a, n) \<in> {(0, 0x1e8), (0x1e9, 8), (0x268, 0x68), (0x2f8, 0xd08)}. mem_get g (0x7000 + a) n = replicate n 0)"

text \<open>What belongs to the kernel in guest memory.\<close>

definition linux_region :: "bytes \<Rightarrow> string \<Rightarrow> nat set" where
  "linux_region c cmdline = {0x7000..<0x8000} \<union> {0x20000..<0x20000 + (length cmdline + 1)} \<union>
     {0x100000..<0x100000 + length (img_kernel c)}"

lemma linux_loaded_agree:
  assumes "linux_loaded f c s cmdline" and "\<And>a. a \<in> linux_region c cmdline \<Longrightarrow> g a = f a"
  shows "linux_loaded g c s cmdline"
proof -
  have "mem_get g a n = mem_get f a n" if "{a..<a + n} \<subseteq> linux_region c cmdline" for a n
    by (rule mem_get_cong) (use that assms(2) in auto)
  note get = this [unfolded linux_region_def]
  show ?thesis using assms(1) by (simp add: linux_loaded_def get boot_layout subset_iff)
qed

lemma loaded_bytes_out:
  assumes "a \<notin> linux_region c cmdline"
  shows "loaded_bytes f c s cmdline a = f a"
  using assms by (auto simp: linux_region_def loaded_bytes_def cmd_bytes_def mem_upd_out)

lemma linux_loaded_bytes:
  assumes "bz_image c" and "length cmdline < 0xC0000"
  shows "linux_loaded (loaded_bytes f c s cmdline) c s cmdline"
proof -
  let ?g = "loaded_bytes f c s cmdline"
  have len: "0x1F1 + 119 \<le> length c" using assms(1) by (simp add: bz_image_def)
  have k: "mem_get ?g 0x100000 (length (img_kernel c)) = img_kernel c"
    by (simp add: loaded_bytes_def mem_get_upd_disjoint)
  have cl: "mem_get ?g 0x20000 (length cmdline + 1) = bytes_of_string cmdline @ [0]" if "cmdline \<noteq> []"
    using that assms(2) by (simp add: loaded_bytes_def cmd_bytes_def mem_get_upd_disjoint)
  have hdr: "mem_get ?g (0x7000 + a) n = take n (drop a c)" if "(a, n) \<in> {(0x1f1, 31), (0x212, 22), (0x22C, 12), (0x23C, 44)}" for a n
    using that len by (subst loaded_page) (auto simp: final_params_get img_params_get)
  have zero: "mem_get ?g (0x7000 + a) n = replicate n 0" if "(a, n) \<in> {(0, 0x1e8), (0x1e9, 8), (0x268, 0x68), (0x2f8, 0xd08)}" for a n
    using that by (subst loaded_page) (auto simp: final_params_get img_params_zero)
  have fields: "mem_get ?g (0x7000 + 0x1e8) 1 = [2]" "mem_get ?g (0x7000 + 0x210) 1 = [0xFF]"
    "mem_get ?g (0x7000 + 0x2d0) 40 = mem_get (final_params c s cmdline) 0x2d0 40"
    "mem_get ?g (0x7000 + 0x228) 4 = mem_get (final_params c s cmdline) 0x228 4"
    "mem_get ?g (0x7000 + 0x238) 4 = mem_get (final_params c s cmdline) 0x238 4"
    "mem_get ?g (0x7000 + 0x211) 1 = mem_get (final_params c s cmdline) 0x211 1"
    by (rule trans [OF loaded_page final_params_fields(1)] trans [OF loaded_page final_params_fields(2)]
        loaded_page; simp)+
  have "\<forall>(a, n) \<in> {(0x1f1, 31), (0x212, 22), (0x22C, 12), (0x23C, 44)}. mem_get ?g (0x7000 + a) n = take n (drop a c)"
    and "\<forall>(a, n) \<in> {(0, 0x1e8), (0x1e9, 8), (0x268, 0x68), (0x2f8, 0xd08)}. mem_get ?g (0x7000 + a) n = replicate n 0"
    using hdr zero by blast+
  then show ?thesis
    using k cl fields final_params_fields(3) [of c s cmdline] final_params_fields(4,5) [of cmdline c s]
      final_params_loadflags [OF len, of s cmdline]
    unfolding linux_loaded_def by (simp add: boot_layout del: of_nat_Suc)
qed


definition tiny_kernel :: bytes where
  "tiny_kernel = replicate 0x1F1 0 @ [1] @ replicate 16 0 @ to_le_bytes 4 HDRS_MAGIC @ replicate 506 0 @ [0xF4]"

lemma tiny_kernel_ok: "bz_image tiny_kernel" "img_entry tiny_kernel = 0x100000" "img_kernel tiny_kernel = [0xF4]"
  by code_simp+


text \<open>
  A regular file that is long enough for a setup header but does not carry the magic number of
  the boot protocol is rejected with the text that names both numbers, whatever the memory size and
  the command line; no result memory is produced.
\<close>

theorem load_linux_rejects:
  assumes "regular_file F content pos" and "fo_open F path = Inr f" and "0x1F1 + 119 \<le> length (content f)"
    and "from_le_bytes (take 4 (drop 0x202 (content f))) = mg" and "mg \<noteq> HDRS_MAGIC"
  shows "load_linux oc F m path mem_size cmdline =
    Done (Inl (''Invalid kernel header magic: '' @ show_hex (unat mg) @ '' (expected '' @
      show_hex (unat HDRS_MAGIC) @ ''). Not a valid bzImage?''))"
proof -
  let ?c = "content f"
  obtain f1 where f1: "fo_seek F f SETUP_HEADER_OFFSET = Inr f1" "content f1 = ?c" "pos f1 = 0x1F1"
    using regular_file.seek [OF assms(1), of SETUP_HEADER_OFFSET f] by (auto simp: SETUP_HEADER_OFFSET_def)
  obtain f2 where f2: "fo_read_exact F f1 119 = (Inr (take 119 (drop 0x1F1 ?c)), f2)"
    using regular_file.read_exact [OF assms(1), of f1 119] f1 assms(3) by auto
  have bp: "mem_upd boot_params_default (bp_offset ''hdr'') (take 119 (drop 0x1F1 ?c)) = img_params ?c"
    by (simp add: boot_params_default_def img_params_def bp_offsets)
  have "(read_packed (img_params ?c) ''header'' :: u32) = mg"
    using assms(3,4) by (simp add: read_packed_def boot_layout img_params_get)
  then show ?thesis
    using assms(2,5) f1(1) f2 by (simp add: load_linux_def load_header_def header_size bp Let_def)
qed

theorem load_linux_rejects_witness:
  "load_linux True (image_ops [''x'' \<mapsto> replicate 700 0])
     \<lparr>gm_ptr = 4096, gm_len = 16, gm_owned = True, gm_mapped = 32, gm_bytes = (\<lambda>_. 0)\<rparr> ''x'' 0 [] =
   Done (Inl (''Invalid kernel header magic: '' @ show_hex 0 @ '' (expected '' @
      show_hex (unat HDRS_MAGIC) @ ''). Not a valid bzImage?''))"
proof -
  have z: "from_le_bytes (take 4 (drop 514 (replicate 700 0))) = (0 :: u32)"
    by (simp add: numeral_eq_Suc)
  show ?thesis
    by (subst load_linux_rejects [OF img.regular_file_axioms _ _ _, of _ _ "\<lparr>img_data = replicate 700 0, img_pos = 0\<rparr>" 0])
      (use z in \<open>simp_all add: image_ops_def img_open_def HDRS_MAGIC_def\<close>)
qed


end
