(* ===== verification/Ax_Vcpu.thy ===== *)
theory Ax_Vcpu
  imports Ax_Linux
begin

text \<open>
  Processor setup (\<open>src/axvm_core/src/vcpu.rs\<close>): the descriptor table and the page tables that are
  written into guest memory, and the register state that is handed to KVM. The four KVM calls that
  read and set registers are a parameter (\<open>vcpu_ops\<close>); the locale \<open>vcpu_regs\<close> is their contract,
  interpreted on a register file.
\<close>

section \<open>KVM register state\<close>

record kvm_segment =
  seg_base :: u64
  seg_limit :: u32
  seg_selector :: u16
  seg_type :: u8
  seg_present :: u8
  seg_dpl :: u8
  seg_db :: u8
  seg_s :: u8
  seg_l :: u8
  seg_g :: u8
  seg_avl :: u8
  seg_unusable :: u8
  seg_padding :: u8

record kvm_dtable =
  dt_base :: u64
  dt_limit :: u16

record kvm_sregs =
  sr_cs :: kvm_segment
  sr_ds :: kvm_segment
  sr_es :: kvm_segment
  sr_fs :: kvm_segment
  sr_gs :: kvm_segment
  sr_ss :: kvm_segment
  sr_tr :: kvm_segment
  sr_ldt :: kvm_segment
  sr_gdt :: kvm_dtable
  sr_idt :: kvm_dtable
  sr_cr0 :: u64
  sr_cr2 :: u64
  sr_cr3 :: u64
  sr_cr4 :: u64
  sr_cr8 :: u64
  sr_efer :: u64
  sr_apic_base :: u64

text \<open>The general registers; \<open>r8\<close> to \<open>r15\<close> are never touched and kept as one field.\<close>

record kvm_regs =
  rg_rax :: u64
  rg_rbx :: u64
  rg_rcx :: u64
  rg_rdx :: u64
  rg_rsi :: u64
  rg_rdi :: u64
  rg_rsp :: u64
  rg_rbp :: u64
  rg_high :: "u64 list"
  rg_rip :: u64
  rg_rflags :: u64

record 'v vcpu_ops =
  vo_get_sregs :: "'v \<Rightarrow> kvm_sregs result"
  vo_set_sregs :: "'v \<Rightarrow> kvm_sregs \<Rightarrow> 'v result"
  vo_get_regs :: "'v \<Rightarrow> kvm_regs result"
  vo_set_regs :: "'v \<Rightarrow> kvm_regs \<Rightarrow> 'v result"

definition CR0_PE :: u64 where "CR0_PE = push_bit 0 1"
definition CR0_PG :: u64 where "CR0_PG = push_bit 31 1"
definition CR4_PAE :: u64 where "CR4_PAE = push_bit 5 1"
definition EFER_LME :: u64 where "EFER_LME = push_bit 8 1"
definition EFER_LMA :: u64 where "EFER_LMA = push_bit 10 1"

section \<open>32-bit protected mode\<close>

definition setup_gdt_32bit :: "bool \<Rightarrow> guest_memory \<Rightarrow> guest_memory result exec" where
  "setup_gdt_32bit oc mem =
     try_bind (write_u64 oc mem 0x4000 0) (\<lambda>m1.
     try_bind (write_u64 oc m1 0x4008 0x00CF9A000000FFFF) (\<lambda>m2.
     try_bind (write_u64 oc m2 0x4010 0x00CF92000000FFFF) (\<lambda>m3. Done (Inr m3))))"

definition code_seg_32 :: kvm_segment where
  "code_seg_32 = \<lparr>seg_base = 0, seg_limit = 0xFFFFFFFF, seg_selector = 0x08, seg_type = 0x0B,
     seg_present = 1, seg_dpl = 0, seg_db = 1, seg_s = 1, seg_l = 0, seg_g = 1, seg_avl = 0,
     seg_unusable = 0, seg_padding = 0\<rparr>"

definition data_seg_32 :: kvm_segment where
  "data_seg_32 = \<lparr>seg_base = 0, seg_limit = 0xFFFFFFFF, seg_selector = 0x10, seg_type = 0x03,
     seg_present = 1, seg_dpl = 0, seg_db = 1, seg_s = 1, seg_l = 0, seg_g = 1, seg_avl = 0,
     seg_unusable = 0, seg_padding = 0\<rparr>"

definition tr_seg :: kvm_segment where
  "tr_seg = \<lparr>seg_base = 0, seg_limit = 0, seg_selector = 0, seg_type = 0x0B,
     seg_present = 1, seg_dpl = 0, seg_db = 0, seg_s = 0, seg_l = 0, seg_g = 0, seg_avl = 0,
     seg_unusable = 0, seg_padding = 0\<rparr>"

definition ldt_seg :: kvm_segment where
  "ldt_seg = \<lparr>seg_base = 0, seg_limit = 0, seg_selector = 0, seg_type = 0x02,
     seg_present = 0, seg_dpl = 0, seg_db = 0, seg_s = 0, seg_l = 0, seg_g = 0, seg_avl = 0,
     seg_unusable = 1, seg_padding = 0\<rparr>"

text \<open>The assignments of the segments and descriptor tables, common to both setups.\<close>

definition set_segments :: "kvm_segment \<Rightarrow> kvm_segment \<Rightarrow> kvm_sregs \<Rightarrow> kvm_sregs" where
  "set_segments code_seg data_seg s = s\<lparr>sr_cs := code_seg, sr_ds := data_seg, sr_es := data_seg,
     sr_fs := data_seg, sr_gs := data_seg, sr_ss := data_seg, sr_tr := tr_seg, sr_ldt := ldt_seg,
     sr_gdt := \<lparr>dt_base = 0x4000, dt_limit = 23\<rparr>, sr_idt := \<lparr>dt_base = 0, dt_limit = 0\<rparr>\<rparr>"

definition sregs_32bit :: "kvm_sregs \<Rightarrow> kvm_sregs" where
  "sregs_32bit s = set_segments code_seg_32 data_seg_32
     (s\<lparr>sr_cr0 := CR0_PE, sr_cr3 := 0, sr_cr4 := 0, sr_efer := 0\<rparr>)"

definition regs_32bit :: "u64 \<Rightarrow> u64 \<Rightarrow> kvm_regs \<Rightarrow> kvm_regs" where
  "regs_32bit entry_point boot_params_addr r = r\<lparr>rg_rflags := 2, rg_rip := entry_point,
     rg_rsi := boot_params_addr, rg_rax := 0, rg_rbx := 0, rg_rcx := 0, rg_rdx := 0, rg_rdi := 0,
     rg_rbp := 0, rg_rsp := 0x90000\<rparr>"

text \<open>Reading the two register files, changing them and writing them back, with \<open>?\<close> after each call.\<close>

definition update_registers ::
  "'v vcpu_ops \<Rightarrow> (kvm_sregs \<Rightarrow> kvm_sregs) \<Rightarrow> (kvm_regs \<Rightarrow> kvm_regs) \<Rightarrow> 'v \<Rightarrow> 'v result" where
  "update_registers K f g vcpu =
     (case vo_get_sregs K vcpu of Inl e \<Rightarrow> Inl e
      | Inr sregs \<Rightarrow> (case vo_set_sregs K vcpu (f sregs) of Inl e \<Rightarrow> Inl e
        | Inr v1 \<Rightarrow> (case vo_get_regs K v1 of Inl e \<Rightarrow> Inl e
          | Inr regs \<Rightarrow> vo_set_regs K v1 (g regs))))"

definition setup_registers_32bit :: "'v vcpu_ops \<Rightarrow> 'v \<Rightarrow> u64 \<Rightarrow> u64 \<Rightarrow> 'v result" where
  "setup_registers_32bit K vcpu entry_point boot_params_addr =
     update_registers K sregs_32bit (regs_32bit entry_point boot_params_addr) vcpu"

definition setup_protected_mode_32bit ::
  "bool \<Rightarrow> 'v vcpu_ops \<Rightarrow> 'v \<Rightarrow> guest_memory \<Rightarrow> u64 \<Rightarrow> u64 \<Rightarrow> ('v \<times> guest_memory) result exec" where
  "setup_protected_mode_32bit oc K vcpu mem entry_point boot_params_addr =
     try_bind (setup_gdt_32bit oc mem) (\<lambda>m'.
       Done (case setup_registers_32bit K vcpu entry_point boot_params_addr of
         Inl e \<Rightarrow> Inl e | Inr v' \<Rightarrow> Inr (v', m')))"

definition setup_long_mode ::
  "bool \<Rightarrow> 'v vcpu_ops \<Rightarrow> 'v \<Rightarrow> guest_memory \<Rightarrow> u64 \<Rightarrow> u64 \<Rightarrow> ('v \<times> guest_memory) result exec" where
  "setup_long_mode oc K vcpu mem entry_point boot_params_addr =
     setup_protected_mode_32bit oc K vcpu mem entry_point boot_params_addr"

section \<open>64-bit long mode\<close>

primrec write_pd :: "bool \<Rightarrow> nat list \<Rightarrow> guest_memory \<Rightarrow> guest_memory result exec" where
  "write_pd oc [] mem = Done (Inr mem)"
| "write_pd oc (i # is) mem =
     (let physical_addr = of_nat i * 0x200000 :: u64; pd_entry = physical_addr OR 0x83 in
      try_bind (write_u64 oc mem (0x3000 + of_nat i * 8) pd_entry) (\<lambda>m'. write_pd oc is m'))"

definition setup_page_tables_extended :: "bool \<Rightarrow> guest_memory \<Rightarrow> guest_memory result exec" where
  "setup_page_tables_extended oc mem =
     try_bind (write_u64 oc mem 0x1000 (0x2000 OR 0x3)) (\<lambda>m1.
     try_bind (write_u64 oc m1 0x2000 (0x3000 OR 0x3)) (\<lambda>m2. write_pd oc [0..<512] m2))"

definition setup_gdt :: "bool \<Rightarrow> guest_memory \<Rightarrow> guest_memory result exec" where
  "setup_gdt oc mem =
     try_bind (write_u64 oc mem 0x4000 0) (\<lambda>m1.
     try_bind (write_u64 oc m1 0x4008 0x00209A0000000000) (\<lambda>m2.
     try_bind (write_u64 oc m2 0x4010 0x0000920000000000) (\<lambda>m3. Done (Inr m3))))"

definition code_seg_64 :: kvm_segment where
  "code_seg_64 = \<lparr>seg_base = 0, seg_limit = 0xFFFFFFFF, seg_selector = 8, seg_type = 11,
     seg_present = 1, seg_dpl = 0, seg_db = 0, seg_s = 1, seg_l = 1, seg_g = 1, seg_avl = 0,
     seg_unusable = 0, seg_padding = 0\<rparr>"

definition sregs_64bit :: "kvm_sregs \<Rightarrow> kvm_sregs" where
  "sregs_64bit s = set_segments code_seg_64 data_seg_32
     (s\<lparr>sr_cr3 := 0x1000, sr_cr4 := sr_cr4 s OR CR4_PAE, sr_efer := sr_efer s OR (EFER_LME OR EFER_LMA),
       sr_cr0 := sr_cr0 s OR (CR0_PE OR CR0_PG)\<rparr>)"

definition regs_64bit :: "u64 \<Rightarrow> kvm_regs \<Rightarrow> kvm_regs" where
  "regs_64bit entry_point r = r\<lparr>rg_rflags := 2, rg_rip := entry_point, rg_rax := 0, rg_rbx := 0,
     rg_rsi := ZERO_PAGE_START\<rparr>"

definition setup_registers_with_entry :: "'v vcpu_ops \<Rightarrow> 'v \<Rightarrow> u64 \<Rightarrow> 'v result" where
  "setup_registers_with_entry K vcpu entry_point =
     update_registers K sregs_64bit (regs_64bit entry_point) vcpu"

definition setup_long_mode_with_entry ::
  "bool \<Rightarrow> 'v vcpu_ops \<Rightarrow> 'v \<Rightarrow> guest_memory \<Rightarrow> u64 \<Rightarrow> ('v \<times> guest_memory) result exec" where
  "setup_long_mode_with_entry oc K vcpu mem entry_point =
     try_bind (setup_page_tables_extended oc mem) (\<lambda>m1.
     try_bind (setup_gdt oc m1) (\<lambda>m2.
       Done (case setup_registers_with_entry K vcpu entry_point of
         Inl e \<Rightarrow> Inl e | Inr v' \<Rightarrow> Inr (v', m2))))"

section \<open>The register contract\<close>

text \<open>
  What \<open>KVM_SET_SREGS\<close> asks of a state, given the one it replaces: long mode is either on in all of its bits or
  off, a 64-bit code segment needs it, \<open>cr4\<close> has no bit that the processor may lack (none but \<open>PAE\<close>
  is new), and the base of the APIC is kept.
\<close>

definition sregs_valid :: "kvm_sregs \<Rightarrow> kvm_sregs \<Rightarrow> bool" where
  "sregs_valid old s \<longleftrightarrow> sr_cr4 s AND NOT (sr_cr4 old OR CR4_PAE) = 0 \<and> sr_apic_base s = sr_apic_base old \<and>
     (if sr_efer s AND EFER_LME \<noteq> 0 \<and> sr_cr0 s AND CR0_PG \<noteq> 0
      then sr_cr4 s AND CR4_PAE \<noteq> 0 \<and> sr_efer s AND EFER_LMA \<noteq> 0
      else sr_efer s AND EFER_LMA = 0 \<and> seg_l (sr_cs s) = 0)"

locale vcpu_regs =
  fixes K :: "'v vcpu_ops"
    and sregs :: "'v \<Rightarrow> kvm_sregs"
    and regs :: "'v \<Rightarrow> kvm_regs"
  assumes get_sregs: "vo_get_sregs K v = Inr (sregs v)"
    and get_regs: "vo_get_regs K v = Inr (regs v)"
    and set_sregs: "sregs_valid (sregs v) s \<Longrightarrow> \<exists>v'. vo_set_sregs K v s = Inr v' \<and> sregs v' = s \<and> regs v' = regs v"
    and set_regs: "\<exists>v'. vo_set_regs K v r = Inr v' \<and> regs v' = r \<and> sregs v' = sregs v"
begin

lemma update_ok:
  assumes "sregs_valid (sregs v) (f (sregs v))"
  shows "\<exists>v'. update_registers K f g v = Inr v' \<and> sregs v' = f (sregs v) \<and> regs v' = g (regs v)"
proof -
  obtain v1 where v1: "vo_set_sregs K v (f (sregs v)) = Inr v1" "sregs v1 = f (sregs v)" "regs v1 = regs v"
    using set_sregs [OF assms] by blast
  obtain v2 where "vo_set_regs K v1 (g (regs v)) = Inr v2" "regs v2 = g (regs v)" "sregs v2 = f (sregs v)"
    using set_regs [of v1 "g (regs v)"] v1(2) by auto
  with v1 show ?thesis by (simp add: update_registers_def get_sregs get_regs)
qed

end

record reg_file =
  rf_sregs :: kvm_sregs
  rf_regs :: kvm_regs

definition reg_ops :: "reg_file vcpu_ops" where
  "reg_ops = \<lparr>vo_get_sregs = (\<lambda>v. Inr (rf_sregs v)), 
     vo_set_sregs = (\<lambda>v s. if sregs_valid (rf_sregs v) s then Inr (v\<lparr>rf_sregs := s\<rparr>) else Inl ''Invalid argument (os error 22)''),
     vo_get_regs = (\<lambda>v. Inr (rf_regs v)), vo_set_regs = (\<lambda>v r. Inr (v\<lparr>rf_regs := r\<rparr>))\<rparr>"

interpretation rf: vcpu_regs reg_ops rf_sregs rf_regs
  by unfold_locales (simp_all add: reg_ops_def)

section \<open>The descriptor table\<close>

text \<open>A descriptor table entry as the processor decodes it into a segment register.\<close>

definition decode_descriptor :: "u16 \<Rightarrow> u64 \<Rightarrow> kvm_segment" where
  "decode_descriptor sel d =
     (let raw = (take_bit 16 d OR push_bit 16 (take_bit 4 (drop_bit 48 d))) in
      \<lparr>seg_base = take_bit 24 (drop_bit 16 d) OR push_bit 24 (take_bit 8 (drop_bit 56 d)),
       seg_limit = (if bit d 55 then ucast (push_bit 12 raw OR 0xFFF) else ucast raw),
       seg_selector = sel, seg_type = ucast (take_bit 4 (drop_bit 40 d)),
       seg_present = of_bool (bit d 47), seg_dpl = ucast (take_bit 2 (drop_bit 45 d)),
       seg_db = of_bool (bit d 54), seg_s = of_bool (bit d 44), seg_l = of_bool (bit d 53),
       seg_g = of_bool (bit d 55), seg_avl = of_bool (bit d 52), seg_unusable = 0, seg_padding = 0\<rparr>)"

text \<open>Loading a segment register sets the accessed bit of its type.\<close>

definition load_segment :: "(nat \<Rightarrow> u8) \<Rightarrow> kvm_dtable \<Rightarrow> u16 \<Rightarrow> kvm_segment" where
  "load_segment f gdt sel =
     (let e = decode_descriptor sel (from_le_bytes (mem_get f (unat (dt_base gdt) + unat sel) 8))
      in e\<lparr>seg_type := seg_type e OR 1\<rparr>)"

text \<open>Guest memory with the flat descriptor table.\<close>

definition gdt_bytes :: "(nat \<Rightarrow> u8) \<Rightarrow> nat \<Rightarrow> u8" where
  "gdt_bytes f = mem_upd (mem_upd (mem_upd f 0x4000 (to_le_bytes 8 (0 :: u64)))
     0x4008 (to_le_bytes 8 (0x00CF9A000000FFFF :: u64))) 0x4010 (to_le_bytes 8 (0x00CF92000000FFFF :: u64))"

lemma gdt_bytes_out: "a < 0x4000 \<or> 0x4018 \<le> a \<Longrightarrow> gdt_bytes f a = f a"
  by (auto simp: gdt_bytes_def mem_upd_out)

lemma gdt_bytes_idem [simp]: "gdt_bytes (gdt_bytes f) = gdt_bytes f"
  by (rule ext) (auto simp: gdt_bytes_def mem_upd_def)

lemma setup_gdt_32bit_ok:
  assumes "gm_wf m" and "gm_range m 0 0x5000"
  shows "setup_gdt_32bit oc m = Done (Inr (m\<lparr>gm_bytes := gdt_bytes (gm_bytes m)\<rparr>))"
proof -
  have "gm_range m 0x4000 8" "gm_range m 0x4008 8" "gm_range m 0x4010 8"
    using assms(2) by (simp_all add: gm_range_def)
  then show ?thesis using assms(1) by (simp add: setup_gdt_32bit_def write_u64_def write_slice_ok gdt_bytes_def)
qed

lemma flat_descriptors:
  "(decode_descriptor 8 0x00CF9A000000FFFF)\<lparr>seg_type := 0x0B\<rparr> = code_seg_32"
  "seg_type (decode_descriptor 8 0x00CF9A000000FFFF) = 0x0A"
  "(decode_descriptor 16 0x00CF92000000FFFF)\<lparr>seg_type := 0x03\<rparr> = data_seg_32"
  "seg_type (decode_descriptor 16 0x00CF92000000FFFF) = 0x02"
  by code_simp+

text \<open>A 32-bit segment that covers the first 4 GB from address 0, for the most privileged level.\<close>

definition flat_segment :: "kvm_segment \<Rightarrow> bool" where
  "flat_segment seg \<longleftrightarrow> seg_base seg = 0 \<and> seg_limit seg = 0xFFFFFFFF \<and> seg_g seg = 1 \<and> seg_db seg = 1 \<and> seg_l seg = 0 \<and>
     seg_s seg = 1 \<and> seg_present seg = 1 \<and> seg_dpl seg = 0 \<and> seg_unusable seg = 0"

text \<open>
  The state a processor is to start in: flat 32-bit protected mode with paging off, interrupts off,
  the entry point in the instruction pointer, the boot page in \<open>rsi\<close> and zero in \<open>ebx\<close>, \<open>ebp\<close> and \<open>edi\<close>, as
  the boot protocol of Linux asks; code segments that can be executed and read, data segments that can be
  written; and the cached segments are
  exactly what the processor would load from the descriptor table in guest memory at \<open>0x4000\<close>, so a later reload
  does not change them.
\<close>

definition protected_mode :: "kvm_sregs \<Rightarrow> kvm_regs \<Rightarrow> (nat \<Rightarrow> u8) \<Rightarrow> u64 \<Rightarrow> u64 \<Rightarrow> bool" where
  "protected_mode s r f entry_point bp \<longleftrightarrow>
     sr_cr0 s = CR0_PE \<and> sr_efer s = 0 \<and> sr_cr3 s = 0 \<and> sr_cr4 s = 0 \<and> rg_rip r = entry_point \<and> rg_rsi r = bp \<and>
     rg_rbx r = 0 \<and> rg_rbp r = 0 \<and> rg_rdi r = 0 \<and>
     rg_rflags r = 2 \<and> rg_rsp r = 0x90000 \<and> dt_base (sr_gdt s) = 0x4000 \<and> dt_limit (sr_gdt s) + 1 = 3 * 8 \<and>
     flat_segment (sr_cs s) \<and> seg_type (sr_cs s) AND 0xA = 0xA \<and>
     (\<forall>seg \<in> {sr_ds s, sr_es s, sr_fs s, sr_gs s, sr_ss s}. flat_segment seg \<and> seg_type seg AND 0xA = 2) \<and>
     sr_cs s = load_segment f (sr_gdt s) (seg_selector (sr_cs s)) \<and>
     (\<forall>seg \<in> {sr_ds s, sr_es s, sr_fs s, sr_gs s, sr_ss s}.
        seg = load_segment f (sr_gdt s) (seg_selector seg))"

lemma protected_mode_registers:
  "protected_mode (sregs_32bit s) (regs_32bit entry_point bp r) (gdt_bytes f) entry_point bp"
proof -
  have "mem_get (gdt_bytes f) 0x4008 8 = to_le_bytes 8 (0x00CF9A000000FFFF :: u64)"
    "mem_get (gdt_bytes f) 0x4010 8 = to_le_bytes 8 (0x00CF92000000FFFF :: u64)"
    by (simp_all add: gdt_bytes_def mem_get_upd_disjoint)
  then have segs: "load_segment (gdt_bytes f) \<lparr>dt_base = 0x4000, dt_limit = 23\<rparr> 8 = code_seg_32"
    "load_segment (gdt_bytes f) \<lparr>dt_base = 0x4000, dt_limit = 23\<rparr> 0x10 = data_seg_32"
    using flat_descriptors by (simp_all add: load_segment_def Let_def)
  have flat: "flat_segment code_seg_32" "flat_segment data_seg_32" "seg_type code_seg_32 AND 0xA = 0xA" "seg_type data_seg_32 AND 0xA = 2"
    "seg_selector code_seg_32 = 8" "seg_selector data_seg_32 = 0x10"
    by (simp_all add: code_seg_32_def data_seg_32_def flat_segment_def)
  show ?thesis
    using segs by (simp add: protected_mode_def sregs_32bit_def regs_32bit_def set_segments_def flat)
qed

lemma sregs_32bit_valid: "sregs_valid s (sregs_32bit s)"
  by (simp_all add: sregs_valid_def sregs_32bit_def set_segments_def code_seg_32_def)

context vcpu_regs
begin

lemma setup_long_mode_ok:
  assumes "gm_wf m" and "gm_range m 0 0x5000"
  shows "\<exists>v'. setup_long_mode oc K v m entry_point bp = Done (Inr (v', m\<lparr>gm_bytes := gdt_bytes (gm_bytes m)\<rparr>)) \<and>
    protected_mode (sregs v') (regs v') (gdt_bytes f) entry_point bp"
  using update_ok [of v sregs_32bit "regs_32bit entry_point bp", OF sregs_32bit_valid] protected_mode_registers
  by (auto simp: setup_long_mode_def setup_protected_mode_32bit_def setup_gdt_32bit_ok [OF assms]
      setup_registers_32bit_def)

end

text \<open>
  C27. The state a processor starts in, for any KVM that keeps registers and accepts valid ones, and both
  build profiles: it is set up in flat 32-bit protected mode at the given entry point, paging off, all
  segments from address 0 to 4 GB and of 32 bits, code executable and data writable, the registers as
  the boot protocol of Linux asks; the descriptor table in guest memory at \<open>0x4000\<close> is one that its segments
  come from, and nothing else in guest memory changes.
\<close>

theorem protected_mode_entry:
  assumes "vcpu_regs K sregs regs" and "gm_wf m" and "gm_range m 0 0x5000"
  shows "\<exists>v' m'. setup_long_mode oc K v m entry_point bp = Done (Inr (v', m')) \<and>
    protected_mode (sregs v') (regs v') (gm_bytes m') entry_point bp \<and>
    (\<forall>a. a < 0x4000 \<or> 0x4018 \<le> a \<longrightarrow> gm_bytes m' a = gm_bytes m a)"
  using vcpu_regs.setup_long_mode_ok [OF assms, of oc v entry_point bp "gm_bytes m"]
  by (fastforce simp: gdt_bytes_out)

definition zero_seg :: kvm_segment where
  "zero_seg = ldt_seg\<lparr>seg_unusable := 0, seg_type := 0\<rparr>"

definition reset_state :: reg_file where
  "reset_state = \<lparr>rf_sregs = \<lparr>sr_cs = zero_seg, sr_ds = zero_seg, sr_es = zero_seg, sr_fs = zero_seg,
     sr_gs = zero_seg, sr_ss = zero_seg, sr_tr = zero_seg, sr_ldt = zero_seg,
     sr_gdt = \<lparr>dt_base = 0, dt_limit = 0xFFFF\<rparr>, sr_idt = \<lparr>dt_base = 0, dt_limit = 0xFFFF\<rparr>,
     sr_cr0 = 0x60000010, sr_cr2 = 0, sr_cr3 = 0, sr_cr4 = 0, sr_cr8 = 0, sr_efer = 0,
     sr_apic_base = 0xFEE00900\<rparr>,
     rf_regs = \<lparr>rg_rax = 0, rg_rbx = 0, rg_rcx = 0, rg_rdx = 0, rg_rsi = 0, rg_rdi = 0, rg_rsp = 0,
     rg_rbp = 0, rg_high = replicate 8 0, rg_rip = 0xFFF0, rg_rflags = 2\<rparr>\<rparr>"

definition ram_128m :: guest_memory where
  "ram_128m = \<lparr>gm_ptr = 4096, gm_len = 0x8000000, gm_owned = True, gm_mapped = 0x8000000,
     gm_bytes = (\<lambda>_. 0)\<rparr>"

lemma ram_128m_ok: "gm_wf ram_128m" "gm_range ram_128m 0 0x5000"
  by (simp_all add: ram_128m_def gm_wf_def gm_range_def)

theorem protected_mode_entry_witness:
  "\<exists>v' m'. setup_long_mode True reg_ops reset_state ram_128m 0x100000 0x7000 = Done (Inr (v', m')) \<and>
    rg_rip (rf_regs v') = 0x100000 \<and> flat_segment (sr_cs (rf_sregs v')) \<and> sr_cs (rf_sregs v') =
      load_segment (gm_bytes m') (sr_gdt (rf_sregs v')) (seg_selector (sr_cs (rf_sregs v')))"
  using protected_mode_entry [OF rf.vcpu_regs_axioms ram_128m_ok, where oc = True and v = reset_state and entry_point = "0x100000" and bp = "0x7000"]
  by (auto simp: protected_mode_def)

section \<open>The page tables\<close>

text \<open>The processor's four-level page walk on the tables in guest memory.\<close>

definition pt_entry :: "(nat \<Rightarrow> u8) \<Rightarrow> nat \<Rightarrow> u64" where
  "pt_entry f a = from_le_bytes (mem_get f a 8)"

definition pt_frame :: "u64 \<Rightarrow> nat" where
  "pt_frame e = unat (e AND 0x000FFFFFFFFFF000)"

definition page_walk :: "(nat \<Rightarrow> u8) \<Rightarrow> u64 \<Rightarrow> nat \<Rightarrow> nat option" where
  "page_walk f cr3 va =
     (let e4 = pt_entry f (pt_frame cr3 + 8 * (va div 2 ^ 39 mod 512)) in
      if \<not> bit e4 0 then None else
      let e3 = pt_entry f (pt_frame e4 + 8 * (va div 2 ^ 30 mod 512)) in
      if \<not> bit e3 0 then None
      else if bit e3 7 then Some (unat (e3 AND 0x000FFFFFC0000000) + va mod 2 ^ 30) else
      let e2 = pt_entry f (pt_frame e3 + 8 * (va div 2 ^ 21 mod 512)) in
      if \<not> bit e2 0 then None
      else if bit e2 7 then Some (unat (e2 AND 0x000FFFFFFFE00000) + va mod 2 ^ 21) else
      let e1 = pt_entry f (pt_frame e2 + 8 * (va div 2 ^ 12 mod 512)) in
      if \<not> bit e1 0 then None else Some (pt_frame e1 + va mod 2 ^ 12))"

definition pd_entry :: "nat \<Rightarrow> u64" where
  "pd_entry i = of_nat i * 0x200000 OR 0x83"

lemma pd_entry_bits:
  assumes "i < 512"
  shows "bit (pd_entry i) 0" and "bit (pd_entry i) 7" and "unat (pd_entry i AND 0x000FFFFFFFE00000) = i * 0x200000"
proof -
  let ?w = "of_nat i :: u64" and ?M = "0x000FFFFFFFE00000 :: u64"
  have p: "?w * 0x200000 = push_bit 21 ?w" by (simp add: push_bit_eq_mult)
  show "bit (pd_entry i) 0" "bit (pd_entry i) 7"
    by (simp_all add: pd_entry_def p bit_or_iff)
  have M: "?M = push_bit 21 (mask 31)" by (simp add: push_bit_eq_mult mask_eq_exp_minus_1)
  have w: "?w = take_bit 9 ?w"
    using assms by (simp add: take_bit_of_nat take_bit_nat_eq_self)
  have "push_bit 21 ?w AND ?M = push_bit 21 ?w"
    unfolding M by (subst (1 2) w) (auto simp: bit_eq_iff bit_and_iff bit_push_bit_iff bit_mask_iff bit_take_bit_iff)
  moreover have "(0x83 :: u64) AND ?M = 0" by simp
  ultimately have "pd_entry i AND ?M = ?w * 0x200000"
    unfolding pd_entry_def p by (simp add: bit.conj_disj_distrib2)
  then show "unat (pd_entry i AND ?M) = i * 0x200000"
    using assms by (simp add: unat_word_ariths unat_of_nat_small)
qed

text \<open>The tables as segments of the memory image.\<close>

definition pd_seg :: "nat \<Rightarrow> usize \<times> bytes" where
  "pd_seg i = (0x3000 + of_nat i * 8, to_le_bytes 8 (pd_entry i))"

definition page_table_segs :: "(usize \<times> bytes) list" where
  "page_table_segs = (0x1000, to_le_bytes 8 (0x2003 :: u64)) # (0x2000, to_le_bytes 8 (0x3003 :: u64)) #
     map pd_seg [0..<512]"

lemma write_pd_segs: "write_pd oc is m = gm.write_segs oc (map pd_seg is) m"
  by (induction "is" arbitrary: m) (simp_all add: write_u64_def pd_seg_def pd_entry_def Let_def)

lemma setup_page_tables_segs: "setup_page_tables_extended oc m = gm.write_segs oc page_table_segs m"
  by (simp add: setup_page_tables_extended_def page_table_segs_def write_pd_segs write_u64_def del: upt.simps upt_rec_numeral)

lemma pd_seg_addr: "i < 512 \<Longrightarrow> unat (fst (pd_seg i)) = 0x3000 + 8 * i"
  by (simp add: pd_seg_def unat_word_ariths unat_of_nat_small)

lemma page_table_seg_cases:
  assumes "s \<in> set page_table_segs"
  obtains "s = (0x1000, to_le_bytes 8 (0x2003 :: u64))" | "s = (0x2000, to_le_bytes 8 (0x3003 :: u64))"
    | i where "i < 512" and "s = pd_seg i"
  using assms by (auto simp: page_table_segs_def simp del: upt.simps upt_rec_numeral)

lemma page_tables_in:
  assumes "s \<in> set page_table_segs"
  shows "unat (fst s) + length (snd s) \<le> 0x4000" and "length (snd s) = 8"
  using assms by (cases rule: page_table_seg_cases; simp add: pd_seg_addr; simp add: pd_seg_def)+

lemma pd_seg_length: "length (snd (pd_seg i)) = 8"
  by (simp add: pd_seg_def)

lemma page_tables_apart:
  "sorted_wrt (\<lambda>s t. unat (fst s) + length (snd s) \<le> unat (fst t) \<or> unat (fst t) + length (snd t) \<le> unat (fst s))
     page_table_segs" (is "sorted_wrt ?R _")
proof -
  have "sorted_wrt (\<lambda>i j. ?R (pd_seg i) (pd_seg j)) [0..<512]"
  proof (rule sorted_wrt_mono_rel [OF _ sorted_wrt_upt])
    fix i j :: nat assume "i \<in> set [0..<512]" "j \<in> set [0..<512]" "i < j"
    then show "?R (pd_seg i) (pd_seg j)" by (simp add: pd_seg_addr pd_seg_length)
  qed
  then have pd: "sorted_wrt ?R (map pd_seg [0..<512])" by (simp only: sorted_wrt_map)
  have "0x3000 \<le> unat (fst s)" if "s \<in> set (map pd_seg [0..<512])" for s
    using that by (auto simp: pd_seg_addr simp del: upt.simps upt_rec_numeral)
  then have after: "\<And>s. s \<in> set (map pd_seg [0..<512]) \<Longrightarrow> ?R (0x1000, to_le_bytes 8 (0x2003 :: u64)) s"
    "\<And>s. s \<in> set (map pd_seg [0..<512]) \<Longrightarrow> ?R (0x2000, to_le_bytes 8 (0x3003 :: u64)) s"
    by fastforce+
  show ?thesis
    unfolding page_table_segs_def sorted_wrt.simps
  proof (intro conjI ballI pd)
    fix s assume "s \<in> set ((0x2000, to_le_bytes 8 (0x3003 :: u64)) # map pd_seg [0..<512])"
    then consider "s = (0x2000, to_le_bytes 8 (0x3003 :: u64))" | "s \<in> set (map pd_seg [0..<512])"
      by (auto simp only: set_simps)
    then show "?R (0x1000, to_le_bytes 8 (0x2003 :: u64)) s" by cases (simp, rule after(1))
  qed (rule after(2), simp_all)
qed

lemma page_tables_read:
  assumes "gm_wf m" and "gm_range m 0 0x4000"
  shows "\<exists>m'. setup_page_tables_extended oc m = Done (Inr m') \<and> gm_wf m' \<and> gm_len m' = gm_len m \<and>
    (\<forall>s \<in> set page_table_segs. mem_get (gm_bytes m') (unat (fst s)) 8 = snd s)"
proof -
  have fit: "unat (fst s) + length (snd s) \<le> unat (gm_len m)" if "s \<in> set page_table_segs" for s
    using page_tables_in(1) [OF that] assms(2) by (simp add: gm_range_def)
  obtain m' where m': "gm.write_segs oc page_table_segs m = Done (Inr m')" "gm_wf m'" "gm_len m' = gm_len m"
    using gm_write_segs_ok [OF assms(1) fit] by (metis word_unat_eq_iff)
  have "mem_get (gm_bytes m') (unat (fst s)) 8 = snd s" if s: "s \<in> set page_table_segs" for s
  proof -
    have "read_slice oc m' (fst s) 8 = Done (Inr (snd s))"
      using gm_write_segs_read [OF assms(1) fit page_tables_apart m'(1) s] page_tables_in(2) [OF s] by simp
    moreover have "gm_range m' (fst s) (unat (8 :: usize))"
      using fit [OF s] page_tables_in(2) [OF s] m'(3) by (simp add: gm_range_def)
    ultimately show ?thesis using m'(2) by (simp add: read_slice_ok)
  qed
  with m' setup_page_tables_segs [of oc m] show ?thesis by auto
qed

lemma page_walk_identity:
  assumes "pt_entry f 0x1000 = 0x2003" and "pt_entry f 0x2000 = 0x3003"
    and "\<And>i. i < 512 \<Longrightarrow> pt_entry f (0x3000 + 8 * i) = pd_entry i" and "va < 2 ^ 30"
  shows "page_walk f 0x1000 va = Some va"
proof -
  let ?i = "va div 2 ^ 21"
  have i: "?i < 512" using assms(4) by (simp add: less_mult_imp_div_less)
  have z: "va div 2 ^ 39 = 0" "va div 2 ^ 30 = 0" using assms(4) by simp_all
  have fr: "pt_frame 0x1000 = 0x1000" "pt_frame 0x2003 = 0x2000" "pt_frame 0x3003 = 0x3000"
    by (simp_all add: pt_frame_def)
  have b: "bit (0x2003 :: u64) 0" "bit (0x3003 :: u64) 0" "\<not> bit (0x3003 :: u64) 7"
    by simp_all
  have "page_walk f 0x1000 va = Some (unat (pd_entry ?i AND 0x000FFFFFFFE00000) + va mod 2 ^ 21)"
    unfolding page_walk_def Let_def fr z mod_less [OF i] using assms(1-2) assms(3) [OF i] b pd_entry_bits(1,2) [OF i]
    by (simp add: fr)
  also have "\<dots> = Some va"
    using pd_entry_bits(3) [OF i] div_mult_mod_eq [of va "2 ^ 21"] by simp
  finally show ?thesis .
qed

lemma sregs_64bit_valid: "sregs_valid s (sregs_64bit s)"
proof -
  have pae: "(x OR CR4_PAE) AND CR4_PAE \<noteq> 0" and lme: "(x OR (EFER_LME OR EFER_LMA)) AND EFER_LME \<noteq> 0"
    and lma: "(x OR (EFER_LME OR EFER_LMA)) AND EFER_LMA \<noteq> 0" and pg: "(x OR (CR0_PE OR CR0_PG)) AND CR0_PG \<noteq> 0" for x :: u64
    by (simp_all add: CR4_PAE_def EFER_LME_def EFER_LMA_def CR0_PE_def CR0_PG_def bit.conj_disj_distrib2 or_eq_0_iff)
  have cr4: "(x OR CR4_PAE) AND NOT (x OR CR4_PAE) = 0" for x :: u64 by (rule bit.conj_cancel_right)
  show ?thesis unfolding sregs_valid_def sregs_64bit_def set_segments_def by (simp del: bit.de_Morgan_disj add: cr4 pae lme lma pg CR4_PAE_def [THEN arg_cong, of "\<lambda>x. x \<noteq> 0"])
qed

text \<open>
  C28. The page tables for long mode map the first gigabyte onto itself: the processor's page walk from
  the root that is loaded into \<open>cr3\<close> takes every virtual address below 1 GB to the same physical
  address, in both build profiles and whatever was in memory before.
\<close>

theorem page_tables_identity:
  assumes "vcpu_regs K sregs regs" and "gm_wf m" and "gm_range m 0 0x5000" and "va < 2 ^ 30"
  shows "\<exists>v' m'. setup_long_mode_with_entry oc K v m entry_point = Done (Inr (v', m')) \<and>
    sr_cr3 (sregs v') = 0x1000 \<and> bit (sr_cr0 (sregs v')) 31 \<and> bit (sr_efer (sregs v')) 10 \<and>
    page_walk (gm_bytes m') (sr_cr3 (sregs v')) va = Some va"
proof -
  have r4: "gm_range m 0 0x4000" using assms(3) by (rule gm_range_mono) simp
  obtain m1 where m1: "setup_page_tables_extended oc m = Done (Inr m1)" "gm_wf m1" "gm_len m1 = gm_len m"
    "\<And>s. s \<in> set page_table_segs \<Longrightarrow> mem_get (gm_bytes m1) (unat (fst s)) 8 = snd s"
    using page_tables_read [OF assms(2) r4, of oc] by blast
  have "gm_range m1 0x4000 8" "gm_range m1 0x4008 8" "gm_range m1 0x4010 8"
    using assms(3) m1(3) by (simp_all add: gm_range_def)
  then obtain f where f: "setup_gdt oc m1 = Done (Inr (m1\<lparr>gm_bytes := f\<rparr>))"
    "\<And>a. a + 8 \<le> 0x4000 \<Longrightarrow> mem_get f a 8 = mem_get (gm_bytes m1) a 8"
    using m1(2) by (simp add: setup_gdt_def write_u64_def write_slice_ok mem_get_upd_disjoint)
  have seg: "pt_entry f (unat (fst s)) = from_le_bytes (snd s)" if "s \<in> set page_table_segs" for s
    using f(2) [of "unat (fst s)"] m1(4) [OF that] page_tables_in [OF that] by (simp add: pt_entry_def)
  have "pt_entry f (0x3000 + 8 * i) = pd_entry i" if "i < 512" for i
    using seg [of "pd_seg i"] that pd_seg_addr [OF that]
    by (simp add: page_table_segs_def pd_seg_def del: upt.simps upt_rec_numeral)
  moreover have "pt_entry f 0x1000 = 0x2003" "pt_entry f 0x2000 = 0x3003"
    using seg [of "(0x1000, to_le_bytes 8 (0x2003 :: u64))"] seg [of "(0x2000, to_le_bytes 8 (0x3003 :: u64))"]
    by (simp_all add: page_table_segs_def)
  ultimately have walk: "page_walk f 0x1000 va = Some va" using assms(4) by (intro page_walk_identity)
  obtain v' where "update_registers K sregs_64bit (regs_64bit entry_point) v = Inr v'"
    "sregs v' = sregs_64bit (sregs v)"
    using vcpu_regs.update_ok [OF assms(1), of v sregs_64bit, OF sregs_64bit_valid] by blast
  then show ?thesis
    using m1(1) f(1) walk
    by (simp add: setup_long_mode_with_entry_def setup_registers_with_entry_def sregs_64bit_def set_segments_def
        bit_or_iff CR0_PE_def CR0_PG_def EFER_LME_def EFER_LMA_def)
qed

theorem page_tables_identity_witness:
  "\<exists>v' m'. setup_long_mode_with_entry False reg_ops reset_state ram_128m 0x100000 = Done (Inr (v', m')) \<and>
    page_walk (gm_bytes m') (sr_cr3 (rf_sregs v')) 0x12345678 = Some 0x12345678"
  using page_tables_identity [OF rf.vcpu_regs_axioms ram_128m_ok, of "0x12345678" False reset_state "0x100000"]
  by auto


end
