(* ===== verification/Ax_Machine.thy ===== *)
theory Ax_Machine
  imports Ax_Net_Env Ax_Serial Ax_Metrics
begin

text \<open>
  The vCPU loop (\<open>run_vcpu\<close> of \<open>src/axvm_core/src/main.rs\<close>) and the machine its threads share.

  What KVM hands to the loop (an exit with its data, or an error number) is the input of a step;
  what the step gives back is the data for the guest. A lock is a flag: it can be poisoned by a
  thread that panicked while it held it, and a \<open>try_lock\<close> can find it taken, which is part of the
  input. A handler runs under the locks it takes and is one step of its thread; the check of the stop
  flag, the network poll and the handling of an exit are separate steps, so threads interleave
  between them. The locks do not stop the guest: the other processors go on, and what they store
  while a handler works on guest memory is the parameter \<open>E\<close>. The interrupt lines that are raised and lowered are kept as a log.
\<close>

section \<open>State\<close>

definition VIRTIO_MMIO_BASE :: u64 where "VIRTIO_MMIO_BASE = 0xFEB00000"
definition VIRTIO_MMIO_SIZE :: u64 where "VIRTIO_MMIO_SIZE = 0x1000"
definition VIRTIO_NET_MMIO_BASE :: u64 where "VIRTIO_NET_MMIO_BASE = 0xFEB10000"
definition VIRTIO_NET_MMIO_SIZE :: u64 where "VIRTIO_NET_MMIO_SIZE = 0x1000"

lemmas mmio_windows =
  VIRTIO_MMIO_BASE_def VIRTIO_MMIO_SIZE_def VIRTIO_NET_MMIO_BASE_def VIRTIO_NET_MMIO_SIZE_def

record ('f, 'p) machine =
  mc_mem :: guest_memory
  mc_blk :: "'f virtio_block"
  mc_net :: "'p virtio_net"
  mc_metrics :: vm_metrics
  mc_out :: bytes
  mc_irqs :: "(nat \<times> bool) list"
  mc_stop :: bool
  mc_mem_poisoned :: bool
  mc_net_poisoned :: bool

datatype vcpu_exit =
    IoOut u16 bytes
  | IoIn u16 bytes
  | MmioRead u64 bytes
  | MmioWrite u64 bytes
  | Hlt
  | Shutdown
  | Other_Exit

text \<open>\<open>vcpu.run()\<close>: an exit, or an error with its number.\<close>

datatype run_result = Run_Exit vcpu_exit | Run_Err nat

text \<open>The hosts of the devices: the file system, the network interface, the interrupt controller.\<close>

record ('f, 'p) host =
  h_file :: "'f file_ops"
  h_tap :: "'p tap_ops"
  h_irq_ok :: "nat \<Rightarrow> bool \<Rightarrow> bool"

section \<open>Effects\<close>

definition count_metric :: "(vm_metrics \<Rightarrow> vm_metrics) \<Rightarrow> ('f, 'p) machine \<Rightarrow> ('f, 'p) machine" where
  "count_metric f s = s\<lparr>mc_metrics := f (mc_metrics s)\<rparr>"

definition set_irq_line :: "('f, 'p) host \<Rightarrow> nat \<Rightarrow> bool \<Rightarrow> ('f, 'p) machine \<Rightarrow> bool \<times> ('f, 'p) machine" where
  "set_irq_line H irq level s =
     (if h_irq_ok H irq level then (True, s\<lparr>mc_irqs := mc_irqs s @ [(irq, level)]\<rparr>) else (False, s))"

text \<open>The block device's interrupt: a failure to raise the line is counted as an error.\<close>

definition blk_irq :: "('f, 'p) host \<Rightarrow> ('f, 'p) machine \<Rightarrow> ('f, 'p) machine" where
  "blk_irq H s =
     (let (ok, s1) = set_irq_line H 5 True s;
          s2 = (if ok then s1 else count_metric record_error s1)
      in snd (set_irq_line H 5 False s2))"

definition net_irq :: "('f, 'p) host \<Rightarrow> ('f, 'p) machine \<Rightarrow> ('f, 'p) machine" where
  "net_irq H s = snd (set_irq_line H 6 False (snd (set_irq_line H 6 True s)))"

section \<open>One iteration of the loop\<close>

text \<open>The network poll of processor 0, when both locks can be taken.\<close>

definition poll_queues ::
  "guest_env \<Rightarrow> bool \<Rightarrow> 'p tap_ops \<Rightarrow> 'p virtio_net \<Rightarrow> (bool \<times> 'p virtio_net) act" where
  "poll_queues E oc T n =
     act_bind (process_rx_env E oc T n) (\<lambda>(rx_work, n1).
     act_bind (process_tx_env E oc T n1) (\<lambda>(tx_work, n2). act_return (rx_work \<or> tx_work, n2)))"

definition poll_net ::
  "guest_env \<Rightarrow> bool \<Rightarrow> ('f, 'p) host \<Rightarrow> bool \<Rightarrow> bool \<Rightarrow> ('f, 'p) machine \<Rightarrow> ('f, 'p) machine run" where
  "poll_net E oc H mem_free net_free s =
     (if mem_free \<and> \<not> mc_mem_poisoned s \<and> net_free \<and> \<not> mc_net_poisoned s then
        run_map (\<lambda>((work, n2), v).
            let s' = s\<lparr>mc_net := n2, mc_mem := mv_mem v\<rparr> in
            if work \<and> should_interrupt n2 then net_irq H s' else s')
          (poll_queues E oc (h_tap H) (mc_net s) (view_of (mc_mem s)))
      else Some (Done s))"

text \<open>The check of the stop flag: \<open>None\<close> means that the loop is left. Then the poll, which only processor 0 makes.\<close>

definition loop_check :: "('f, 'p) machine \<Rightarrow> ('f, 'p) machine option" where
  "loop_check s = (if mc_stop s then None else Some (count_metric record_vcpu_run s))"

definition loop_poll ::
  "guest_env \<Rightarrow> bool \<Rightarrow> ('f, 'p) host \<Rightarrow> nat \<Rightarrow> bool \<Rightarrow> bool \<Rightarrow> ('f, 'p) machine \<Rightarrow> ('f, 'p) machine run" where
  "loop_poll E oc H cpu_id mem_free net_free s =
     (if cpu_id = 0 then poll_net E oc H mem_free net_free s else Some (Done s))"

text \<open>The part of an iteration before \<open>vcpu.run()\<close>.\<close>

definition loop_top ::
  "guest_env \<Rightarrow> bool \<Rightarrow> ('f, 'p) host \<Rightarrow> nat \<Rightarrow> bool \<Rightarrow> bool \<Rightarrow> ('f, 'p) machine \<Rightarrow>
   ('f, 'p) machine option run" where
  "loop_top E oc H cpu_id mem_free net_free s =
     (case loop_check s of None \<Rightarrow> Some (Done None)
      | Some s1 \<Rightarrow> run_bind (loop_poll E oc H cpu_id mem_free net_free s1) (\<lambda>s2. Some (Done (Some s2))))"

definition in_window :: "u64 \<Rightarrow> u64 \<Rightarrow> u64 \<Rightarrow> bool" where
  "in_window base sz addr \<longleftrightarrow> base \<le> addr \<and> addr < base + sz"

definition in_serial :: "u16 \<Rightarrow> bool" where
  "in_serial port \<longleftrightarrow> 0x3F8 \<le> port \<and> port < 0x3F8 + 8"

text \<open>The result of an exit: the machine, the data given back to the guest, whether the loop is left.\<close>

type_synonym ('f, 'p) exit_result = "('f, 'p) machine \<times> bytes \<times> bool"

definition exit_io_out :: "bool \<Rightarrow> u16 \<Rightarrow> bytes \<Rightarrow> ('f, 'p) machine \<Rightarrow> ('f, 'p) exit_result exec" where
  "exit_io_out oc port data s =
     (if in_serial port then
        exec_bind (serial_write oc port data) (\<lambda>out.
          Done (count_metric record_io_exit (s\<lparr>mc_out := mc_out s @ out\<rparr>), data, False))
      else Done (s, data, False))"

definition exit_io_in :: "bool \<Rightarrow> u16 \<Rightarrow> bytes \<Rightarrow> ('f, 'p) machine \<Rightarrow> ('f, 'p) exit_result exec" where
  "exit_io_in oc port data s =
     (if in_serial port then
        exec_bind (serial_read oc port) (\<lambda>v.
          Done (count_metric record_io_exit s, (if data \<noteq> [] then data[0 := v] else data), False))
      else Done (s, data, False))"

definition exit_mmio_read :: "u64 \<Rightarrow> bytes \<Rightarrow> ('f, 'p) machine \<Rightarrow> ('f, 'p) exit_result" where
  "exit_mmio_read addr data s =
     (if in_window VIRTIO_MMIO_BASE VIRTIO_MMIO_SIZE addr then
        (count_metric record_mmio_exit s, vb_read (mc_blk s) (addr - VIRTIO_MMIO_BASE) data, False)
      else if in_window VIRTIO_NET_MMIO_BASE VIRTIO_NET_MMIO_SIZE addr then
        (if mc_net_poisoned s then (s, data, False)
         else (count_metric record_mmio_exit s,
               vn_read (mc_net s) (addr - VIRTIO_NET_MMIO_BASE) data, False))
      else (s, data, False))"

definition exit_mmio_write ::
  "guest_env \<Rightarrow> bool \<Rightarrow> ('f, 'p) host \<Rightarrow> u64 \<Rightarrow> bytes \<Rightarrow> ('f, 'p) machine \<Rightarrow> ('f, 'p) exit_result run" where
  "exit_mmio_write E oc H addr data s =
     (if in_window VIRTIO_MMIO_BASE VIRTIO_MMIO_SIZE addr then
        run_bind
          (if mc_mem_poisoned s then Some (Done (False, count_metric record_error s))
           else run_bind (vb_write_env E oc (h_file H) (mc_blk s) (mc_mem s) (addr - VIRTIO_MMIO_BASE) data)
             (\<lambda>(r, d', m'). Some (Done (case r of Inr needs_irq \<Rightarrow> needs_irq | Inl _ \<Rightarrow> False,
                s\<lparr>mc_blk := d', mc_mem := m'\<rparr>))))
          (\<lambda>(irq_needed, s1).
             Some (Done (count_metric record_mmio_exit (if irq_needed then blk_irq H s1 else s1), data, False)))
      else if in_window VIRTIO_NET_MMIO_BASE VIRTIO_NET_MMIO_SIZE addr then
        (if mc_net_poisoned s then Some (Done (s, data, False))
         else (let (r, n') = vn_write (mc_net s) (addr - VIRTIO_NET_MMIO_BASE) data;
                   s1 = s\<lparr>mc_net := n'\<rparr>;
                   s2 = (case r of Inr needs_irq \<Rightarrow> if needs_irq then net_irq H s1 else s1 | Inl _ \<Rightarrow> s1)
               in Some (Done (count_metric record_mmio_exit s2, data, False))))
      else Some (Done (s, data, False)))"

definition handle_exit ::
  "guest_env \<Rightarrow> bool \<Rightarrow> ('f, 'p) host \<Rightarrow> vcpu_exit \<Rightarrow> ('f, 'p) machine \<Rightarrow> ('f, 'p) exit_result run" where
  "handle_exit E oc H ex s =
     (case ex of
        IoOut port data \<Rightarrow> Some (exit_io_out oc port data s)
      | IoIn port data \<Rightarrow> Some (exit_io_in oc port data s)
      | MmioRead addr data \<Rightarrow> Some (Done (exit_mmio_read addr data s))
      | MmioWrite addr data \<Rightarrow> exit_mmio_write E oc H addr data s
      | Hlt \<Rightarrow> if mc_stop s then Some (Done (s, [], True))
          else Some (Done (count_metric record_hlt_exit s, [], False))
      | Shutdown \<Rightarrow> Some (Done (s\<lparr>mc_stop := True\<rparr>, [], True))
      | Other_Exit \<Rightarrow> Some (Done (s, [], False)))"

text \<open>The part of an iteration from \<open>vcpu.run()\<close> on.\<close>

definition loop_run ::
  "guest_env \<Rightarrow> bool \<Rightarrow> ('f, 'p) host \<Rightarrow> run_result \<Rightarrow> ('f, 'p) machine \<Rightarrow> ('f, 'p) exit_result run" where
  "loop_run E oc H r s =
     (case r of
        Run_Exit ex \<Rightarrow> handle_exit E oc H ex (count_metric record_vcpu_exit s)
      | Run_Err errno \<Rightarrow>
          if errno = 11 then Some (Done (s, [], False))
          else if errno = 4 then Some (Done (s, [], mc_stop s))
          else if mc_stop s then Some (Done (s, [], True))
          else Some (Done ((count_metric record_error s)\<lparr>mc_stop := True\<rparr>, [], True)))"

end
