(* ===== verification/Ax_Threads.thy ===== *)
theory Ax_Threads
  imports Ax_Machine "HOL-Library.Sublist"
begin

text \<open>
  The vCPU threads of the machine, interleaved in any order: what stays true whatever the guest, the
  host and the scheduler do, and how the machine stops.

  The locale \<open>guest_device\<close> is what the machine relies on of a device behind an MMIO window; it is
  interpreted on the block and on the network device.
\<close>

section \<open>The contract of a device\<close>

locale guest_device =
  fixes wr :: "'d \<Rightarrow> guest_memory \<Rightarrow> u64 \<Rightarrow> bytes \<Rightarrow> ('r \<times> 'd \<times> guest_memory) run"
    and rd :: "'d \<Rightarrow> u64 \<Rightarrow> bytes \<Rightarrow> bytes"
    and inv :: "'d \<Rightarrow> bool"
  assumes wr_inv: "inv d \<Longrightarrow> wr d m off data = Some (Done (r, d', m')) \<Longrightarrow> inv d'"
    and wr_shape: "wr d m off data = Some (Done (r, d', m')) \<Longrightarrow> same_shape m m'"
    and rd_length: "length (rd d off data) = length data"
begin

text \<open>A driver's sequence of register accesses.\<close>

fun access_seq :: "(u64 \<times> bytes) list \<Rightarrow> 'd \<Rightarrow> guest_memory \<Rightarrow> ('d \<times> guest_memory) run" where
  "access_seq [] d m = Some (Done (d, m))"
| "access_seq ((off, data) # as) d m = run_bind (wr d m off data) (\<lambda>(r, d', m'). access_seq as d' m')"

lemma access_seq_keeps:
  "inv d \<Longrightarrow> access_seq as d m = Some (Done (d', m')) \<Longrightarrow> inv d' \<and> same_shape m m'"
proof (induction "as" arbitrary: d m)
  case (Cons a as)
  obtain off data where a: "a = (off, data)" by fastforce
  from Cons.prems(2) obtain r d1 m1 where s: "wr d m off data = Some (Done (r, d1, m1))"
    "access_seq as d1 m1 = Some (Done (d', m'))" by (auto simp: a)
  have "inv d1" using wr_inv [OF Cons.prems(1) s(1)] .
  with Cons.IH [OF _ s(2)] wr_shape [OF s(1)] show ?case by (blast intro: same_shape_trans)
qed simp

end

lemma vb_read_length: "length (vb_read d off data) = length data"
  by (simp add: vb_read_def Let_def)

lemma vn_read_length: "length (vn_read d off data) = length data"
  by (simp add: vn_read_def Let_def)

interpretation vblk: guest_device "vb_write_env E oc F" vb_read blk_inv
  for E :: guest_env and oc :: bool and F :: "'f file_ops"
  by unfold_locales (auto dest: vb_write_env_frame simp: vb_read_length)

interpretation vnet: guest_device
  "\<lambda>d m off data. Some (Done (fst (vn_write d off data), snd (vn_write d off data), m))" vn_read net_inv
proof unfold_locales
  fix d d' :: "'p virtio_net" and m m' :: guest_memory and off data r
  assume "net_inv d"
  moreover assume "Some (Done (fst (vn_write d off data), snd (vn_write d off data), m)) = Some (Done (r, d', m'))"
  ultimately show "net_inv d'" using vn_write_inv [of d off data] by (metis exec.inject(2) option.inject prod.inject surjective_pairing)
qed (simp_all add: vn_read_length)

section \<open>Threads\<close>

text \<open>
  Where a thread is: before the check of the stop flag; past it, before or in the poll; in \<open>vcpu.run()\<close> or
  handling its exit; at its end, by leaving the loop or by a panic. Three more states are never left: the thread
  is in an endless loop of the poll or of a handler, with its locks held, or it waits for a lock that such a
  thread holds.
\<close>

datatype thread = Ready | Polling | Running | Stopped | Panicked | Poll_Hung | Exit_Hung | Blocked

type_synonym ('f, 'p) system = "('f, 'p) machine \<times> thread list"

text \<open>The locks that hung threads hold: the memory lock in both cases, that of the network device in a poll.\<close>

definition mem_held :: "thread list \<Rightarrow> bool" where
  "mem_held ts \<longleftrightarrow> Poll_Hung \<in> set ts \<or> Exit_Hung \<in> set ts"

definition net_held :: "thread list \<Rightarrow> bool" where
  "net_held ts \<longleftrightarrow> Poll_Hung \<in> set ts"

text \<open>
  When a \<open>try_lock\<close> may say what it says: it finds no lock that a hung thread holds, and it fails only if
  such a thread holds the lock or another thread may be in a handler.
\<close>

definition try_locks :: "thread list \<Rightarrow> nat \<Rightarrow> bool \<Rightarrow> bool \<Rightarrow> bool" where
  "try_locks ts i mf nf \<longleftrightarrow> (mf \<longrightarrow> \<not> mem_held ts) \<and> (nf \<longrightarrow> \<not> net_held ts) \<and>
     (\<not> mf \<or> \<not> nf \<longrightarrow> mem_held ts \<or> (\<exists>j < length ts. j \<noteq> i \<and> ts ! j = Running))"

text \<open>Exits whose handler waits for a lock of a hung thread.\<close>

fun exit_waits :: "thread list \<Rightarrow> run_result \<Rightarrow> bool" where
  "exit_waits ts (Run_Exit (MmioWrite addr data)) \<longleftrightarrow>
     (if in_window VIRTIO_MMIO_BASE VIRTIO_MMIO_SIZE addr then mem_held ts
      else in_window VIRTIO_NET_MMIO_BASE VIRTIO_NET_MMIO_SIZE addr \<and> net_held ts)"
| "exit_waits ts (Run_Exit (MmioRead addr data)) \<longleftrightarrow>
     \<not> in_window VIRTIO_MMIO_BASE VIRTIO_MMIO_SIZE addr \<and>
     in_window VIRTIO_NET_MMIO_BASE VIRTIO_NET_MMIO_SIZE addr \<and> net_held ts"
| "exit_waits ts _ \<longleftrightarrow> False"

text \<open>
  A step is labelled with the thread that takes it; the environment's steps have no label: the guest
  stores to its memory while a processor runs, a thread in an endless loop works on, and the user asks to stop. While a handler works, the
  guest may store before each of its accesses to memory, whatever it likes (\<open>E\<close>). A panic poisons the locks
  that the thread holds; it may leave a batch half done, so the memory, the disk and the position in
  the available ring are then arbitrary, and so they are while a handler does not return. What a hung poll does to the
  network device stays behind the lock of the device. Undefined behaviour has no successor: what follows it is not described.
\<close>

definition half_done :: "'f virtio_block \<Rightarrow> 'f virtio_block \<Rightarrow> bool" where
  "half_done d d' \<longleftrightarrow> d'\<lparr>vb_disk := None, vb_last_avail_idx := 0\<rparr> = d\<lparr>vb_disk := None, vb_last_avail_idx := 0\<rparr>"

lemma half_done_inv: "half_done d d' \<Longrightarrow> blk_inv d \<Longrightarrow> blk_inv d'"
  unfolding half_done_def by (drule arg_cong [where f = vb_interrupt_status]) (simp add: blk_inv_def)

inductive sys_step ::
  "bool \<Rightarrow> ('f, 'p) host \<Rightarrow> nat option \<Rightarrow> ('f, 'p) system \<Rightarrow> ('f, 'p) system \<Rightarrow> bool"
  for oc H where
  check_go: "i < length ts \<Longrightarrow> ts ! i = Ready \<Longrightarrow> loop_check s = Some s' \<Longrightarrow>
     sys_step oc H (Some i) (s, ts) (s', ts[i := Polling])"
| check_stop: "i < length ts \<Longrightarrow> ts ! i = Ready \<Longrightarrow> loop_check s = None \<Longrightarrow>
     sys_step oc H (Some i) (s, ts) (s, ts[i := Stopped])"
| poll: "i < length ts \<Longrightarrow> ts ! i = Polling \<Longrightarrow> try_locks ts i mf nf \<Longrightarrow> loop_poll E oc H i mf nf s = Some (Done s') \<Longrightarrow>
     sys_step oc H (Some i) (s, ts) (s', ts[i := Running])"
| poll_panic: "i < length ts \<Longrightarrow> ts ! i = Polling \<Longrightarrow> try_locks ts i mf nf \<Longrightarrow> loop_poll E oc H i mf nf s = Some (Abort e) \<Longrightarrow>
     e \<noteq> Undefined_Behaviour \<Longrightarrow> same_shape (mc_mem s) m' \<Longrightarrow>
     sys_step oc H (Some i) (s, ts)
       (s\<lparr>mc_mem := m', mc_net := n', mc_mem_poisoned := True, mc_net_poisoned := True\<rparr>, ts[i := Panicked])"
| poll_hang: "i < length ts \<Longrightarrow> ts ! i = Polling \<Longrightarrow> try_locks ts i mf nf \<Longrightarrow> loop_poll E oc H i mf nf s = None \<Longrightarrow>
     same_shape (mc_mem s) m' \<Longrightarrow> sys_step oc H (Some i) (s, ts) (s\<lparr>mc_mem := m'\<rparr>, ts[i := Poll_Hung])"
| run: "i < length ts \<Longrightarrow> ts ! i = Running \<Longrightarrow> \<not> exit_waits ts r \<Longrightarrow> loop_run E oc H r s = Some (Done (s', data, brk)) \<Longrightarrow>
     sys_step oc H (Some i) (s, ts) (s', ts[i := if brk then Stopped else Ready])"
| run_panic: "i < length ts \<Longrightarrow> ts ! i = Running \<Longrightarrow> \<not> exit_waits ts r \<Longrightarrow> loop_run E oc H r s = Some (Abort e) \<Longrightarrow>
     e \<noteq> Undefined_Behaviour \<Longrightarrow> same_shape (mc_mem s) m' \<Longrightarrow> half_done (mc_blk s) d' \<Longrightarrow>
     sys_step oc H (Some i) (s, ts)
       ((count_metric record_vcpu_exit s)\<lparr>mc_mem := m', mc_blk := d', mc_mem_poisoned := True\<rparr>,
        ts[i := Panicked])"
| run_hang: "i < length ts \<Longrightarrow> ts ! i = Running \<Longrightarrow> \<not> exit_waits ts r \<Longrightarrow> loop_run E oc H r s = None \<Longrightarrow>
     same_shape (mc_mem s) m' \<Longrightarrow> half_done (mc_blk s) d' \<Longrightarrow>
     sys_step oc H (Some i) (s, ts)
       ((count_metric record_vcpu_exit s)\<lparr>mc_mem := m', mc_blk := d'\<rparr>, ts[i := Exit_Hung])"
| run_wait: "i < length ts \<Longrightarrow> ts ! i = Running \<Longrightarrow> exit_waits ts r \<Longrightarrow>
     sys_step oc H (Some i) (s, ts) (count_metric record_vcpu_exit s, ts[i := Blocked])"
| guest_store: "Running \<in> set ts \<or> mem_held ts \<Longrightarrow> same_shape (mc_mem s) m' \<Longrightarrow>
     sys_step oc H None (s, ts) (s\<lparr>mc_mem := m'\<rparr>, ts)"
| hung_work: "Exit_Hung \<in> set ts \<Longrightarrow> half_done (mc_blk s) d' \<Longrightarrow>
     sys_step oc H None (s, ts) (s\<lparr>mc_blk := d'\<rparr>, ts)"
| ctrl_c: "sys_step oc H None (s, ts) (s\<lparr>mc_stop := True\<rparr>, ts)"

text \<open>An execution, with the threads that have taken its steps, in order.\<close>

inductive sys_exec ::
  "bool \<Rightarrow> ('f, 'p) host \<Rightarrow> ('f, 'p) system \<Rightarrow> nat list \<Rightarrow> ('f, 'p) system \<Rightarrow> bool"
  for oc H c0 where
  exec_none: "sys_exec oc H c0 [] c0"
| exec_more: "sys_exec oc H c0 ls c \<Longrightarrow> sys_step oc H l c c' \<Longrightarrow>
     sys_exec oc H c0 (ls @ (case l of None \<Rightarrow> [] | Some i \<Rightarrow> [i])) c'"

inductive_cases ready_stepE: "sys_step oc H (Some i) (s, ts) c"

text \<open>\<open>main\<close> waits for its threads: each has returned or panicked.\<close>

definition joined :: "thread list \<Rightarrow> bool" where
  "joined ts \<longleftrightarrow> list_all (\<lambda>t. t = Stopped \<or> t = Panicked) ts"

text \<open>The states that are never left and are no end.\<close>

definition stuck :: "thread \<Rightarrow> bool" where
  "stuck t \<longleftrightarrow> t = Poll_Hung \<or> t = Exit_Hung \<or> t = Blocked"

section \<open>What a handler leaves alone\<close>

lemma count_metric_sel [simp]:
  "mc_mem (count_metric f s) = mc_mem s" "mc_blk (count_metric f s) = mc_blk s"
  "mc_net (count_metric f s) = mc_net s" "mc_out (count_metric f s) = mc_out s"
  "mc_irqs (count_metric f s) = mc_irqs s" "mc_stop (count_metric f s) = mc_stop s"
  "mc_mem_poisoned (count_metric f s) = mc_mem_poisoned s"
  "mc_net_poisoned (count_metric f s) = mc_net_poisoned s"
  "mc_metrics (count_metric f s) = f (mc_metrics s)"
  by (simp_all add: count_metric_def)

lemma irq_sel [simp]:
  "mc_mem (blk_irq H s) = mc_mem s" "mc_blk (blk_irq H s) = mc_blk s" "mc_net (blk_irq H s) = mc_net s"
  "mc_out (blk_irq H s) = mc_out s" "mc_stop (blk_irq H s) = mc_stop s"
  "mc_mem_poisoned (blk_irq H s) = mc_mem_poisoned s" "mc_net_poisoned (blk_irq H s) = mc_net_poisoned s"
  "mc_mem (net_irq H s) = mc_mem s" "mc_blk (net_irq H s) = mc_blk s" "mc_net (net_irq H s) = mc_net s"
  "mc_out (net_irq H s) = mc_out s" "mc_stop (net_irq H s) = mc_stop s"
  "mc_mem_poisoned (net_irq H s) = mc_mem_poisoned s" "mc_net_poisoned (net_irq H s) = mc_net_poisoned s"
  "mc_metrics (net_irq H s) = mc_metrics s"
  by (simp_all add: blk_irq_def net_irq_def set_irq_line_def)

lemma record_runs [simp]:
  "vcpu_runs (record_vcpu_exit m) = vcpu_runs m" "vcpu_runs (record_io_exit m) = vcpu_runs m"
  "vcpu_runs (record_mmio_exit m) = vcpu_runs m" "vcpu_runs (record_hlt_exit m) = vcpu_runs m"
  "vcpu_runs (record_error m) = vcpu_runs m"
  by (simp_all add: record_defs)

lemma blk_irq_runs [simp]: "vcpu_runs (mc_metrics (blk_irq H s)) = vcpu_runs (mc_metrics s)"
  by (simp add: blk_irq_def set_irq_line_def)

text \<open>The invariant of a machine, relative to the memory it started with.\<close>

definition machine_inv :: "guest_memory \<Rightarrow> ('f, 'p) machine \<Rightarrow> bool" where
  "machine_inv m0 s \<longleftrightarrow> same_shape m0 (mc_mem s) \<and> blk_inv (mc_blk s) \<and>
     (\<not> mc_net_poisoned s \<longrightarrow> net_inv (mc_net s))"

lemma poll_queues_ok:
  assumes "ub \<Longrightarrow> oc \<and> tap_reads_fit T \<and> length (vn_queues n) = 2 \<and> (\<forall>q \<in> set (vn_queues n). used_aligned m0 q)"
  shows "act_ok ub m0 (poll_queues E oc T n) (\<lambda>(_, n'). net_inv n \<longrightarrow> net_inv n')"
proof -
  let ?R = "\<lambda>(_ :: bool, n'). (net_inv n \<longrightarrow> net_inv n') \<and> map vq_used_addr (vn_queues n') = map vq_used_addr (vn_queues n)"
  have rx: "act_ok ub m0 (process_rx_env E oc T n) ?R"
    by (rule process_rx_ok_env) (use assms in auto)
  have al: "used_aligned m0 (vn_queues n' ! 1)"
    if "ub" "map vq_used_addr (vn_queues n') = map vq_used_addr (vn_queues n)" for n' :: "'a virtio_net"
  proof -
    have "length (vn_queues n') = length (vn_queues n)" using that(2) by (rule map_eq_imp_length_eq)
    with that(1) assms have "vq_used_addr (vn_queues n' ! 1) = vq_used_addr (vn_queues n ! 1)"
      using arg_cong [OF that(2), of "\<lambda>xs. xs ! 1"] by (simp add: nth_map del: One_nat_def)
    with that assms show ?thesis by (simp add: used_aligned_def)
  qed
  have tx: "act_ok ub m0 (process_tx_env E oc T n') (\<lambda>(_, n''). net_inv n' \<longrightarrow> net_inv n'')"
    if "map vq_used_addr (vn_queues n') = map vq_used_addr (vn_queues n)" for n'
    by (rule process_tx_ok_env) (use assms al that in auto)
  have "act_ok ub m0 (case x of (rx, n1) \<Rightarrow> act_bind (process_tx_env E oc T n1) (\<lambda>(tx, n2). act_return (rx \<or> tx, n2)))
      (\<lambda>(_, n'). net_inv n \<longrightarrow> net_inv n')" if "?R x" for x
    using that by (auto intro!: act_ok_bind [OF tx] act_ok_return)
  then show ?thesis unfolding poll_queues_def by (rule act_ok_bind [OF rx])
qed

lemma poll_net_inv:
  assumes "poll_net E oc H mf nf s = Some (Done s')" and "machine_inv m0 s"
  shows "machine_inv m0 s' \<and> mc_blk s' = mc_blk s \<and> mc_stop s' = mc_stop s \<and> mc_out s' = mc_out s \<and>
    mc_mem_poisoned s' = mc_mem_poisoned s \<and> mc_net_poisoned s' = mc_net_poisoned s \<and>
    mc_metrics s' = mc_metrics s"
proof (cases "mf \<and> \<not> mc_mem_poisoned s \<and> nf \<and> \<not> mc_net_poisoned s")
  case True
  from assms(1) True obtain w n v where
    p: "poll_queues E oc (h_tap H) (mc_net s) (view_of (mc_mem s)) = Some (Done ((w, n), v))"
      "s' = s\<lparr>mc_net := n, mc_mem := mv_mem v\<rparr> \<or> s' = net_irq H (s\<lparr>mc_net := n, mc_mem := mv_mem v\<rparr>)"
    by (auto simp: poll_net_def Let_def run_map_eq_Some split: if_splits)
  have "act_ok False m0 (poll_queues E oc (h_tap H) (mc_net s)) (\<lambda>(_, n'). net_inv (mc_net s) \<longrightarrow> net_inv n')"
    by (rule poll_queues_ok) simp
  from act_okD [OF this _ p(1)] assms(2) True have "same_shape m0 (mv_mem v)" "net_inv n"
    by (simp_all add: machine_inv_def)
  with p(2) assms(2) show ?thesis by (auto simp: machine_inv_def)
qed (use assms in \<open>auto simp: poll_net_def split: if_splits\<close>)

lemma loop_check_inv:
  "loop_check s = Some s' \<Longrightarrow> machine_inv m0 s \<Longrightarrow> machine_inv m0 s' \<and> \<not> mc_stop s \<and> mc_stop s' = mc_stop s \<and>
    mc_out s' = mc_out s \<and> mc_mem_poisoned s' = mc_mem_poisoned s \<and> mc_net_poisoned s' = mc_net_poisoned s"
  by (auto simp: loop_check_def machine_inv_def split: if_splits)

lemma loop_poll_inv:
  assumes "loop_poll E oc H i mf nf s = Some (Done s')" and "machine_inv m0 s"
  shows "machine_inv m0 s' \<and> mc_blk s' = mc_blk s \<and> mc_stop s' = mc_stop s \<and> mc_out s' = mc_out s \<and>
    mc_mem_poisoned s' = mc_mem_poisoned s \<and> mc_net_poisoned s' = mc_net_poisoned s"
  using assms poll_net_inv [of E oc H mf nf s s' m0] by (auto simp: loop_poll_def split: if_splits)

lemma exit_mmio_write_inv:
  assumes "exit_mmio_write E oc H addr data s = Some (Done (s', dt, brk))" and "machine_inv m0 s"
  shows "machine_inv m0 s' \<and> \<not> brk \<and> mc_stop s' = mc_stop s \<and> mc_out s' = mc_out s \<and>
    mc_mem_poisoned s' = mc_mem_poisoned s \<and> mc_net_poisoned s' = mc_net_poisoned s \<and>
    vcpu_runs (mc_metrics s') = vcpu_runs (mc_metrics s)"
proof -
  have blk: "same_shape m0 m' \<and> blk_inv d'"
    if "vb_write_env E oc (h_file H) (mc_blk s) (mc_mem s) off data = Some (Done (r, d', m'))" for off r d' m'
    using vblk.wr_inv [OF _ that] vblk.wr_shape [OF that] assms(2)
    by (auto simp: machine_inv_def intro: same_shape_trans)
  have net: "net_inv n'" if "\<not> mc_net_poisoned s" "vn_write (mc_net s) off data = (r, n')" for off r n'
    using that assms(2) vn_write_inv [of "mc_net s" off data r n'] by (simp add: machine_inv_def)
  show ?thesis
    using assms blk net
    by (auto simp: exit_mmio_write_def machine_inv_def Let_def split: if_splits prod.splits sum.splits)
qed

lemma loop_run_inv:
  assumes "loop_run E oc H r s = Some (Done (s', dt, brk))" and "machine_inv m0 s"
  shows "machine_inv m0 s' \<and> (mc_stop s \<longrightarrow> mc_stop s') \<and> (brk \<longrightarrow> mc_stop s') \<and> (\<exists>o2. mc_out s' = mc_out s @ o2) \<and>
    mc_mem_poisoned s' = mc_mem_poisoned s \<and> mc_net_poisoned s' = mc_net_poisoned s \<and>
    vcpu_runs (mc_metrics s') = vcpu_runs (mc_metrics s)"
proof -
  have inv: "machine_inv m0 (count_metric record_vcpu_exit s)" using assms(2) by (simp add: machine_inv_def)
  show ?thesis
  proof (cases r)
    case (Run_Exit ex)
    show ?thesis
    proof (cases ex)
      case (MmioWrite addr data)
      with Run_Exit assms(1) exit_mmio_write_inv [OF _ inv, of E oc H addr data s' dt brk] show ?thesis
        by (simp add: loop_run_def handle_exit_def)
    qed (use Run_Exit assms in \<open>auto simp: loop_run_def handle_exit_def exit_io_out_def exit_io_in_def
        exit_mmio_read_def machine_inv_def split: if_splits\<close>)
  qed (use assms in \<open>auto simp: loop_run_def machine_inv_def split: if_splits\<close>)
qed

section \<open>What every execution keeps\<close>

definition thread_states_ok :: "('f, 'p) machine \<Rightarrow> thread list \<Rightarrow> bool" where
  "thread_states_ok s ts \<longleftrightarrow> (Panicked \<in> set ts \<longrightarrow> mc_mem_poisoned s) \<and>
     (mc_net_poisoned s \<longrightarrow> mc_mem_poisoned s) \<and> (Stopped \<in> set ts \<longrightarrow> mc_stop s)"

lemma set_list_update: "x \<in> set (ts[i := y]) \<Longrightarrow> x = y \<or> x \<in> set ts"
  using set_update_subset_insert [of ts i y] by blast

lemma thread_states_update:
  assumes "thread_states_ok s ts"
    and "mc_mem_poisoned s \<longrightarrow> mc_mem_poisoned s'" "mc_net_poisoned s' \<longrightarrow> mc_net_poisoned s \<or> mc_mem_poisoned s'"
    and "mc_stop s \<longrightarrow> mc_stop s'" "t = Panicked \<longrightarrow> mc_mem_poisoned s'" "t = Stopped \<longrightarrow> mc_stop s'"
  shows "thread_states_ok s' (ts[i := t])"
  using assms by (auto simp: thread_states_ok_def dest!: set_list_update)

lemma sys_step_inv:
  assumes "sys_step oc H l (s, ts) (s', ts')" and "machine_inv m0 s" and "thread_states_ok s ts"
  shows "machine_inv m0 s' \<and> thread_states_ok s' ts' \<and> length ts' = length ts \<and>
    prefix (mc_out s) (mc_out s') \<and> (mc_stop s \<longrightarrow> mc_stop s')"
  using assms(1)
proof (cases rule: sys_step.cases)
  case (check_go i)
  with loop_check_inv [OF check_go(5) assms(2)] assms(3) show ?thesis by (auto intro: thread_states_update)
next
  case (check_stop i)
  then have "mc_stop s" by (auto simp: loop_check_def split: if_splits)
  with check_stop assms(2,3) show ?thesis by (auto intro: thread_states_update)
next
  case (poll i mf nf E)
  with loop_poll_inv [OF poll(6) assms(2)] assms(3) show ?thesis by (auto intro: thread_states_update)
next
  case (run i r E data brk)
  with loop_run_inv [OF run(6) assms(2)] assms(3) show ?thesis
    by (auto intro!: thread_states_update simp: prefix_def)
qed (use assms(2,3) in \<open>auto simp: machine_inv_def thread_states_ok_def intro: half_done_inv same_shape_trans dest!: set_list_update\<close>)

lemma sys_exec_inv:
  assumes "sys_exec oc H c0 ls c" and "machine_inv m0 (fst c0)" and "thread_states_ok (fst c0) (snd c0)"
  shows "machine_inv m0 (fst c) \<and> thread_states_ok (fst c) (snd c) \<and> length (snd c) = length (snd c0) \<and>
    prefix (mc_out (fst c0)) (mc_out (fst c)) \<and> (mc_stop (fst c0) \<longrightarrow> mc_stop (fst c))"
  using assms
proof (induction rule: sys_exec.induct)
  case (exec_more ls c l c')
  then show ?case using sys_step_inv [of oc H l "fst c" "snd c" "fst c'" "snd c'" m0]
    by (auto intro: prefix_order.trans)
qed simp

section \<open>Shutdown\<close>

text \<open>How many steps a thread can still take once the machine is to stop.\<close>

fun thread_weight :: "thread \<Rightarrow> nat" where
  "thread_weight Polling = 3"
| "thread_weight Running = 2"
| "thread_weight Ready = 1"
| "thread_weight _ = 0"

text \<open>A step changes the state of its own thread only, and of no thread that is at its end or stuck.\<close>

lemma sys_step_others:
  assumes "sys_step oc H l (s, ts) (s', ts')" and "l \<noteq> Some i"
  shows "ts' ! i = ts ! i"
  using assms(1) by (cases rule: sys_step.cases) (use assms(2) in \<open>simp_all add: nth_list_update_neq\<close>)

lemma sys_step_final:
  assumes "sys_step oc H l (s, ts) (s', ts')" and "thread_weight (ts ! i) = 0"
  shows "ts' ! i = ts ! i"
  using assms(1) by (cases rule: sys_step.cases) (use assms(2) in \<open>auto simp: nth_list_update\<close>)

lemma sys_step_stopped:
  assumes "sys_step oc H (Some i) (s, ts) (s', ts')" and "mc_stop s"
  shows "i < length ts \<and> thread_weight (ts' ! i) < thread_weight (ts ! i)"
  using assms by (cases rule: sys_step.cases) (auto simp: loop_check_def)

lemma exec_final:
  "sys_exec oc H c0 ls c \<Longrightarrow> thread_weight (snd c0 ! i) = 0 \<Longrightarrow> snd c ! i = snd c0 ! i"
proof (induction rule: sys_exec.induct)
  case (exec_more ls c l c')
  with sys_step_final [of oc H l "fst c" "snd c" "fst c'" "snd c'" i] show ?case by simp
qed simp

lemma exec_idle: "sys_exec oc H c0 ls c \<Longrightarrow> i \<notin> set ls \<Longrightarrow> snd c ! i = snd c0 ! i"
proof (induction rule: sys_exec.induct)
  case (exec_more ls c l c')
  with sys_step_others [of oc H l "fst c" "snd c" "fst c'" "snd c'" i] show ?case by (cases l) auto
qed simp

lemma exec_stopped:
  assumes "sys_exec oc H c0 ls c" and "machine_inv m0 (fst c0)" and "thread_states_ok (fst c0) (snd c0)"
    and "mc_stop (fst c0)"
  shows "count_list ls i + thread_weight (snd c ! i) \<le> thread_weight (snd c0 ! i)"
  using assms
proof (induction rule: sys_exec.induct)
  case (exec_more ls c l c')
  then have ih: "count_list ls i + thread_weight (snd c ! i) \<le> thread_weight (snd c0 ! i)" by simp
  have stop: "mc_stop (fst c)" using sys_exec_inv [OF exec_more.hyps(1) exec_more.prems(1,2)] exec_more.prems(3) by auto
  show ?case
  proof (cases "l = Some i")
    case True
    with sys_step_stopped [of oc H i "fst c" "snd c" "fst c'" "snd c'"] exec_more.hyps(2) stop ih show ?thesis by simp
  next
    case False
    with sys_step_others [of oc H l "fst c" "snd c" "fst c'" "snd c'" i] exec_more.hyps(2) ih show ?thesis
      by (cases l) auto
  qed
qed simp

lemma exec_label_bound: "sys_exec oc H c0 ls c \<Longrightarrow> length (snd c) = length (snd c0) \<and> set ls \<subseteq> {..<length (snd c0)}"
proof (induction rule: sys_exec.induct)
  case (exec_more ls c l c')
  have "length (snd c') = length (snd c) \<and> (case l of None \<Rightarrow> True | Some i \<Rightarrow> i < length (snd c))"
    using exec_more.hyps(2) by (cases rule: sys_step.cases) auto
  with exec_more.IH show ?case by (cases l) auto
qed simp

text \<open>In a machine that is to stop, a thread before the check can do nothing but end.\<close>

lemma ready_thread_ends:
  assumes "mc_stop s" and "i < length ts" and "ts ! i = Ready"
  shows "sys_step oc H (Some i) (s, ts) c \<longleftrightarrow> c = (s, ts[i := Stopped])"
  using assms by (auto simp: loop_check_def elim!: ready_stepE intro: check_stop)

lemma interrupted_thread_stops:
  assumes "mc_stop s" "i < length ts" "ts ! i = Running"
  shows "sys_step oc H (Some i) (s, ts) (s, ts[i := Stopped])"
  using assms run [of i ts "Run_Err 4" quiet oc H s s "[]" True] by (simp add: loop_run_def)

end
