(* ===== verification/Ax_Mutex.thy ===== *)
theory Ax_Mutex
  imports Ax_Prelude
begin

text \<open>
  Threads that share Rust mutexes: a small language of lock skeletons, its interleaving semantics with
  poisoning and unwinding, and what a lock discipline guarantees.

  A skeleton keeps of a function the mutexes it takes, the extent of every guard, the data used under
  it and the control flow between them; a condition on data is a choice between both branches, so a
  skeleton has at least the behaviours of the code. A panic drops the guards of its thread and poisons
  their mutexes, as the unwinding of a Rust thread does. The locale \<open>lock_discipline\<close> states the rules
  that programs keep, an order on the mutexes among them, and its lemmas are their consequences:
  exclusive access, freedom from deadlock and containment of panics.
\<close>

section \<open>Skeletons\<close>

text \<open>
  \<open>Use ls\<close> is a computation on the data behind the mutexes \<open>ls\<close> that may panic; \<open>Field l\<close> a plain load
  or store of the value behind \<open>l\<close>, which cannot. \<open>Lock l a b\<close> is a \<open>match\<close> or \<open>if let\<close> on \<open>l.lock()\<close>
  with the branches for \<open>Ok\<close> and \<open>Err\<close>, the guard living to its end in both; \<open>Try_Lock l a\<close> an
  \<open>if let Ok\<close> on \<open>l.try_lock()\<close>; \<open>Unwrap l a\<close> the extent \<open>a\<close> of the guard of \<open>l.lock().unwrap()\<close>.
  \<open>Guest_Run\<close> is \<open>vcpu.run()\<close>.
\<close>

datatype 'l stmt =
    Skip
  | Use "'l list"
  | Field 'l
  | Guest_Run
  | Seq "'l stmt" "'l stmt"
  | Either "'l stmt" "'l stmt"
  | Repeat "'l stmt"
  | Lock 'l "'l stmt" "'l stmt"
  | Try_Lock 'l "'l stmt"
  | Unwrap 'l "'l stmt"

text \<open>What a thread still has to do: statements, and guards to drop. A guard remembers whether it came
  in an \<open>Ok\<close> or inside a \<open>PoisonError\<close>.\<close>

datatype 'l item = Do "'l stmt" | Guard 'l bool

datatype 'l worker = Working "'l item list" | Over | Unwound

record 'l locks =
  owner :: "'l \<Rightarrow> nat option"
  poisoned :: "'l \<Rightarrow> bool"
  workers :: "nat \<Rightarrow> 'l worker"

fun control_next :: "'l stmt \<Rightarrow> 'l item list list" where
  "control_next (Seq a b) = [[Do a, Do b]]"
| "control_next (Either a b) = [[Do a], [Do b]]"
| "control_next (Repeat a) = [[], [Do a, Do (Repeat a)]]"
| "control_next (Lock l a b) = []"
| "control_next (Try_Lock l a) = []"
| "control_next (Unwrap l a) = []"
| "control_next c = [[]]"

definition resume :: "nat \<Rightarrow> 'l item list \<Rightarrow> 'l locks \<Rightarrow> 'l locks" where
  "resume t k s = s\<lparr>workers := (workers s)(t := Working k)\<rparr>"

definition acquire :: "'l \<Rightarrow> nat \<Rightarrow> 'l locks \<Rightarrow> 'l locks" where
  "acquire l t s = s\<lparr>owner := (owner s)(l := Some t)\<rparr>"

definition release :: "'l \<Rightarrow> 'l locks \<Rightarrow> 'l locks" where
  "release l s = s\<lparr>owner := (owner s)(l := None)\<rparr>"

text \<open>A panic: the stack unwinds, every guard of the thread is dropped and its mutex poisoned.\<close>

definition unwind :: "nat \<Rightarrow> 'l locks \<Rightarrow> 'l locks" where
  "unwind t s = s\<lparr>owner := (\<lambda>l. if owner s l = Some t then None else owner s l),
                  poisoned := (\<lambda>l. poisoned s l \<or> owner s l = Some t),
                  workers := (workers s)(t := Unwound)\<rparr>"

section \<open>Interleaving\<close>

text \<open>One step of thread \<open>t\<close>; \<open>P t r\<close> is the body of its loop, \<open>r\<close> what the environment decides in that
  iteration. A thread waits exactly when it is at a \<open>Lock\<close> or \<open>Unwrap\<close> of an owned mutex.\<close>

inductive lock_step :: "(nat \<Rightarrow> 'r \<Rightarrow> 'l stmt) \<Rightarrow> nat \<Rightarrow> 'l locks \<Rightarrow> 'l locks \<Rightarrow> bool"
  for P :: "nat \<Rightarrow> 'r \<Rightarrow> 'l stmt" and t :: nat where
  begin_iteration: "workers s t = Working [] \<Longrightarrow> lock_step P t s (resume t [Do (P t r)] s)"
| leave_loop: "workers s t = Working [] \<Longrightarrow> lock_step P t s (s\<lparr>workers := (workers s)(t := Over)\<rparr>)"
| control: "workers s t = Working (Do c # k) \<Longrightarrow> i \<in> set (control_next c) \<Longrightarrow>
    lock_step P t s (resume t (i @ k) s)"
| lock_ok: "workers s t = Working (Do (Lock l a b) # k) \<Longrightarrow> owner s l = None \<Longrightarrow> \<not> poisoned s l \<Longrightarrow>
    lock_step P t s (resume t (Do a # Guard l True # k) (acquire l t s))"
| lock_err: "workers s t = Working (Do (Lock l a b) # k) \<Longrightarrow> owner s l = None \<Longrightarrow> poisoned s l \<Longrightarrow>
    lock_step P t s (resume t (Do b # Guard l False # k) (acquire l t s))"
| try_ok: "workers s t = Working (Do (Try_Lock l a) # k) \<Longrightarrow> owner s l = None \<Longrightarrow> \<not> poisoned s l \<Longrightarrow>
    lock_step P t s (resume t (Do a # Guard l True # k) (acquire l t s))"
| try_err: "workers s t = Working (Do (Try_Lock l a) # k) \<Longrightarrow> owner s l = None \<Longrightarrow> poisoned s l \<Longrightarrow>
    lock_step P t s (resume t (Guard l False # k) (acquire l t s))"
| try_busy: "workers s t = Working (Do (Try_Lock l a) # k) \<Longrightarrow> owner s l \<noteq> None \<Longrightarrow>
    lock_step P t s (resume t k s)"
| unwrap_ok: "workers s t = Working (Do (Unwrap l a) # k) \<Longrightarrow> owner s l = None \<Longrightarrow> \<not> poisoned s l \<Longrightarrow>
    lock_step P t s (resume t (Do a # Guard l True # k) (acquire l t s))"
| unwrap_err: "workers s t = Working (Do (Unwrap l a) # k) \<Longrightarrow> owner s l = None \<Longrightarrow> poisoned s l \<Longrightarrow>
    lock_step P t s (unwind t s)"
| drop_guard: "workers s t = Working (Guard l b # k) \<Longrightarrow> lock_step P t s (resume t k (release l s))"

text \<open>A computation that panics.\<close>

inductive crash :: "nat \<Rightarrow> 'l locks \<Rightarrow> 'l locks \<Rightarrow> bool" for t :: nat where
  use_panics: "workers s t = Working (Do (Use ls) # k) \<Longrightarrow> crash t s (unwind t s)"

definition locks_init :: "nat \<Rightarrow> 'l locks" where
  "locks_init n = \<lparr>owner = (\<lambda>_. None), poisoned = (\<lambda>_. False),
                   workers = (\<lambda>t. if t < n then Working [] else Over)\<rparr>"

inductive lock_reachable :: "(nat \<Rightarrow> 'r \<Rightarrow> 'l stmt) \<Rightarrow> nat \<Rightarrow> 'l locks \<Rightarrow> bool"
  for P :: "nat \<Rightarrow> 'r \<Rightarrow> 'l stmt" and n :: nat where
  start: "lock_reachable P n (locks_init n)"
| step: "lock_reachable P n s \<Longrightarrow> lock_step P t s s' \<Longrightarrow> lock_reachable P n s'"
| panic: "lock_reachable P n s \<Longrightarrow> crash t s s' \<Longrightarrow> lock_reachable P n s'"

section \<open>What is observed of a state\<close>

fun next_stmt :: "'l worker \<Rightarrow> 'l stmt option" where
  "next_stmt (Working (Do c # k)) = Some c"
| "next_stmt _ = None"

text \<open>The mutex a thread is about to take by a blocking call.\<close>

fun wanted :: "'l stmt \<Rightarrow> 'l option" where
  "wanted (Lock l a b) = Some l"
| "wanted (Unwrap l a) = Some l"
| "wanted _ = None"

fun touches :: "'l stmt \<Rightarrow> 'l set" where
  "touches (Use ls) = set ls"
| "touches (Field l) = {l}"
| "touches _ = {}"

definition waits_for :: "'l locks \<Rightarrow> nat \<Rightarrow> nat \<Rightarrow> bool" where
  "waits_for s t u \<longleftrightarrow> (\<exists>c l. next_stmt (workers s t) = Some c \<and> wanted c = Some l \<and> owner s l = Some u)"

definition using_data :: "'l locks \<Rightarrow> nat \<Rightarrow> 'l \<Rightarrow> bool" where
  "using_data s t l \<longleftrightarrow> (\<exists>c. next_stmt (workers s t) = Some c \<and> l \<in> touches c)"

fun guards :: "'l item list \<Rightarrow> ('l \<times> bool) list" where
  "guards [] = []"
| "guards (Do c # k) = guards k"
| "guards (Guard l b # k) = (l, b) # guards k"

abbreviation held :: "'l item list \<Rightarrow> 'l set" where
  "held k \<equiv> fst ` set (guards k)"

fun stack_of :: "'l worker \<Rightarrow> 'l item list" where
  "stack_of (Working k) = k"
| "stack_of _ = []"

lemma guards_append [simp]: "guards (i @ k) = guards i @ guards k"
  by (induction i rule: guards.induct) auto

lemma control_next_no_guard: "i \<in> set (control_next c) \<Longrightarrow> guards i = []"
  by (cases c) auto

lemma resume_simps [simp]:
  "owner (resume t k s) = owner s" "poisoned (resume t k s) = poisoned s"
  "workers (resume t k s) = (workers s)(t := Working k)"
  by (simp_all add: resume_def)

lemma acquire_simps [simp]:
  "owner (acquire l t s) = (owner s)(l := Some t)" "poisoned (acquire l t s) = poisoned s"
  "workers (acquire l t s) = workers s"
  by (simp_all add: acquire_def)

lemma release_simps [simp]:
  "owner (release l s) = (owner s)(l := None)" "poisoned (release l s) = poisoned s"
  "workers (release l s) = workers s"
  by (simp_all add: release_def)

lemma unwind_simps [simp]:
  "owner (unwind t s) l = (if owner s l = Some t then None else owner s l)"
  "poisoned (unwind t s) l \<longleftrightarrow> poisoned s l \<or> owner s l = Some t"
  "workers (unwind t s) = (workers s)(t := Unwound)"
  by (simp_all add: unwind_def)

section \<open>Working a schedule\<close>

text \<open>The relation as a function: a schedule names the thread of every step and settles its choices, and
  runs to exactly the reachable states.\<close>

datatype 'r move = Begin 'r | Leave | Branch nat | Advance | Crash

definition take_mutex :: "'l \<Rightarrow> nat \<Rightarrow> 'l stmt list \<Rightarrow> 'l stmt list \<Rightarrow> 'l item list \<Rightarrow> 'l locks \<Rightarrow> 'l locks" where
  "take_mutex l t a b k s =
     (if poisoned s l then resume t (map Do b @ Guard l False # k) (acquire l t s)
      else resume t (map Do a @ Guard l True # k) (acquire l t s))"

fun lock_exec :: "(nat \<Rightarrow> 'r \<Rightarrow> 'l stmt) \<Rightarrow> nat \<Rightarrow> 'r move \<Rightarrow> 'l locks \<Rightarrow> 'l locks option" where
  "lock_exec P t (Begin r) s = (if workers s t = Working [] then Some (resume t [Do (P t r)] s) else None)"
| "lock_exec P t Leave s =
     (if workers s t = Working [] then Some (s\<lparr>workers := (workers s)(t := Over)\<rparr>) else None)"
| "lock_exec P t (Branch i) s =
     (case workers s t of
        Working (Do c # k) \<Rightarrow>
          if i < length (control_next c) then Some (resume t (control_next c ! i @ k) s) else None
      | _ \<Rightarrow> None)"
| "lock_exec P t Advance s =
     (case workers s t of
        Working (Do (Lock l a b) # k) \<Rightarrow>
          if owner s l = None then Some (take_mutex l t [a] [b] k s) else None
      | Working (Do (Try_Lock l a) # k) \<Rightarrow>
          Some (if owner s l = None then take_mutex l t [a] [] k s else resume t k s)
      | Working (Do (Unwrap l a) # k) \<Rightarrow>
          if owner s l = None then Some (if poisoned s l then unwind t s else take_mutex l t [a] [] k s)
          else None
      | Working (Guard l b # k) \<Rightarrow> Some (resume t k (release l s))
      | _ \<Rightarrow> None)"
| "lock_exec P t Crash s =
     (case workers s t of Working (Do (Use ls) # k) \<Rightarrow> Some (unwind t s) | _ \<Rightarrow> None)"

fun lock_run :: "(nat \<Rightarrow> 'r \<Rightarrow> 'l stmt) \<Rightarrow> (nat \<times> 'r move) list \<Rightarrow> 'l locks \<Rightarrow> 'l locks option" where
  "lock_run P [] s = Some s"
| "lock_run P ((t, m) # ms) s = Option.bind (lock_exec P t m s) (lock_run P ms)"

lemma lock_exec_sound:
  "lock_exec P t m s = Some s' \<Longrightarrow> lock_step P t s s' \<or> crash t s s'"
  by (cases m)
    (auto simp: take_mutex_def split: if_splits worker.splits list.splits item.splits stmt.splits
      intro: lock_step.intros crash.intros nth_mem)

lemma lock_step_exec: "lock_step P t s s' \<Longrightarrow> \<exists>m. lock_exec P t m s = Some s'"
proof (induction rule: lock_step.induct)
  case (begin_iteration s r)
  then show ?case by (intro exI [of _ "Begin r"]) simp
next
  case (leave_loop s)
  then show ?case by (intro exI [of _ Leave]) simp
next
  case (control s c k i)
  then obtain j where "j < length (control_next c)" "control_next c ! j = i" by (auto simp: in_set_conv_nth)
  with control show ?case by (intro exI [of _ "Branch j"]) simp
qed (rule exI [of _ Advance], auto simp: take_mutex_def)+

lemma lock_run_append:
  "lock_run P (xs @ ys) s = Option.bind (lock_run P xs s) (lock_run P ys)"
  by (induction xs arbitrary: s) (auto split: bind_splits)

lemma lock_run_reachable:
  "lock_reachable P n s \<Longrightarrow> lock_run P ms s = Some s' \<Longrightarrow> lock_reachable P n s'"
proof (induction ms arbitrary: s)
  case (Cons x ms)
  obtain t m where x: "x = (t, m)" by fastforce
  with Cons.prems(2) obtain s1 where "lock_exec P t m s = Some s1" "lock_run P ms s1 = Some s'"
    by (auto simp: bind_eq_Some_conv)
  with Cons lock_exec_sound [of P t m s s1] show ?case by (auto intro: lock_reachable.intros)
qed simp

theorem reachable_iff_run:
  "lock_reachable P n s \<longleftrightarrow> (\<exists>ms. lock_run P ms (locks_init n) = Some s)"
proof
  assume "lock_reachable P n s"
  then show "\<exists>ms. lock_run P ms (locks_init n) = Some s"
  proof (induction rule: lock_reachable.induct)
    case start
    show ?case by (rule exI [of _ "[]"]) simp
  next
    case (step s t s')
    then obtain ms m where "lock_run P ms (locks_init n) = Some s" "lock_exec P t m s = Some s'"
      using lock_step_exec by blast
    then show ?case by (intro exI [of _ "ms @ [(t, m)]"]) (simp add: lock_run_append)
  next
    case (panic s t s')
    then obtain ms where "lock_run P ms (locks_init n) = Some s" by blast
    with panic(2) show ?case by (intro exI [of _ "ms @ [(t, Crash)]"]) (auto simp: lock_run_append elim: crash.cases)
  qed
qed (auto intro: lock_run_reachable lock_reachable.start)

section \<open>The discipline\<close>

text \<open>
  \<open>rank\<close> orders the mutexes; a \<open>calm\<close> mutex guards plain loads and stores only; \<open>guarded_by l = Some g\<close>
  says that \<open>l\<close> is only taken under an unpoisoned guard of \<open>g\<close>. In the context of the guards \<open>H\<close>:
  a blocking call takes a mutex above all those held, a fallible computation holds no calm mutex and
  uses only data behind unpoisoned guards, \<open>unwrap()\<close> is only called on mutexes that are calm or guarded,
  and the guest runs with no guard at all.
\<close>

definition may_take :: "('l \<Rightarrow> 'l option) \<Rightarrow> ('l \<times> bool) list \<Rightarrow> 'l \<Rightarrow> bool" where
  "may_take guarded_by H l \<longleftrightarrow> (case guarded_by l of None \<Rightarrow> True | Some g \<Rightarrow> (g, True) \<in> set H)"

definition above :: "('l \<Rightarrow> nat) \<Rightarrow> ('l \<times> bool) list \<Rightarrow> 'l \<Rightarrow> bool" where
  "above rank H l \<longleftrightarrow> (\<forall>(h, b) \<in> set H. rank h < rank l)"

fun stmt_ok :: "('l \<Rightarrow> nat) \<Rightarrow> ('l \<Rightarrow> bool) \<Rightarrow> ('l \<Rightarrow> 'l option) \<Rightarrow> ('l \<times> bool) list \<Rightarrow> 'l stmt \<Rightarrow> bool" where
  "stmt_ok rank calm gb H Skip \<longleftrightarrow> True"
| "stmt_ok rank calm gb H (Use ls) \<longleftrightarrow> (\<forall>l \<in> set ls. (l, True) \<in> set H) \<and> (\<forall>(h, b) \<in> set H. \<not> calm h)"
| "stmt_ok rank calm gb H (Field l) \<longleftrightarrow> (l, True) \<in> set H"
| "stmt_ok rank calm gb H Guest_Run \<longleftrightarrow> H = []"
| "stmt_ok rank calm gb H (Seq a b) \<longleftrightarrow> stmt_ok rank calm gb H a \<and> stmt_ok rank calm gb H b"
| "stmt_ok rank calm gb H (Either a b) \<longleftrightarrow> stmt_ok rank calm gb H a \<and> stmt_ok rank calm gb H b"
| "stmt_ok rank calm gb H (Repeat a) \<longleftrightarrow> stmt_ok rank calm gb H a"
| "stmt_ok rank calm gb H (Lock l a b) \<longleftrightarrow> above rank H l \<and> may_take gb H l \<and>
     stmt_ok rank calm gb ((l, True) # H) a \<and> stmt_ok rank calm gb ((l, False) # H) b"
| "stmt_ok rank calm gb H (Try_Lock l a) \<longleftrightarrow> may_take gb H l \<and> stmt_ok rank calm gb ((l, True) # H) a"
| "stmt_ok rank calm gb H (Unwrap l a) \<longleftrightarrow> above rank H l \<and> may_take gb H l \<and> (calm l \<or> gb l \<noteq> None) \<and>
     stmt_ok rank calm gb ((l, True) # H) a"

fun stack_ok :: "('l \<Rightarrow> nat) \<Rightarrow> ('l \<Rightarrow> bool) \<Rightarrow> ('l \<Rightarrow> 'l option) \<Rightarrow> 'l item list \<Rightarrow> bool" where
  "stack_ok rank calm gb [] \<longleftrightarrow> True"
| "stack_ok rank calm gb (Do c # k) \<longleftrightarrow> stmt_ok rank calm gb (guards k) c \<and> stack_ok rank calm gb k"
| "stack_ok rank calm gb (Guard l b # k) \<longleftrightarrow> l \<notin> held k \<and> may_take gb (guards k) l \<and> stack_ok rank calm gb k"

text \<open>The invariant: the owners are the threads whose stacks hold the guards, every stack keeps the
  rules, and poison follows the guards: never in a calm mutex, never behind an unpoisoned guard, and
  never in a guarded mutex without being in its guardian.\<close>

definition disciplined :: "('l \<Rightarrow> nat) \<Rightarrow> ('l \<Rightarrow> bool) \<Rightarrow> ('l \<Rightarrow> 'l option) \<Rightarrow> 'l locks \<Rightarrow> bool" where
  "disciplined rank calm gb s \<longleftrightarrow>
     (\<forall>l t. owner s l = Some t \<longleftrightarrow> l \<in> held (stack_of (workers s t))) \<and>
     (\<forall>t. stack_ok rank calm gb (stack_of (workers s t))) \<and>
     (\<forall>l. calm l \<longrightarrow> \<not> poisoned s l) \<and>
     (\<forall>t l. (l, True) \<in> set (guards (stack_of (workers s t))) \<longrightarrow> \<not> poisoned s l) \<and>
     (\<forall>l g. gb l = Some g \<longrightarrow> poisoned s l \<longrightarrow> poisoned s g)"


locale lock_discipline =
  fixes rank :: "'l \<Rightarrow> nat" and top :: nat
    and calm :: "'l \<Rightarrow> bool" and gb :: "'l \<Rightarrow> 'l option"
    and P :: "nat \<Rightarrow> 'r \<Rightarrow> 'l stmt"
  assumes rank_top: "rank l \<le> top"
    and program_ok: "stmt_ok rank calm gb [] (P t r)"
begin

abbreviation inv :: "'l locks \<Rightarrow> bool" where
  "inv \<equiv> disciplined rank calm gb"

lemma inv_owner: "inv s \<Longrightarrow> owner s l = Some t \<longleftrightarrow> l \<in> held (stack_of (workers s t))"
  by (simp add: disciplined_def)

lemma inv_stack: "inv s \<Longrightarrow> stack_ok rank calm gb (stack_of (workers s t))"
  by (simp add: disciplined_def)

lemma inv_calm: "inv s \<Longrightarrow> calm l \<Longrightarrow> \<not> poisoned s l"
  by (simp add: disciplined_def)

lemma inv_clean: "inv s \<Longrightarrow> (l, True) \<in> set (guards (stack_of (workers s t))) \<Longrightarrow> \<not> poisoned s l"
  unfolding disciplined_def by blast

lemma inv_guardian: "inv s \<Longrightarrow> gb l = Some g \<Longrightarrow> poisoned s l \<Longrightarrow> poisoned s g"
  unfolding disciplined_def by blast

lemma inv_running:
  assumes "inv s" "workers s t = Working (Do c # k)"
  shows "stmt_ok rank calm gb (guards k) c" "stack_ok rank calm gb k"
  using inv_stack [OF assms(1), of t] assms(2) by simp_all

lemma inv_init: "inv (locks_init n)"
  by (auto simp: disciplined_def locks_init_def)

text \<open>A step that moves one thread to a stack with the same guards.\<close>

lemma inv_resume:
  assumes inv: "inv s" and t: "guards (stack_of (workers s t)) = guards k"
    and ok: "stack_ok rank calm gb k"
  shows "inv (resume t k s)"
  using inv t ok inv_clean [OF inv, of _ t] unfolding disciplined_def by auto

text \<open>Taking a free mutex.\<close>

lemma inv_acquire:
  assumes inv: "inv s" and free: "owner s l = None"
    and t: "guards (stack_of (workers s t)) = guards k"
    and i: "guards i = [(l, b)]" "b \<longrightarrow> \<not> poisoned s l"
    and ok: "stack_ok rank calm gb (i @ k)"
  shows "inv (resume t (i @ k) (acquire l t s))"
proof -
  have "l \<notin> held (stack_of (workers s u))" for u
    using inv_owner [OF inv, of l u] free by simp
  then show ?thesis
    using inv t i ok inv_clean [OF inv, of _ t] unfolding disciplined_def by auto
qed

lemma inv_release:
  assumes inv: "inv s" and t: "workers s t = Working (Guard l b # k)"
  shows "inv (resume t k (release l s))"
proof -
  have l: "l \<notin> held k" "stack_ok rank calm gb k" using inv_stack [OF inv, of t] t by simp_all
  have "u = t" if "l \<in> held (stack_of (workers s u))" for u
    using inv_owner [OF inv, of l u] inv_owner [OF inv, of l t] that t by simp
  then show ?thesis
    using inv t l inv_clean [OF inv, of _ t] unfolding disciplined_def by auto
qed

text \<open>The guardian of a held mutex is held by the same thread, unpoisoned.\<close>

lemma guardian_held:
  "stack_ok rank calm gb k \<Longrightarrow> l \<in> held k \<Longrightarrow> gb l = Some g \<Longrightarrow> (g, True) \<in> set (guards k)"
  by (induction k rule: guards.induct) (auto simp: may_take_def)

lemma inv_unwind:
  assumes inv: "inv s" and t: "workers s t = Working (Do (Use ls) # k)"
  shows "inv (unwind t s)"
proof -
  have k: "stack_ok rank calm gb k" "\<And>h. h \<in> held k \<Longrightarrow> \<not> calm h"
    using inv_running [OF inv t] by auto
  have own: "owner s l = Some u \<longleftrightarrow> l \<in> held (stack_of (workers s u))" for l u
    by (rule inv_owner [OF inv])
  have ownt: "owner s l = Some t \<longleftrightarrow> l \<in> held k" for l using own [of l t] t by simp
  show ?thesis unfolding disciplined_def
  proof (intro conjI allI impI)
    fix l u show "owner (unwind t s) l = Some u \<longleftrightarrow> l \<in> held (stack_of (workers (unwind t s) u))"
      using own [of l u] by auto
  next
    fix u show "stack_ok rank calm gb (stack_of (workers (unwind t s) u))"
      using inv_stack [OF inv, of u] by simp
  next
    fix l assume "calm l" then show "\<not> poisoned (unwind t s) l"
      using k(2) [of l] inv_calm [OF inv] ownt by auto
  next
    fix u l assume "(l, True) \<in> set (guards (stack_of (workers (unwind t s) u)))"
    then have "u \<noteq> t" "(l, True) \<in> set (guards (stack_of (workers s u)))" by (auto split: if_splits)
    with inv_clean [OF inv, of l u] own [of l u] show "\<not> poisoned (unwind t s) l" by force
  next
    fix l g assume "gb l = Some g" "poisoned (unwind t s) l"
    then show "poisoned (unwind t s) g"
      using inv_guardian [OF inv, of l g] guardian_held [OF k(1), of l g] ownt by force
  qed
qed

text \<open>A thread never calls \<open>unwrap()\<close> on a poisoned mutex.\<close>

lemma unwrap_clean:
  assumes inv: "inv s" and t: "workers s t = Working (Do (Unwrap l a) # k)"
  shows "\<not> poisoned s l"
proof (cases "calm l")
  case False
  with inv_running(1) [OF inv t] obtain g where g: "gb l = Some g" "(g, True) \<in> set (guards k)"
    by (auto simp: may_take_def)
  with inv_clean [OF inv, of g t] t inv_guardian [OF inv g(1)] show ?thesis by auto
qed (simp add: inv_calm [OF inv])

lemma control_stack_ok:
  "stmt_ok rank calm gb (guards k) c \<Longrightarrow> stack_ok rank calm gb k \<Longrightarrow> i \<in> set (control_next c) \<Longrightarrow>
    stack_ok rank calm gb (i @ k)"
  by (cases c) auto

lemma inv_step:
  assumes inv: "inv s" and step: "lock_step P t s s'"
  shows "inv s'"
  using step
proof cases
  case (begin_iteration r)
  then show ?thesis using inv program_ok by (auto intro: inv_resume)
next
  case leave_loop
  then show ?thesis using inv unfolding disciplined_def by auto
next
  case (control c k i)
  then show ?thesis using inv inv_running [OF inv control(2)]
    by (auto intro!: inv_resume control_stack_ok simp: control_next_no_guard)
next
  case (lock_ok l a b k)
  show ?thesis unfolding lock_ok(1)
    using inv_acquire [OF inv lock_ok(3), of t k "[Do a, Guard l True]" True] inv_running [OF inv lock_ok(2)]
      inv_owner [OF inv, of l t] lock_ok by simp
next
  case (lock_err l a b k)
  show ?thesis unfolding lock_err(1)
    using inv_acquire [OF inv lock_err(3), of t k "[Do b, Guard l False]" False] inv_running [OF inv lock_err(2)]
      inv_owner [OF inv, of l t] lock_err by simp
next
  case (try_ok l a k)
  show ?thesis unfolding try_ok(1)
    using inv_acquire [OF inv try_ok(3), of t k "[Do a, Guard l True]" True] inv_running [OF inv try_ok(2)]
      inv_owner [OF inv, of l t] try_ok by simp
next
  case (try_err l a k)
  show ?thesis unfolding try_err(1)
    using inv_acquire [OF inv try_err(3), of t k "[Guard l False]" False] inv_running [OF inv try_err(2)]
      inv_owner [OF inv, of l t] try_err by simp
next
  case (try_busy l a k)
  then show ?thesis using inv inv_running [OF inv try_busy(2)] by (auto intro: inv_resume)
next
  case (unwrap_ok l a k)
  show ?thesis unfolding unwrap_ok(1)
    using inv_acquire [OF inv unwrap_ok(3), of t k "[Do a, Guard l True]" True] inv_running [OF inv unwrap_ok(2)]
      inv_owner [OF inv, of l t] unwrap_ok by simp
next
  case (unwrap_err l a k)
  then show ?thesis using unwrap_clean [OF inv] by blast
next
  case (drop_guard l b k)
  then show ?thesis using inv_release [OF inv] by blast
qed

lemma reachable_inv: "lock_reachable P n s \<Longrightarrow> inv s"
proof (induction rule: lock_reachable.induct)
  case (panic s t s')
  from panic(2) show ?case by cases (use panic inv_unwind in blast)
qed (auto simp: inv_init intro: inv_step)

text \<open>Exclusive access: data behind a mutex is used by the owner of the mutex only.\<close>

lemma user_owns: "inv s \<Longrightarrow> using_data s t l \<Longrightarrow> owner s l = Some t"
proof -
  assume inv: "inv s" and "using_data s t l"
  then obtain c k where t: "workers s t = Working (Do c # k)" and l: "l \<in> touches c"
    by (auto simp: using_data_def elim!: next_stmt.elims)
  from inv_running(1) [OF inv t] l have "(l, True) \<in> set (guards k)" by (cases c) auto
  with t inv_owner [OF inv, of l t] show ?thesis by force
qed

lemma guest_runs_free: "inv s \<Longrightarrow> next_stmt (workers s t) = Some Guest_Run \<Longrightarrow> owner s l \<noteq> Some t"
proof -
  assume inv: "inv s" and "next_stmt (workers s t) = Some Guest_Run"
  then obtain k where t: "workers s t = Working (Do Guest_Run # k)"
    by (auto elim!: next_stmt.elims)
  with inv_running(1) [OF inv t] inv_owner [OF inv, of l t] show ?thesis by simp
qed

text \<open>A thread that is not over and not waiting can move.\<close>

lemma runs_or_waits:
  assumes t: "workers s t = Working k"
  shows "(\<exists>s'. lock_step P t s s') \<or> (\<exists>u. waits_for s t u)"
proof (cases k rule: guards.cases)
  case (2 c k')
  with t have t': "workers s t = Working (Do c # k')" by simp
  consider (wants) l where "wanted c = Some l" | (tries) l a where "c = Try_Lock l a"
    | (moves) i where "i \<in> set (control_next c)"
    by (cases c) auto
  then show ?thesis
  proof cases
    case wants
    then show ?thesis
    proof (cases "owner s l")
      case None
      with wants t' show ?thesis by (cases c; cases "poisoned s l") (auto intro: lock_step.intros)
    qed (auto simp: waits_for_def t')
  next
    case tries
    with t' show ?thesis by (cases "owner s l"; cases "poisoned s l") (auto intro: lock_step.intros)
  next
    case moves
    with t' show ?thesis by (auto intro: lock_step.intros)
  qed
qed (use t in \<open>auto intro: lock_step.intros\<close>)

text \<open>The owner of a mutex that is waited for is running; where it waits itself, it is for a mutex of
  higher rank, so a chain of waiting threads ends in one that can move.\<close>

lemma owner_running: "inv s \<Longrightarrow> owner s l = Some u \<Longrightarrow> \<exists>k. workers s u = Working k \<and> l \<in> held k"
  using inv_owner [of s l u] by (cases "workers s u") auto

lemma wanted_above:
  assumes inv: "inv s" and t: "workers s t = Working k" "l \<in> held k"
    and w: "next_stmt (workers s t) = Some c" "wanted c = Some m"
  shows "rank l < rank m"
proof -
  from t(1) w(1) obtain k' where k: "k = Do c # k'" by (auto elim!: next_stmt.elims)
  with inv_running(1) [OF inv, of t c k'] t(1) w(2) have "above rank (guards k') m" by (cases c) auto
  with t(2) k show ?thesis by (auto simp: above_def)
qed

lemma waits_above:
  assumes inv: "inv s" and w: "waits_for s t u" "waits_for s u v"
    and t: "next_stmt (workers s t) = Some c" "wanted c = Some l"
    and u: "next_stmt (workers s u) = Some d" "wanted d = Some m"
  shows "rank l < rank m"
proof -
  have "owner s l = Some u" using w(1) t by (auto simp: waits_for_def)
  with owner_running [OF inv] obtain k where "workers s u = Working k" "l \<in> held k" by blast
  from wanted_above [OF inv this u] show ?thesis .
qed

lemma wait_chain_above:
  assumes inv: "inv s" and t: "next_stmt (workers s t) = Some c" "wanted c = Some l"
  shows "(waits_for s)\<^sup>+\<^sup>+ t u \<Longrightarrow> next_stmt (workers s u) = Some d \<Longrightarrow> wanted d = Some m \<Longrightarrow> waits_for s u v \<Longrightarrow>
    rank l < rank m"
proof (induction arbitrary: d m v rule: tranclp_induct)
  case (base u)
  from waits_above [OF inv base(1,4) t base(2,3)] show ?case .
next
  case (step y z)
  obtain e n where e: "next_stmt (workers s y) = Some e" "wanted e = Some n"
    using step(2) by (auto simp: waits_for_def)
  from step.IH [OF e step(2)] waits_above [OF inv step(2,6) e step(4,5)] show ?case by simp
qed

lemma no_wait_circle: "inv s \<Longrightarrow> \<not> (waits_for s)\<^sup>+\<^sup>+ t t"
proof
  assume inv: "inv s" and circle: "(waits_for s)\<^sup>+\<^sup>+ t t"
  from tranclpD [OF circle] obtain u where u: "waits_for s t u" by blast
  then obtain c l where t: "next_stmt (workers s t) = Some c" "wanted c = Some l"
    by (auto simp: waits_for_def)
  from wait_chain_above [OF inv t circle t u] show False by simp
qed

lemma owner_chain_moves:
  "inv s \<Longrightarrow> owner s l = Some u \<Longrightarrow> \<exists>v s'. (waits_for s)\<^sup>*\<^sup>* u v \<and> lock_step P v s s'"
proof (induction "top - rank l" arbitrary: l u rule: less_induct)
  case less
  obtain k where k: "workers s u = Working k" "l \<in> held k" using owner_running [OF less.prems] by blast
  show ?case
  proof (cases "\<exists>s'. lock_step P u s s'")
    case False
    then obtain v c m where v: "waits_for s u v" "next_stmt (workers s u) = Some c" "wanted c = Some m"
      "owner s m = Some v"
      using runs_or_waits [OF k(1)] by (auto simp: waits_for_def)
    have "rank l < rank m" using wanted_above [OF less.prems(1) k v(2,3)] .
    then have "top - rank m < top - rank l" using rank_top [of m] by linarith
    from less.hyps [OF this less.prems(1) v(4)] v(1) show ?thesis
      by (meson converse_rtranclp_into_rtranclp)
  qed blast
qed

lemma progress:
  assumes "lock_reachable P n s" "workers s t = Working k"
  shows "\<exists>u s'. (waits_for s)\<^sup>*\<^sup>* t u \<and> lock_step P u s s'"
proof (cases "\<exists>s'. lock_step P t s s'")
  case False
  then obtain u where u: "waits_for s t u" using runs_or_waits [OF assms(2)] by blast
  then obtain l where "owner s l = Some u" by (auto simp: waits_for_def)
  from owner_chain_moves [OF reachable_inv [OF assms(1)] this] u show ?thesis
    by (meson converse_rtranclp_into_rtranclp)
qed blast

lemma exclusive:
  "lock_reachable P n s \<Longrightarrow> using_data s t l \<Longrightarrow> using_data s u l \<Longrightarrow> t = u"
  by (metis user_owns reachable_inv option.inject)

lemma unwrap_never_panics:
  "lock_reachable P n s \<Longrightarrow> next_stmt (workers s t) = Some (Unwrap l a) \<Longrightarrow> \<not> poisoned s l"
  using unwrap_clean [OF reachable_inv] by (auto elim!: next_stmt.elims)

lemma step_no_panic:
  "lock_reachable P n s \<Longrightarrow> lock_step P t s s' \<Longrightarrow> workers s' t \<noteq> Unwound"
  by (erule lock_step.cases) (auto dest: unwrap_clean [OF reachable_inv])

end

end
