(* ===== verification/Ax_Locks.thy ===== *)
theory Ax_Locks
  imports Ax_Mutex Ax_Machine
begin

text \<open>
  The mutexes of the vCPU workers (\<open>main.rs\<close>, \<open>virtio.rs\<close>, \<open>virtio_net.rs\<close>, \<open>serial.rs\<close>): every
  \<open>lock()\<close> and \<open>try_lock()\<close> of the code that runs in them, with the extent of its guard.

  A guard bound by \<open>let\<close> lives to the end of its block, a temporary to the end of its statement or match
  arm. The address, the offset and the size of an access select the branch as in the code; what depends
  on the contents of a device or of guest memory is a choice.
\<close>

section \<open>The mutexes\<close>

text \<open>The three shared by \<open>run_vcpu\<close>, the lock of the standard output, and the fields of the devices.\<close>

datatype blk_field =
    B_Status | B_Features_Sel | B_Driver_Features | B_Interrupt_Status | B_Queue_Sel | B_Queue_Num
  | B_Queue_Ready | B_Queue_Desc | B_Queue_Avail | B_Queue_Used | B_Last_Avail_Idx | B_Disk

datatype net_field =
    N_Tap | N_Status | N_Driver_Features_Sel | N_Device_Features_Sel | N_Driver_Features
  | N_Queue_Sel | N_Queues | N_Interrupt_Status

datatype mutex = Guest_Mem | Virtio_Net | Vm_Fd | Stdout | Blk blk_field | Net net_field

text \<open>A single load or store through a temporary guard, and a \<open>println!\<close> or the serial output, which
  take the lock of the standard output; that lock is never poisoned, so both branches are the same.\<close>

definition field_access :: "mutex \<Rightarrow> mutex stmt" where
  "field_access l = Unwrap l (Field l)"

definition print_locks :: "mutex stmt" where
  "print_locks = Lock Stdout (Use []) (Use [])"

definition maybe :: "mutex stmt \<Rightarrow> mutex stmt" where
  "maybe a = Either a Skip"

section \<open>The block device\<close>

definition blk_read_locks :: "u64 \<Rightarrow> mutex stmt" where
  "blk_read_locks offset =
     Seq (if offset = VIRTIO_MMIO_DEVICE_FEATURES then field_access (Blk B_Features_Sel)
          else if offset = VIRTIO_MMIO_QUEUE_READY then field_access (Blk B_Queue_Ready)
          else if offset = VIRTIO_MMIO_INTERRUPT_STATUS then field_access (Blk B_Interrupt_Status)
          else if offset = VIRTIO_MMIO_STATUS then field_access (Blk B_Status)
          else Skip)
       (Use [])"

text \<open>The chain is walked in guest memory; the disk is locked for the transfer only.\<close>

definition process_descriptor_chain_locks :: "mutex stmt" where
  "process_descriptor_chain_locks =
     Seq (Use [Guest_Mem])
       (Seq (maybe (Unwrap (Blk B_Disk) (Use [Guest_Mem, Blk B_Disk])))
         (Use [Guest_Mem]))"

definition process_queue_locks :: "mutex stmt" where
  "process_queue_locks =
     Seq (field_access (Blk B_Queue_Num))
       (maybe
         (Seq (field_access (Blk B_Queue_Ready))
           (maybe
             (Seq (field_access (Blk B_Queue_Desc))
               (Seq (field_access (Blk B_Queue_Avail))
                 (Seq (field_access (Blk B_Queue_Used))
                   (Seq (Use [Guest_Mem])
                     (maybe
                       (Unwrap (Blk B_Last_Avail_Idx)
                         (Seq
                           (Repeat
                             (Seq (Use [Guest_Mem, Blk B_Last_Avail_Idx])
                               (maybe (Seq process_descriptor_chain_locks
                                        (Use [Guest_Mem, Blk B_Last_Avail_Idx])))))
                           (maybe (field_access (Blk B_Interrupt_Status)))))))))))))"

definition blk_write_locks :: "u64 \<Rightarrow> bytes \<Rightarrow> mutex stmt" where
  "blk_write_locks offset data =
     (if length data < 4 then Skip
      else if offset = VIRTIO_MMIO_DEVICE_FEATURES_SEL then field_access (Blk B_Features_Sel)
      else if offset = VIRTIO_MMIO_DRIVER_FEATURES_SEL then field_access (Blk B_Features_Sel)
      else if offset = VIRTIO_MMIO_DRIVER_FEATURES then
        Seq (field_access (Blk B_Features_Sel)) (field_access (Blk B_Driver_Features))
      else if offset = VIRTIO_MMIO_QUEUE_SEL then field_access (Blk B_Queue_Sel)
      else if offset = VIRTIO_MMIO_QUEUE_NUM then field_access (Blk B_Queue_Num)
      else if offset = VIRTIO_MMIO_QUEUE_READY then field_access (Blk B_Queue_Ready)
      else if offset = VIRTIO_MMIO_QUEUE_NOTIFY then process_queue_locks
      else if offset = VIRTIO_MMIO_INTERRUPT_ACK then field_access (Blk B_Interrupt_Status)
      else if offset = VIRTIO_MMIO_STATUS then
        Seq (field_access (Blk B_Status))
          (Seq (field_access (Blk B_Status))
            (maybe (Seq (field_access (Blk B_Queue_Ready)) (field_access (Blk B_Last_Avail_Idx)))))
      else if offset = VIRTIO_MMIO_QUEUE_DESC_LOW \<or> offset = VIRTIO_MMIO_QUEUE_DESC_HIGH then
        field_access (Blk B_Queue_Desc)
      else if offset = VIRTIO_MMIO_QUEUE_AVAIL_LOW \<or> offset = VIRTIO_MMIO_QUEUE_AVAIL_HIGH then
        field_access (Blk B_Queue_Avail)
      else if offset = VIRTIO_MMIO_QUEUE_USED_LOW \<or> offset = VIRTIO_MMIO_QUEUE_USED_HIGH then
        field_access (Blk B_Queue_Used)
      else Skip)"

section \<open>The network device\<close>

definition net_read_locks :: "u64 \<Rightarrow> mutex stmt" where
  "net_read_locks offset =
     Seq (if offset = MMIO_DEVICE_FEATURES then field_access (Net N_Device_Features_Sel)
          else if offset = MMIO_QUEUE_READY then
            Seq (field_access (Net N_Queue_Sel)) (Unwrap (Net N_Queues) (Use [Net N_Queues]))
          else if offset = MMIO_INTERRUPT_STATUS then field_access (Net N_Interrupt_Status)
          else if offset = MMIO_STATUS then field_access (Net N_Status)
          else Use [])
       (Use [])"

text \<open>\<open>reset\<close>: the guard of the queues lives to the end, over the write of the selector and the message.\<close>

definition net_reset_locks :: "mutex stmt" where
  "net_reset_locks =
     Seq (field_access (Net N_Status))
       (Unwrap (Net N_Queues)
         (Seq (Use [Net N_Queues]) (Seq (field_access (Net N_Queue_Sel)) print_locks)))"

text \<open>A write to a register of the selected queue, when the selector names one.\<close>

definition queue_write_locks :: "mutex stmt \<Rightarrow> mutex stmt" where
  "queue_write_locks body = Seq (field_access (Net N_Queue_Sel)) (maybe (Unwrap (Net N_Queues) body))"

definition net_write_locks :: "u64 \<Rightarrow> bytes \<Rightarrow> mutex stmt" where
  "net_write_locks offset data =
     (if length data \<noteq> 1 \<and> length data \<noteq> 2 \<and> length data \<noteq> 4 then Skip
      else if offset = MMIO_DEVICE_FEATURES_SEL then field_access (Net N_Device_Features_Sel)
      else if offset = MMIO_DRIVER_FEATURES_SEL then field_access (Net N_Driver_Features_Sel)
      else if offset = MMIO_DRIVER_FEATURES then
        Seq (field_access (Net N_Driver_Features_Sel)) (Unwrap (Net N_Driver_Features) (Use [Net N_Driver_Features]))
      else if offset = MMIO_QUEUE_SEL then field_access (Net N_Queue_Sel)
      else if offset = MMIO_QUEUE_NUM then queue_write_locks (Use [Net N_Queues])
      else if offset = MMIO_QUEUE_READY then
        queue_write_locks (Seq (Use [Net N_Queues]) (maybe (Seq (Use [Net N_Queues]) print_locks)))
      else if offset \<in> {MMIO_QUEUE_DESC_LOW, MMIO_QUEUE_DESC_HIGH, MMIO_QUEUE_AVAIL_LOW,
                        MMIO_QUEUE_AVAIL_HIGH, MMIO_QUEUE_USED_LOW, MMIO_QUEUE_USED_HIGH} then
        queue_write_locks (Use [Net N_Queues])
      else if offset = MMIO_STATUS then Seq (field_access (Net N_Status)) (maybe net_reset_locks)
      else if offset = MMIO_INTERRUPT_ACK then field_access (Net N_Interrupt_Status)
      else Use [])"

definition process_rx_locks :: "mutex stmt" where
  "process_rx_locks =
     Unwrap (Net N_Tap)
       (Seq (Use [Net N_Tap])
         (maybe
           (Unwrap (Net N_Queues)
             (Seq (Use [Net N_Queues])
               (maybe
                 (Seq (Use [Guest_Mem, Net N_Tap, Net N_Queues])
                   (maybe (Unwrap (Net N_Interrupt_Status) (Field (Net N_Interrupt_Status))))))))))"

definition process_tx_locks :: "mutex stmt" where
  "process_tx_locks =
     Unwrap (Net N_Tap)
       (Seq (Use [Net N_Tap])
         (maybe
           (Unwrap (Net N_Queues)
             (Seq (Use [Net N_Queues])
               (maybe
                 (Repeat
                   (Seq (Use [Guest_Mem, Net N_Tap, Net N_Queues])
                     (maybe (Unwrap (Net N_Interrupt_Status) (Field (Net N_Interrupt_Status)))))))))))"

section \<open>The vCPU loop\<close>

definition poll_locks :: "mutex stmt" where
  "poll_locks =
     Try_Lock Guest_Mem
       (Seq (Use [Guest_Mem])
         (Try_Lock Virtio_Net
           (Seq process_rx_locks
             (Seq process_tx_locks
               (maybe (Seq (field_access (Net N_Interrupt_Status))
                        (maybe (Lock Vm_Fd (Use [Vm_Fd]) Skip))))))))"

definition exit_locks :: "vcpu_exit \<Rightarrow> mutex stmt" where
  "exit_locks ex =
     (case ex of
        IoOut port data \<Rightarrow>
          (if in_serial port then
             Seq (Use []) (if port - COM1_BASE = DATA_REGISTER \<and> data \<noteq> [] then print_locks else Skip)
           else Skip)
      | IoIn port data \<Rightarrow> if in_serial port then Use [] else Skip
      | MmioRead addr data \<Rightarrow>
          (if in_window VIRTIO_MMIO_BASE VIRTIO_MMIO_SIZE addr then blk_read_locks (addr - VIRTIO_MMIO_BASE)
           else if in_window VIRTIO_NET_MMIO_BASE VIRTIO_NET_MMIO_SIZE addr then
             Lock Virtio_Net (net_read_locks (addr - VIRTIO_NET_MMIO_BASE)) Skip
           else Skip)
      | MmioWrite addr data \<Rightarrow>
          (if in_window VIRTIO_MMIO_BASE VIRTIO_MMIO_SIZE addr then
             Seq (Lock Guest_Mem (blk_write_locks (addr - VIRTIO_MMIO_BASE) data) (Use []))
               (maybe (Lock Vm_Fd (Use [Vm_Fd]) (Use [])))
           else if in_window VIRTIO_NET_MMIO_BASE VIRTIO_NET_MMIO_SIZE addr then
             Lock Virtio_Net
               (Seq (net_write_locks (addr - VIRTIO_NET_MMIO_BASE) data)
                 (maybe (Lock Vm_Fd (Use [Vm_Fd]) Skip)))
               Skip
           else Skip)
      | Hlt \<Rightarrow> Skip
      | Shutdown \<Rightarrow> print_locks
      | Other_Exit \<Rightarrow> Skip)"

definition vcpu_locks :: "nat \<Rightarrow> run_result \<Rightarrow> mutex stmt" where
  "vcpu_locks cpu_id r =
     Seq (if cpu_id = 0 then poll_locks else Skip)
       (Seq Guest_Run (case r of Run_Exit ex \<Rightarrow> exit_locks ex | Run_Err errno \<Rightarrow> Skip))"

section \<open>The discipline of the program\<close>

text \<open>The order of the mutexes: guest memory, the network device, then what is held over other fields.\<close>

fun mutex_rank :: "mutex \<Rightarrow> nat" where
  "mutex_rank Guest_Mem = 0"
| "mutex_rank Virtio_Net = 1"
| "mutex_rank (Net N_Tap) = 2"
| "mutex_rank (Blk B_Last_Avail_Idx) = 2"
| "mutex_rank (Net N_Queues) = 3"
| "mutex_rank (Blk B_Disk) = 3"
| "mutex_rank Stdout = 5"
| "mutex_rank _ = 4"

text \<open>Who protects a field from being found poisoned: the outer mutex of its device, when every holder of
  the field also holds that.\<close>

fun mutex_guardian :: "mutex \<Rightarrow> mutex option" where
  "mutex_guardian (Blk B_Last_Avail_Idx) = Some Guest_Mem"
| "mutex_guardian (Blk B_Disk) = Some Guest_Mem"
| "mutex_guardian (Net f) = Some Virtio_Net"
| "mutex_guardian _ = None"

text \<open>The plain registers of the block device.\<close>

fun mutex_calm :: "mutex \<Rightarrow> bool" where
  "mutex_calm (Blk f) \<longleftrightarrow> f \<noteq> B_Last_Avail_Idx \<and> f \<noteq> B_Disk"
| "mutex_calm _ \<longleftrightarrow> False"

abbreviation locks_ok :: "(mutex \<times> bool) list \<Rightarrow> mutex stmt \<Rightarrow> bool" where
  "locks_ok \<equiv> stmt_ok mutex_rank mutex_calm mutex_guardian"

lemmas discipline_simps =
  field_access_def print_locks_def maybe_def above_def may_take_def

lemma if_ok: "locks_ok H x \<Longrightarrow> locks_ok H y \<Longrightarrow> locks_ok H (if b then x else y)"
  by simp

lemma process_queue_ok: "locks_ok [(Guest_Mem, True)] process_queue_locks"
  by (simp add: process_queue_locks_def process_descriptor_chain_locks_def discipline_simps)

lemma blk_read_ok: "locks_ok [] (blk_read_locks off)"
  unfolding blk_read_locks_def stmt_ok.simps(5)
  by (intro conjI if_ok) (simp_all add: discipline_simps)

lemma blk_write_ok: "locks_ok [(Guest_Mem, True)] (blk_write_locks off data)"
  unfolding blk_write_locks_def
  by (intro if_ok process_queue_ok) (simp_all add: discipline_simps)

lemma net_read_ok: "locks_ok [(Virtio_Net, True)] (net_read_locks off)"
  unfolding net_read_locks_def stmt_ok.simps(5)
  by (intro conjI if_ok) (simp_all add: discipline_simps)

lemma net_write_ok: "locks_ok [(Virtio_Net, True)] (net_write_locks off data)"
  unfolding net_write_locks_def
  by (intro if_ok) (simp_all add: net_reset_locks_def queue_write_locks_def discipline_simps)

lemma poll_locks_ok: "locks_ok [] poll_locks"
  by (simp add: poll_locks_def process_rx_locks_def process_tx_locks_def discipline_simps)

lemma exit_locks_ok: "locks_ok [] (exit_locks ex)"
proof (cases ex)
  case (IoOut port data)
  then show ?thesis by (auto simp: exit_locks_def discipline_simps intro!: if_ok)
next
  case (MmioRead addr data)
  then show ?thesis
    by (auto simp: exit_locks_def above_def may_take_def blk_read_ok net_read_ok intro!: if_ok)
next
  case (MmioWrite addr data)
  then show ?thesis
    by (auto simp: exit_locks_def discipline_simps blk_write_ok net_write_ok intro!: if_ok)
qed (auto simp: exit_locks_def discipline_simps)

interpretation vcpus: lock_discipline mutex_rank 5 mutex_calm mutex_guardian vcpu_locks
proof unfold_locales
  show "mutex_rank l \<le> 5" for l by (induction l rule: mutex_rank.induct) simp_all
  show "locks_ok [] (vcpu_locks t r)" for t r
    by (simp add: vcpu_locks_def poll_locks_ok exit_locks_ok split: run_result.split)
qed


section \<open>Schedules\<close>

lemmas schedule_simps = locks_init_def vcpu_locks_def exit_locks_def in_window_def mmio_windows take_mutex_def
  poll_locks_def process_rx_locks_def maybe_def field_access_def Let_def

text \<open>Processor 1 notifies the block device and holds guest memory; processor 2 waits for guest memory.\<close>

definition contention :: "(nat \<times> run_result move) list" where
  "contention =
     (let notify = Run_Exit (MmioWrite 0xFEB00050 [0, 0, 0, 0]) in
      [(1, Begin notify), (1, Branch 0), (1, Branch 0), (1, Branch 0), (1, Branch 0), (1, Branch 0), (1, Advance),
       (2, Begin notify), (2, Branch 0), (2, Branch 0), (2, Branch 0), (2, Branch 0), (2, Branch 0)])"

lemma contention_waits:
  "\<exists>s k. lock_reachable vcpu_locks 3 s \<and> workers s 2 = Working k \<and> waits_for s 2 1"
proof -
  have "\<exists>s k. lock_run vcpu_locks contention (locks_init 3) = Some s \<and> workers s 2 = Working k \<and> waits_for s 2 1"
    by (simp add: contention_def schedule_simps waits_for_def)
  then show ?thesis using reachable_iff_run by blast
qed

text \<open>Processor 0 panics in its poll and poisons both outer mutexes; processor 1 then reads a register of the
  block device, through \<open>unwrap()\<close>.\<close>

definition poll_panics :: "(nat \<times> run_result move) list" where
  "poll_panics =
     [(0, Begin (Run_Exit Hlt)), (0, Branch 0), (0, Advance), (0, Branch 0), (0, Branch 0), (0, Advance),
      (0, Branch 0), (0, Advance), (0, Branch 0), (0, Branch 0), (0, Branch 0), (0, Advance), (0, Branch 0), (0, Crash),
      (1, Begin (Run_Exit (MmioRead 0xFEB00044 [0, 0, 0, 0]))),
      (1, Branch 0), (1, Branch 0), (1, Branch 0), (1, Branch 0), (1, Branch 0)]"

lemma poll_panics_run:
  "\<exists>s. lock_reachable vcpu_locks 2 s \<and> workers s 0 = Unwound \<and> poisoned s Guest_Mem \<and> poisoned s Virtio_Net \<and>
     next_stmt (workers s 1) = Some (Unwrap (Blk B_Queue_Ready) (Field (Blk B_Queue_Ready)))"
proof -
  have "\<exists>s. lock_run vcpu_locks poll_panics (locks_init 2) = Some s \<and> workers s 0 = Unwound \<and>
      poisoned s Guest_Mem \<and> poisoned s Virtio_Net \<and>
      next_stmt (workers s 1) = Some (Unwrap (Blk B_Queue_Ready) (Field (Blk B_Queue_Ready)))"
    by (simp add: poll_panics_def schedule_simps blk_read_locks_def mmio_regs)
  then show ?thesis using reachable_iff_run by blast
qed

text \<open>Processor 0 polls and is at its use of guest memory.\<close>

lemma poll_uses_memory:
  "\<exists>s. lock_reachable vcpu_locks 2 s \<and> using_data s 0 Guest_Mem"
proof -
  have "\<exists>s. lock_run vcpu_locks (take 4 poll_panics) (locks_init 2) = Some s \<and> using_data s 0 Guest_Mem"
    by (simp add: poll_panics_def schedule_simps using_data_def)
  then show ?thesis using reachable_iff_run by blast
qed

section \<open>Properties\<close>

text \<open>
  C8. The vCPU threads never deadlock. In every state that any number of vCPUs reaches, whatever exits
  they take, however they are interleaved and whichever of them have panicked, no thread waits for
  itself, directly or through others, and a thread that is not over either can take its next step or
  waits for the owner of a mutex, who in turn, perhaps through others, waits for a thread that can.
\<close>

theorem vcpus_deadlock_free:
  assumes "lock_reachable vcpu_locks n s" and "workers s t = Working k"
  shows "\<not> (waits_for s)\<^sup>+\<^sup>+ t t \<and> (\<exists>u s'. (waits_for s)\<^sup>*\<^sup>* t u \<and> lock_step vcpu_locks u s s')"
  using vcpus.progress [OF assms] vcpus.no_wait_circle [OF vcpus.reachable_inv [OF assms(1)]] by simp

theorem vcpus_deadlock_free_witness:
  "\<exists>s. lock_reachable vcpu_locks 3 s \<and> waits_for s 2 1 \<and>
    (\<exists>u s'. (waits_for s)\<^sup>*\<^sup>* 2 u \<and> lock_step vcpu_locks u s s')"
proof -
  obtain s k where s: "lock_reachable vcpu_locks 3 s" "workers s 2 = Working k" "waits_for s 2 1"
    using contention_waits by blast
  with vcpus_deadlock_free [OF s(1,2)] show ?thesis by blast
qed

text \<open>
  C9. Shared data is used by one thread at a time, and the guest runs with no lock held. In every reachable
  state two threads that are at a use of the same mutex's data are the same thread; this includes guest
  memory, which the poll reaches through a raw slice. A thread inside \<open>vcpu.run()\<close> owns no mutex, so a
  guest that never exits holds up nobody.
\<close>

theorem shared_data_exclusive:
  assumes "lock_reachable vcpu_locks n s"
  shows "(using_data s t l \<and> using_data s u l \<longrightarrow> t = u) \<and>
    (next_stmt (workers s t) = Some Guest_Run \<longrightarrow> owner s l \<noteq> Some t)"
  using vcpus.exclusive [OF assms] vcpus.guest_runs_free [OF vcpus.reachable_inv [OF assms]] by blast

theorem shared_data_exclusive_witness:
  "\<exists>s. lock_reachable vcpu_locks 2 s \<and> using_data s 0 Guest_Mem \<and> \<not> using_data s 1 Guest_Mem"
proof -
  obtain s where s: "lock_reachable vcpu_locks 2 s" "using_data s 0 Guest_Mem"
    using poll_uses_memory by blast
  with shared_data_exclusive [OF s(1), of 0 Guest_Mem 1] show ?thesis by auto
qed

text \<open>
  C10. A panic stays in its thread. Whatever threads have panicked, none of the many \<open>lock().unwrap()\<close> of the
  devices ever meets a poisoned mutex: no step of another thread panics because of it, and the
  register fields of the block device are never poisoned. The threads that remain go on, and the
  poisoned outer mutexes lead them to the error branches of \<open>run_vcpu\<close>.
\<close>

theorem panics_contained:
  assumes "lock_reachable vcpu_locks n s"
  shows "(lock_step vcpu_locks t s s' \<longrightarrow> workers s' t \<noteq> Unwound) \<and>
    (next_stmt (workers s t) = Some (Unwrap l a) \<longrightarrow> \<not> poisoned s l) \<and>
    (mutex_calm l \<longrightarrow> \<not> poisoned s l)"
  using vcpus.step_no_panic [OF assms] vcpus.unwrap_never_panics [OF assms]
    vcpus.inv_calm [OF vcpus.reachable_inv [OF assms]] by blast

theorem panics_contained_witness:
  "\<exists>s. lock_reachable vcpu_locks 2 s \<and> workers s 0 = Unwound \<and> poisoned s Guest_Mem \<and> poisoned s Virtio_Net \<and>
     next_stmt (workers s 1) = Some (Unwrap (Blk B_Queue_Ready) (Field (Blk B_Queue_Ready))) \<and> \<not> poisoned s (Blk B_Queue_Ready)"
proof -
  obtain s where s: "lock_reachable vcpu_locks 2 s" "workers s 0 = Unwound" "poisoned s Guest_Mem"
    "poisoned s Virtio_Net" "next_stmt (workers s 1) = Some (Unwrap (Blk B_Queue_Ready) (Field (Blk B_Queue_Ready)))"
    using poll_panics_run by blast
  with panics_contained [OF s(1), of 1 undefined "Blk B_Queue_Ready" "Field (Blk B_Queue_Ready)"] show ?thesis by blast
qed

end
