(* ===== verification/Ax_Dispatch.thy ===== *)
theory Ax_Dispatch
  imports Ax_Threads Ax_Blk_Atomic Ax_Net_Poll
begin

text \<open>
  What one iteration of the vCPU loop does from the guest's point of view: how device accesses are
  dispatched, when the guest is interrupted, and how exits are counted.
\<close>

section \<open>Counting exits\<close>

text \<open>The change of a counter, and what one handled exit adds to the counters.\<close>

definition classified_exits :: "vm_metrics \<Rightarrow> u64" where
  "classified_exits m = io_exits m + mmio_exits m + hlt_exits m + interrupt_exits m + exception_exits m"

definition device_exit :: "('f, 'p) machine \<Rightarrow> vcpu_exit \<Rightarrow> bool" where
  "device_exit s ex \<longleftrightarrow> (case ex of
     IoOut port _ \<Rightarrow> in_serial port
   | IoIn port _ \<Rightarrow> in_serial port
   | MmioRead addr _ \<Rightarrow> in_window VIRTIO_MMIO_BASE VIRTIO_MMIO_SIZE addr \<or>
       in_window VIRTIO_NET_MMIO_BASE VIRTIO_NET_MMIO_SIZE addr \<and> \<not> mc_net_poisoned s
   | MmioWrite addr _ \<Rightarrow> in_window VIRTIO_MMIO_BASE VIRTIO_MMIO_SIZE addr \<or>
       in_window VIRTIO_NET_MMIO_BASE VIRTIO_NET_MMIO_SIZE addr \<and> \<not> mc_net_poisoned s
   | Hlt \<Rightarrow> \<not> mc_stop s
   | _ \<Rightarrow> False)"

lemma record_exits [simp]:
  "vcpu_exits (record_vcpu_exit m) = (if enabled m then vcpu_exits m + 1 else vcpu_exits m)"
  "vcpu_exits (record_io_exit m) = (if enabled m then vcpu_exits m + 1 else vcpu_exits m)"
  "vcpu_exits (record_mmio_exit m) = (if enabled m then vcpu_exits m + 1 else vcpu_exits m)"
  "vcpu_exits (record_hlt_exit m) = (if enabled m then vcpu_exits m + 1 else vcpu_exits m)"
  "vcpu_exits (record_error m) = vcpu_exits m"
  "classified_exits (record_vcpu_exit m) = classified_exits m" "classified_exits (record_error m) = classified_exits m"
  "classified_exits (record_io_exit m) = (if enabled m then classified_exits m + 1 else classified_exits m)"
  "classified_exits (record_mmio_exit m) = (if enabled m then classified_exits m + 1 else classified_exits m)"
  "classified_exits (record_hlt_exit m) = (if enabled m then classified_exits m + 1 else classified_exits m)"
  "enabled (record_vcpu_exit m) = enabled m" "enabled (record_error m) = enabled m"
  by (simp_all add: record_defs classified_exits_def)

lemma blk_irq_exits [simp]:
  "vcpu_exits (mc_metrics (blk_irq H s)) = vcpu_exits (mc_metrics s)"
  "classified_exits (mc_metrics (blk_irq H s)) = classified_exits (mc_metrics s)"
  "enabled (mc_metrics (blk_irq H s)) = enabled (mc_metrics s)"
  by (simp_all add: blk_irq_def set_irq_line_def)

lemma exit_mmio_write_exits:
  assumes "exit_mmio_write E oc H addr data s = Some (Done (s', dt, brk))" and "enabled (mc_metrics s)"
  shows "vcpu_exits (mc_metrics s') = vcpu_exits (mc_metrics s) + of_bool (device_exit s (MmioWrite addr data)) \<and>
    classified_exits (mc_metrics s') = classified_exits (mc_metrics s) + of_bool (device_exit s (MmioWrite addr data))"
  using assms
  by (auto simp: exit_mmio_write_def device_exit_def Let_def split: if_splits prod.splits sum.splits)

text \<open>
  How an exit is counted. Every exit that a device or the halt handler takes is counted once in its
  class and twice in the total, because the loop counts it before the handler's record does; an exit
  that nothing takes is counted once in the total only. So the total is not the number of exits once
  a device has been used.
\<close>

theorem exits_counted_twice:
  assumes "loop_run E oc H (Run_Exit ex) s = Some (Done (s', data, brk))" and "enabled (mc_metrics s)"
  shows "classified_exits (mc_metrics s') = classified_exits (mc_metrics s) + of_bool (device_exit s ex) \<and>
    vcpu_exits (mc_metrics s') = vcpu_exits (mc_metrics s) + (if device_exit s ex then 2 else 1)"
proof (cases ex)
  case (MmioWrite addr dt)
  have d: "device_exit (count_metric record_vcpu_exit s) ex = device_exit s ex"
    by (simp add: device_exit_def split: vcpu_exit.splits)
  from MmioWrite assms exit_mmio_write_exits [of E oc H addr dt "count_metric record_vcpu_exit s" s' data brk] d
  show ?thesis by (simp add: loop_run_def handle_exit_def)
qed (use assms in \<open>auto simp: loop_run_def handle_exit_def exit_io_out_def exit_io_in_def exit_mmio_read_def
   device_exit_def split: if_splits\<close>)


text \<open>A machine with one request queued on its block device and the network link down.\<close>

definition demo_machine :: "(image, wire) machine" where
  "demo_machine = \<lparr>mc_mem = ring_mem, mc_blk = ring_disk, mc_net = vn_new None, mc_metrics = metrics_new,
     mc_out = [], mc_irqs = [], mc_stop = False, mc_mem_poisoned = False, mc_net_poisoned = False\<rparr>"

definition demo_host :: "(image, wire) host" where
  "demo_host = \<lparr>h_file = image_ops Map.empty, h_tap = wire_ops [], h_irq_ok = (\<lambda>_ _. True)\<rparr>"

theorem exits_counted_twice_witness:
  "\<exists>s'. loop_run counting_guest True demo_host (Run_Exit Hlt) demo_machine = Some (Done (s', [], False)) \<and>
     classified_exits (mc_metrics s') = 1 \<and> vcpu_exits (mc_metrics s') = 2"
proof -
  have r: "loop_run counting_guest True demo_host (Run_Exit Hlt) demo_machine = Some (Done
      (count_metric record_hlt_exit (count_metric record_vcpu_exit demo_machine), [], False))"
    by (simp add: loop_run_def handle_exit_def demo_machine_def)
  have "enabled (mc_metrics demo_machine)" "classified_exits (mc_metrics demo_machine) = 0"
    "vcpu_exits (mc_metrics demo_machine) = 0" "device_exit demo_machine Hlt"
    by (simp_all add: demo_machine_def metrics_new_def classified_exits_def device_exit_def)
  with exits_counted_twice [OF r] r show ?thesis by simp
qed

section \<open>Block requests\<close>

lemma notify_address:
  "in_window VIRTIO_MMIO_BASE VIRTIO_MMIO_SIZE 0xFEB00050"
  "0xFEB00050 - VIRTIO_MMIO_BASE = VIRTIO_MMIO_QUEUE_NOTIFY"
  by (simp_all add: in_window_def mmio_windows VIRTIO_MMIO_QUEUE_NOTIFY_def)

lemma blk_irq_ok:
  "h_irq_ok H 5 True \<Longrightarrow> h_irq_ok H 5 False \<Longrightarrow> mc_irqs (blk_irq H s) = mc_irqs s @ [(5, True), (5, False)]"
  by (simp add: blk_irq_def set_irq_line_def)

text \<open>
  C13. A notification, from the guest's store to the interrupt. When the guest writes the notify
  register while a batch of well-formed requests is queued and no thread has panicked, and its other
  processors leave the queue and the requests alone until they are completed, storing elsewhere as they
  like, the loop goes on; all requests are completed in the used ring, and the guest is interrupted on
  line 5 exactly once, after that, or not at all when nothing was queued; of the memory that the guest
  itself leaves alone only the used ring and the requests' buffers have changed, and the network
  device, the console and the stop flag are as they were.
\<close>

theorem blk_notify_interrupts:
  assumes "\<not> mc_mem_poisoned s" and "batch (mc_blk s) (mc_mem s) ps" and "reads_fit (h_file H)"
    and "h_irq_ok H 5 True" and "h_irq_ok H 5 False" and "4 \<le> length data"
    and "leaves_alone E A" and "batch_region (mc_blk s) (mc_mem s) ps \<subseteq> A"
  shows "\<exists>s'. loop_run E oc H (Run_Exit (MmioWrite 0xFEB00050 data)) s = Some (Done (s', data, False)) \<and>
    (let d = mc_blk s; m = mc_mem s; m' = mc_mem s' in
     used_idx d m' = used_idx d m + of_nat (length ps) \<and>
     (\<forall>k < length ps. used_id d m' (used_idx d m + of_nat k) = ucast (hd (ps ! k))) \<and>
     vb_last_avail_idx (mc_blk s') = avail_idx d m \<and>
     agree_on (A - (used_region d \<union> batch_buffers d m ps)) m m') \<and>
    mc_irqs s' = mc_irqs s @ (if ps = [] then [] else [(5, True), (5, False)]) \<and>
    mc_net s' = mc_net s \<and> mc_out s' = mc_out s \<and> mc_stop s' = mc_stop s"
proof -
  let ?d = "mc_blk s" and ?m = "mc_mem s"
  obtain d' m1 where r: "process_queue oc (h_file H) ?d ?m = Some (Done (ps \<noteq> [], d', m1))"
    "vb_last_avail_idx d' = avail_idx ?d ?m" "used_idx ?d m1 = used_idx ?d ?m + of_nat (length ps)"
    "\<forall>k < length ps. used_id ?d m1 (used_idx ?d ?m + of_nat k) = ucast (hd (ps ! k))"
    "agree_on (- (used_region ?d \<union> batch_buffers ?d ?m ps)) ?m m1"
    using batch_processed [OF assms(2,3), of oc] by blast
  obtain v where v: "process_queue_env E oc (h_file H) ?d (view_of ?m) = Some (Done ((ps \<noteq> [], d'), v))"
    "agree_on A m1 (mv_mem v)"
    using batch_atomic [OF assms(2,3,7,8) r(1)] by blast
  have "used_region ?d \<subseteq> A" using assms(8) by (simp add: batch_region_def)
  note used = used_ring_agree [OF agree_on_subset [OF v(2) this]]
  have "q_size ?d \<noteq> 0" using assms(2) by (auto simp: batch_def ring_ok_def)
  note used' = used [OF this]
  have "agree_on (A - (used_region ?d \<union> batch_buffers ?d ?m ps)) ?m (mv_mem v)"
    by (rule agree_on_trans [OF agree_on_subset [OF r(5)] agree_on_subset [OF v(2)]]) auto
  moreover have "vb_write_env E oc (h_file H) ?d ?m VIRTIO_MMIO_QUEUE_NOTIFY data = Some (Done (Inr (ps \<noteq> []), d', mv_mem v))"
    using v(1) assms(6) by (simp add: vb_write_env_def Let_def)
  ultimately show ?thesis
    using assms(1) r(2-4) used' blk_irq_ok [OF assms(4,5)]
    by (cases "ps = []") (simp_all add: loop_run_def handle_exit_def exit_mmio_write_def notify_address Let_def)
qed

theorem blk_notify_interrupts_witness:
  "\<exists>s'. loop_run counting_guest True demo_host (Run_Exit (MmioWrite 0xFEB00050 [0, 0, 0, 0])) demo_machine =
      Some (Done (s', [0, 0, 0, 0], False)) \<and> mc_irqs s' = [(5, True), (5, False)] \<and>
    used_idx ring_disk (mc_mem s') = used_idx ring_disk ring_mem + 1"
proof -
  have d: "mc_blk demo_machine = ring_disk" "mc_mem demo_machine = ring_mem" "mc_irqs demo_machine = []"
    "\<not> mc_mem_poisoned demo_machine" by (simp_all add: demo_machine_def)
  show ?thesis
    using blk_notify_interrupts [of demo_machine "[[0, 1, 2]]" demo_host "[0, 0, 0, 0]" counting_guest "{1..}" True]
      ring_example_batch img.fits [of Map.empty] d counting_guest_alone ring_example_region
    by (auto simp: demo_host_def Let_def)
qed

section \<open>Network packets\<close>

lemma net_irq_ok:
  "h_irq_ok H 6 True \<Longrightarrow> h_irq_ok H 6 False \<Longrightarrow> mc_irqs (net_irq H s) = mc_irqs s @ [(6, True), (6, False)]"
  by (simp add: net_irq_def set_irq_line_def)

lemma or_one_nonzero: "(x :: u32) OR 1 \<noteq> 0"
proof
  assume "x OR 1 = 0"
  then have "bit (x OR 1) 0 = bit (0 :: u32) 0" by (rule arg_cong)
  then show False by (simp add: bit_or_iff)
qed

text \<open>A poll of both queues beside the guest: what is received and what is sent, and where the driver finds it.\<close>

lemma poll_both:
  assumes tap: "vn_tap n = Some tap" and drv: "net_driver_ok n m hs" and fits: "tap_reads_fit T"
    and E: "leaves_alone E A" "net_region n m hs \<subseteq> A"
    and q: "q0 = vn_queues n ! 0" "q1 = vn_queues n ! 1" and got: "got = rx_taken T tap q0 m"
    and out: "out = send_all T (rx_tap T tap q0 m) (tx_packets q1 m hs)"
  shows "\<exists>n' v. poll_queues E oc T n (view_of m) = Some (Done ((got \<noteq> None \<or> fst out, n'), v)) \<and> vn_tap n' = Some (snd out) \<and>
    vn_interrupt_status n' = (if got = None \<and> hs = [] then vn_interrupt_status n else vn_interrupt_status n OR 1) \<and>
    (hs \<noteq> [] \<longrightarrow> vq_used_idx q1 (mv_mem v) = vq_avail_idx q1 m) \<and>
    (\<forall>k < length hs. vq_used_id q1 (mv_mem v) (vq_last_avail_idx q1 + of_nat k) = ucast (hs ! k)) \<and>
    (\<forall>p. got = Some p \<longrightarrow>
       mem_get (gm_bytes (mv_mem v)) (unat (vd_addr (rx_desc q0 m))) (12 + length p) = replicate 12 0 @ p \<and>
       vq_used_id q0 (mv_mem v) (vq_last_avail_idx q0) = ucast (rx_head q0 m) \<and>
       vq_used_len q0 (mv_mem v) (vq_last_avail_idx q0) = of_nat (length p + 12) \<and>
       vq_used_idx q0 (mv_mem v) = vq_last_avail_idx q0 + 1)"
proof -
  have ok: "rx_queue_ok q0 m" "tx_queue_ok q1 m hs" "rx_writes q0 m \<inter> tx_touched q1 m hs = {}"
    and A: "rx_region q0 m \<subseteq> A" "tx_touched q1 m hs \<subseteq> A" "rx_writes q0 m \<subseteq> A"
    using drv E(2) q by (auto simp: net_driver_ok_def net_region_def rx_region_def)
  obtain n1 m1 where rx: "process_rx oc T n m = Done (got \<noteq> None, n1, m1)" "vn_tap n1 = Some (rx_tap T tap q0 m)"
    "vn_queues n1 ! 1 = q1" "agree_on (- rx_writes q0 m) m m1"
    "vn_interrupt_status n1 = (if got = None then vn_interrupt_status n else vn_interrupt_status n OR 1)"
    and found: "\<And>p. got = Some p \<Longrightarrow> mem_get (gm_bytes m1) (unat (vd_addr (rx_desc q0 m))) (12 + length p) = replicate 12 0 @ p \<and>
       vq_used_id q0 m1 (vq_last_avail_idx q0) = ucast (rx_head q0 m) \<and>
       vq_used_len q0 m1 (vq_last_avail_idx q0) = of_nat (length p + 12) \<and> vq_used_idx q0 m1 = vq_last_avail_idx q0 + 1"
    using rx_isolated_frame [OF tap q(1) ok(1) fits, of oc] q(2) unfolding got by blast
  obtain v1 where v1: "process_rx_env E oc T n (view_of m) = Some (Done ((got \<noteq> None, n1), v1))" "agree_on A m1 (mv_mem v1)"
    using rx_beside [OF tap q(1) ok(1) fits E(1) A(1) rx(1), of "view_of m"] by auto
  have "agree_on (tx_touched q1 m hs) m m1" using rx(4) by (rule agree_on_subset) (use ok(3) in auto)
  note same = tx_queue_agree [OF ok(2) this]
  obtain n2 m2 v where tx: "process_tx_env E oc T n1 v1 = Some (Done ((fst out, n2), v))" "agree_on A m2 (mv_mem v)"
    "vn_tap n2 = Some (snd out)" "hs \<noteq> [] \<longrightarrow> vq_used_idx q1 m2 = vq_avail_idx q1 m1"
    "\<forall>k < length hs. vq_used_id q1 m2 (vq_last_avail_idx q1 + of_nat k) = ucast (hs ! k)"
    "vn_interrupt_status n2 = (if hs = [] then vn_interrupt_status n1 else vn_interrupt_status n1 OR 1)"
    "agree_on (- (vq_used_region q1 \<inter> tx_touched q1 m hs)) m1 m2"
    using tx_beside [OF rx(2) rx(3) [symmetric], of m1 hs E A v1 oc T] same E(1) A(2) v1(2) out by auto
  have "agree_on (rx_writes q0 m) m1 m2" using tx(7) by (rule agree_on_subset) (use ok(3) in auto)
  from agree_on_trans [OF this agree_on_subset [OF tx(2) A(3)]] have keep: "agree_on (rx_writes q0 m) m1 (mv_mem v)" .
  have sent: "vq_used_idx q1 (mv_mem v) = vq_used_idx q1 m2" "vq_used_id q1 (mv_mem v) i = vq_used_id q1 m2 i" if "hs \<noteq> []" for i
  proof -
    have "vq_ready q1" "vq_ok q1 m" using ok(2) that by (auto simp: tx_queue_ok_def tx_batch_def split: if_splits)
    moreover from this have "vq_used_region q1 \<subseteq> A" using A(2) by (auto simp: tx_touched_def tx_region_def)
    ultimately show "vq_used_idx q1 (mv_mem v) = vq_used_idx q1 m2" "vq_used_id q1 (mv_mem v) i = vq_used_id q1 m2 i"
      using vq_used_agree [OF tx(2)] by blast+
  qed
  have recv: "mem_get (gm_bytes (mv_mem v)) (unat (vd_addr (rx_desc q0 m))) (12 + length p) = replicate 12 0 @ p \<and>
       vq_used_id q0 (mv_mem v) (vq_last_avail_idx q0) = ucast (rx_head q0 m) \<and>
       vq_used_len q0 (mv_mem v) (vq_last_avail_idx q0) = of_nat (length p + 12) \<and>
       vq_used_idx q0 (mv_mem v) = vq_last_avail_idx q0 + 1" if p: "got = Some p" for p
  proof -
    note t = rx_isolated_taken [OF tap q(1) ok(1) p [unfolded got]]
    have w: "vq_ok q0 m" "vq_used_region q0 \<subseteq> rx_writes q0 m" "buffer_region (rx_desc q0 m) \<subseteq> rx_writes q0 m"
      "length p + 12 \<le> unat (vd_len (rx_desc q0 m))"
      using t(1,5) by (auto simp: rx_writes_def rx_buffer_def)
    have "mem_get (gm_bytes (mv_mem v)) (unat (vd_addr (rx_desc q0 m))) (12 + length p) =
        mem_get (gm_bytes m1) (unat (vd_addr (rx_desc q0 m))) (12 + length p)"
      by (rule agree_on_get [OF keep]) (use w(3,4) in \<open>auto simp: buffer_region_def\<close>)
    with found [OF p] vq_used_agree [OF keep w(2,1)] show ?thesis by simp
  qed
  have "poll_queues E oc T n (view_of m) = Some (Done ((got \<noteq> None \<or> fst out, n2), v))"
    using v1(1) tx(1) by (simp add: poll_queues_def act_bind_def act_return_def)
  moreover have "hs \<noteq> [] \<Longrightarrow> vq_avail_idx q1 m1 = vq_avail_idx q1 m" using same ok(2) by (auto simp: tx_queue_ok_def split: if_splits)
  ultimately show ?thesis
    using tx(3-6) rx(5) sent recv by (intro exI [of _ n2] exI [of _ v]) (auto simp: or.assoc)
qed

lemma net_poll_top:
  assumes "\<not> mc_stop s" and "\<not> mc_mem_poisoned s" and "\<not> mc_net_poisoned s"
    and "h_irq_ok H 6 True" and "h_irq_ok H 6 False" and "should_interrupt n"
    and "poll_queues E oc (h_tap H) (mc_net s) (view_of (mc_mem s)) = Some (Done ((work, n), v))"
  shows "\<exists>s'. loop_top E oc H 0 True True s = Some (Done (Some s')) \<and> mc_mem s' = mv_mem v \<and> mc_net s' = n \<and>
    mc_irqs s' = mc_irqs s @ (if work then [(6, True), (6, False)] else [])"
  using assms net_irq_ok [OF assms(4,5)] by (cases work) (simp_all add: loop_top_def loop_check_def loop_poll_def poll_net_def Let_def)

text \<open>
  C35. The interrupt of a network poll. On processor 0, with both locks free, the driver's two queues set up
  as they should be (either of them may be off) and some packets queued to be sent, beside other processors
  that leave the queues and their buffers alone until the poll has served them: the poll takes
  all queued packets, completes each of them in the used ring and sets the interrupt bit; but the guest
  is interrupted only if the interface has accepted one of them or a packet has been received in the same
  poll. When neither is so, the buffers are given back and the bit is set, and line 6 stays as it was.
\<close>

theorem net_poll_interrupts:
  assumes "\<not> mc_stop s" and "\<not> mc_mem_poisoned s" and "\<not> mc_net_poisoned s"
    and "vn_tap (mc_net s) = Some tap" and "net_driver_ok (mc_net s) (mc_mem s) hs" and "hs \<noteq> []"
    and "q0 = vn_queues (mc_net s) ! 0" and "q1 = vn_queues (mc_net s) ! 1"
    and "tap_reads_fit (h_tap H)" and "h_irq_ok H 6 True" and "h_irq_ok H 6 False"
    and "leaves_alone E A" and "net_region (mc_net s) (mc_mem s) hs \<subseteq> A"
  shows "\<exists>s'. loop_top E oc H 0 True True s = Some (Done (Some s')) \<and>
    vq_used_idx q1 (mc_mem s') = vq_avail_idx q1 (mc_mem s) \<and>
    (\<forall>k < length hs. vq_used_id q1 (mc_mem s') (vq_last_avail_idx q1 + of_nat k) = ucast (hs ! k)) \<and>
    vn_interrupt_status (mc_net s') = vn_interrupt_status (mc_net s) OR 1 \<and>
    mc_irqs s' = mc_irqs s @
      (if rx_taken (h_tap H) tap q0 (mc_mem s) \<noteq> None \<or>
          fst (send_all (h_tap H) (rx_tap (h_tap H) tap q0 (mc_mem s)) (tx_packets q1 (mc_mem s) hs))
       then [(6, True), (6, False)] else [])"
proof -
  obtain n' v where p: "poll_queues E oc (h_tap H) (mc_net s) (view_of (mc_mem s)) =
      Some (Done ((rx_taken (h_tap H) tap q0 (mc_mem s) \<noteq> None \<or>
        fst (send_all (h_tap H) (rx_tap (h_tap H) tap q0 (mc_mem s)) (tx_packets q1 (mc_mem s) hs)), n'), v))"
    "vn_interrupt_status n' = vn_interrupt_status (mc_net s) OR 1" "vq_used_idx q1 (mv_mem v) = vq_avail_idx q1 (mc_mem s)"
    "\<forall>k < length hs. vq_used_id q1 (mv_mem v) (vq_last_avail_idx q1 + of_nat k) = ucast (hs ! k)"
    using poll_both [OF assms(4,5,9,12,13,7,8) refl refl, of oc] assms(6) by auto
  have "should_interrupt n'" using p(2) or_one_nonzero by (simp add: should_interrupt_def)
  from net_poll_top [OF assms(1-3,10,11) this p(1)] p(2-4) show ?thesis by auto
qed

text \<open>
  C19. Reception, from the wire to the interrupt. On processor 0, with both locks free, the driver's two queues set up
  as they should be (the transmit queue on or off, with or without packets), when a packet
  is waiting that fits into the driver's next buffer, and beside other processors that leave the queues and
  their buffers alone until the poll has served them: after the poll the buffer holds a zeroed header and the
  packet, the completion with its length is published, the queued packets have been offered to the interface,
  and line 6 is pulsed once.
\<close>

theorem net_rx_interrupts:
  assumes "\<not> mc_stop s" and "\<not> mc_mem_poisoned s" and "\<not> mc_net_poisoned s"
    and "vn_tap (mc_net s) = Some tap" and "net_driver_ok (mc_net s) (mc_mem s) hs"
    and "q0 = vn_queues (mc_net s) ! 0" and "q1 = vn_queues (mc_net s) ! 1"
    and "rx_waiting q0 (mc_mem s)" and "tap_read (h_tap H) tap 1514 = (Inr p, tap')" and "p \<noteq> []"
    and "12 + length p \<le> rx_room q0 (mc_mem s)"
    and "tap_reads_fit (h_tap H)" and "h_irq_ok H 6 True" and "h_irq_ok H 6 False"
    and "leaves_alone E A" and "net_region (mc_net s) (mc_mem s) hs \<subseteq> A"
  shows "\<exists>s'. loop_top E oc H 0 True True s = Some (Done (Some s')) \<and>
    mem_get (gm_bytes (mc_mem s')) (unat (vd_addr (rx_desc q0 (mc_mem s)))) (12 + length p) = replicate 12 0 @ p \<and>
    vq_used_id q0 (mc_mem s') (vq_last_avail_idx q0) = ucast (rx_head q0 (mc_mem s)) \<and>
    vq_used_len q0 (mc_mem s') (vq_last_avail_idx q0) = of_nat (length p + 12) \<and>
    vq_used_idx q0 (mc_mem s') = vq_last_avail_idx q0 + 1 \<and>
    vn_tap (mc_net s') = Some (snd (send_all (h_tap H) tap' (tx_packets q1 (mc_mem s) hs))) \<and>
    mc_irqs s' = mc_irqs s @ [(6, True), (6, False)]"
proof -
  have got: "rx_taken (h_tap H) tap q0 (mc_mem s) = Some p" "rx_tap (h_tap H) tap q0 (mc_mem s) = tap'"
    using assms(8-11) by (simp_all add: rx_taken_def rx_tap_def)
  obtain n' v where p: "poll_queues E oc (h_tap H) (mc_net s) (view_of (mc_mem s)) = Some (Done ((True, n'), v))"
    "vn_tap n' = Some (snd (send_all (h_tap H) tap' (tx_packets q1 (mc_mem s) hs)))"
    "vn_interrupt_status n' = vn_interrupt_status (mc_net s) OR 1"
    "mem_get (gm_bytes (mv_mem v)) (unat (vd_addr (rx_desc q0 (mc_mem s)))) (12 + length p) = replicate 12 0 @ p"
    "vq_used_id q0 (mv_mem v) (vq_last_avail_idx q0) = ucast (rx_head q0 (mc_mem s))"
    "vq_used_len q0 (mv_mem v) (vq_last_avail_idx q0) = of_nat (length p + 12)"
    "vq_used_idx q0 (mv_mem v) = vq_last_avail_idx q0 + 1"
    using poll_both [OF assms(4,5,12,15,16,6,7) refl refl, of oc] by (auto simp: got)
  have "should_interrupt n'" using p(3) or_one_nonzero by (simp add: should_interrupt_def)
  from net_poll_top [OF assms(1-3,13,14) this p(1)] p show ?thesis by auto
qed

text \<open>
  A machine with both queues on: a receive buffer queued at \<open>0x380\<close> on rings at \<open>0x700\<close>, \<open>0x800\<close> and \<open>0x900\<close>, and
  one packet to be sent on the rings of the earlier examples.
\<close>

definition duplex_mem :: guest_memory where
  "duplex_mem = (net_mem [1, 2, 3, 4])\<lparr>gm_bytes := mem_upd (mem_upd (gm_bytes (net_mem [1, 2, 3, 4]))
     0x700 (encode_desc 0x380 16 2 0)) 0x802 [1, 0, 0, 0]\<rparr>"

definition duplex_rx :: virt_queue where
  "duplex_rx = \<lparr>vq_desc_addr = 0x700, vq_avail_addr = 0x800, vq_used_addr = 0x900,
     vq_queue_size = 4, vq_ready = True, vq_last_avail_idx = 0\<rparr>"

definition duplex_machine :: "bytes list \<Rightarrow> (image, wire) machine" where
  "duplex_machine ps = demo_machine\<lparr>mc_mem := duplex_mem, mc_net := (net_dev ps)\<lparr>vn_queues := [duplex_rx, net_queue]\<rparr>\<rparr>"

definition refusing_host :: "(image, wire) host" where
  "refusing_host = demo_host\<lparr>h_tap := choosy_ops (\<lambda>_. False) []\<rparr>"

lemma duplex_queues:
  "vq_avail_idx duplex_rx duplex_mem = 1" "vq_head duplex_rx duplex_mem 0 = 0" "vq_last_avail_idx duplex_rx = 0"
  "vq_desc duplex_rx duplex_mem 0 = \<lparr>vd_addr = 0x380, vd_len = 16, vd_flags = 2, vd_next = 0\<rparr>"
  "vq_avail_idx net_queue duplex_mem = 1" "vq_head net_queue duplex_mem 0 = 0"
  "vq_desc net_queue duplex_mem 0 = \<lparr>vd_addr = 0x300, vd_len = 16, vd_flags = 0, vd_next = 0\<rparr>"
  "vq_ready duplex_rx" "vq_ready net_queue" "gm_len duplex_mem = 0x1000"
  by (simp_all add: vq_avail_idx_def vq_head_def vq_desc_def net_queue_def duplex_rx_def duplex_mem_def net_mem_def mem_u16_def
      desc_entry_def mem_eval)

lemma duplex_regions:
  "rx_writes duplex_rx duplex_mem = {0x900..<0x924} \<union> {0x380..<0x390}"
  "tx_touched net_queue duplex_mem [0] = ({0x100..<0x140} \<union> {0x500..<0x50C}) \<union> {0x600..<0x624} \<union> {0x300..<0x310}"
  by (auto simp: rx_writes_def rx_waiting_def tx_touched_def tx_region_def duplex_queues buffer_region_def vq_used_region_def
      vq_driver_region_def) (auto simp: duplex_rx_def net_queue_def)

lemma duplex_ok:
  "net_driver_ok (mc_net (duplex_machine ps)) duplex_mem [0]" "net_region (mc_net (duplex_machine ps)) duplex_mem [0] \<subseteq> {1..}"
  "rx_waiting duplex_rx duplex_mem" "rx_room duplex_rx duplex_mem = 16"
proof -
  have q: "vn_queues (mc_net (duplex_machine ps)) = [duplex_rx, net_queue]" by (simp add: duplex_machine_def)
  show w: "rx_waiting duplex_rx duplex_mem" "rx_room duplex_rx duplex_mem = 16"
    by (simp_all add: rx_waiting_def rx_room_def duplex_queues)
  have ok: "vq_ok duplex_rx duplex_mem" "vq_ok net_queue duplex_mem"
    by (simp_all add: vq_ok_def duplex_rx_def net_queue_def duplex_mem_def net_mem_def gm_range_def)
  have "buffer_region \<lparr>vd_addr = 0x380, vd_len = 16, vd_flags = 2, vd_next = 0\<rparr> \<inter> vq_used_region duplex_rx = {}"
    by (auto simp: buffer_region_def vq_used_region_def duplex_rx_def)
  then have rx: "rx_queue_ok duplex_rx duplex_mem"
    using ok(1) by (simp add: rx_queue_ok_def duplex_queues) (simp add: duplex_rx_def)
  have "vq_used_region net_queue \<inter> vq_driver_region net_queue = {}" "vq_used_region net_queue \<inter> {0x300..<0x310} = {}"
    by (auto simp: vq_used_region_def vq_driver_region_def net_queue_def)
  moreover have "vq_last_avail_idx net_queue = 0" "vq_queue_size net_queue = 4" by (simp_all add: net_queue_def)
  ultimately have tx: "tx_queue_ok net_queue duplex_mem [0]"
    using ok(2) by (simp add: tx_queue_ok_def tx_batch_def duplex_queues buffer_region_def)
  from rx tx show "net_driver_ok (mc_net (duplex_machine ps)) duplex_mem [0]"
    by (auto simp: net_driver_ok_def q duplex_regions)
  have "vq_driver_region duplex_rx \<subseteq> {1..}" by (auto simp: vq_driver_region_def duplex_rx_def)
  then show "net_region (mc_net (duplex_machine ps)) duplex_mem [0] \<subseteq> {1..}"
    by (auto simp: net_region_def rx_region_def q duplex_regions)
qed

lemma duplex_machine_sel:
  "\<not> mc_stop (duplex_machine ps)" "\<not> mc_mem_poisoned (duplex_machine ps)" "\<not> mc_net_poisoned (duplex_machine ps)"
  "vn_tap (mc_net (duplex_machine ps)) = Some \<lparr>ti_file = \<lparr>w_rx = ps, w_tx = []\<rparr>, ti_name = []\<rparr>"
  "mc_mem (duplex_machine ps) = duplex_mem" "mc_irqs (duplex_machine ps) = []" "vn_interrupt_status (mc_net (duplex_machine ps)) = 0"
  "vn_queues (mc_net (duplex_machine ps)) ! 0 = duplex_rx" "vn_queues (mc_net (duplex_machine ps)) ! 1 = net_queue"
  by (simp_all add: duplex_machine_def demo_machine_def net_dev_def vn_new_def)

lemma demo_hosts:
  "h_irq_ok refusing_host i b" "h_irq_ok demo_host i b" "tap_reads_fit (h_tap refusing_host)" "tap_reads_fit (h_tap demo_host)"
  by (simp_all add: refusing_host_def demo_host_def choosy.fits wire.fits)

text \<open>With nothing on the wire, a refused packet is completed without an interrupt, an accepted one with one.\<close>

theorem net_poll_interrupts_witness:
  "(\<exists>s'. loop_top counting_guest True refusing_host 0 True True (duplex_machine []) = Some (Done (Some s')) \<and>
      vq_used_idx net_queue (mc_mem s') = 1 \<and> vn_interrupt_status (mc_net s') = 1 \<and> mc_irqs s' = []) \<and>
   (\<exists>s'. loop_top counting_guest True refusing_host 0 True True (duplex_machine [[5, 6]]) = Some (Done (Some s')) \<and>
      vn_interrupt_status (mc_net s') = 1 \<and> mc_irqs s' = [(6, True), (6, False)]) \<and>
   (\<exists>s'. loop_top counting_guest True demo_host 0 True True (duplex_machine []) = Some (Done (Some s')) \<and>
      vn_interrupt_status (mc_net s') = 1 \<and> mc_irqs s' = [(6, True), (6, False)])"
proof -
  let ?t = "\<lambda>ps. \<lparr>ti_file = \<lparr>w_rx = ps, w_tx = []\<rparr>, ti_name = []\<rparr>"
  have d: "net_driver_ok (mc_net (duplex_machine ps)) (mc_mem (duplex_machine ps)) [0]" "[0] \<noteq> ([] :: u16 list)"
    "net_region (mc_net (duplex_machine ps)) (mc_mem (duplex_machine ps)) [0] \<subseteq> {1..}" for ps
    using duplex_ok by (simp_all add: duplex_machine_sel)
  note use = net_poll_interrupts [OF duplex_machine_sel(1-4) d(1,2) duplex_machine_sel(8,9) [symmetric] _ _ _
      counting_guest_alone d(3), of _ True]
  have p: "tx_packets net_queue duplex_mem [0] = [[1, 2, 3, 4]]"
    by (simp add: tx_packets_def duplex_queues tx_packet_def gm_range_def NET_HDR_LEN_def) (simp add: duplex_mem_def net_mem_def mem_eval)
  have reads: "tap_read (h_tap refusing_host) (?t []) 1514 = (Inl ''Resource temporarily unavailable (os error 11)'', ?t [])"
    "tap_read (h_tap refusing_host) (?t [[5, 6]]) 1514 = (Inr [5, 6], ?t [])"
    "tap_read (h_tap demo_host) (?t []) 1514 = (Inl ''Resource temporarily unavailable (os error 11)'', ?t [])"
    by (simp_all add: refusing_host_def demo_host_def choosy_ops_def tap_read_def wire_ops_def wire_read_def)
  have writes: "\<not> fst (send_all (h_tap refusing_host) (?t []) [[1, 2, 3, 4]])" "fst (send_all (h_tap demo_host) (?t []) [[1, 2, 3, 4]])"
    by (simp_all add: refusing_host_def demo_host_def choosy_ops_def tap_write_def wire_ops_def wire_write_def)
  show ?thesis
    using use [of refusing_host "[]"] use [of refusing_host "[[5, 6]]"] use [of demo_host "[]"] demo_hosts p reads writes
    by (auto simp: duplex_machine_sel duplex_queues rx_taken_def rx_tap_def duplex_ok)
qed

theorem net_rx_interrupts_witness:
  "\<exists>s' t. loop_top counting_guest True demo_host 0 True True (duplex_machine [[5, 6]]) = Some (Done (Some s')) \<and>
     mem_get (gm_bytes (mc_mem s')) 0x380 14 = replicate 12 0 @ [5, 6] \<and> vn_tap (mc_net s') = Some t \<and>
     w_tx (ti_file t) = [[1, 2, 3, 4]] \<and> mc_irqs s' = [(6, True), (6, False)]"
proof -
  let ?t = "\<lambda>ps. \<lparr>ti_file = \<lparr>w_rx = ps, w_tx = []\<rparr>, ti_name = []\<rparr>"
  have d: "net_driver_ok (mc_net (duplex_machine ps)) (mc_mem (duplex_machine ps)) [0]"
    "net_region (mc_net (duplex_machine ps)) (mc_mem (duplex_machine ps)) [0] \<subseteq> {1..}"
    "rx_waiting duplex_rx (mc_mem (duplex_machine ps))" "12 + length [5, 6 :: u8] \<le> rx_room duplex_rx (mc_mem (duplex_machine ps))" for ps
    using duplex_ok by (simp_all add: duplex_machine_sel)
  have p: "tx_packets net_queue duplex_mem [0] = [[1, 2, 3, 4]]"
    by (simp add: tx_packets_def duplex_queues tx_packet_def gm_range_def NET_HDR_LEN_def) (simp add: duplex_mem_def net_mem_def mem_eval)
  have t: "tap_read (h_tap demo_host) (?t [[5, 6]]) 1514 = (Inr [5, 6], ?t [])" "[5, 6] \<noteq> ([] :: bytes)"
    by (simp_all add: demo_host_def tap_read_def wire_ops_def wire_read_def)
  have w: "tap_write (h_tap demo_host) (?t []) [1, 2, 3, 4] =
      (Inr 4, \<lparr>ti_file = \<lparr>w_rx = [], w_tx = [[1, 2, 3, 4]]\<rparr>, ti_name = []\<rparr>)"
    by (simp add: demo_host_def tap_write_def wire_ops_def wire_write_def)
  show ?thesis
    using net_rx_interrupts [OF duplex_machine_sel(1-4) d(1) duplex_machine_sel(8,9) [symmetric] d(3) t d(4) demo_hosts(4,2,2)
        counting_guest_alone d(2), of True]
    by (auto simp: duplex_machine_sel duplex_queues p w)
qed

section \<open>Memory safety of an iteration\<close>

lemma serial_ub_free: "ub_free (serial_write oc p d)" "ub_free (serial_read oc p)"
  by (auto simp: serial_write_def serial_read_def ub_free_def usub_def split: list.splits)

lemma loop_run_ub_free:
  assumes "gm_wf (mc_mem s)" and "reads_fit (h_file H)"
  shows "run_ub_free (loop_run E True H r s)"
  using vb_write_env_ub_free [OF assms] serial_ub_free
  by (auto simp: loop_run_def handle_exit_def exit_io_out_def exit_io_in_def exit_mmio_write_def Let_def
      intro!: run_ub_free_bind ub_free_bind split: run_result.splits vcpu_exit.splits prod.splits)

definition net_aligned :: "('f, 'p) machine \<Rightarrow> bool" where
  "net_aligned s \<longleftrightarrow> (\<forall>q \<in> set (vn_queues (mc_net s)). used_aligned (mc_mem s) q)"

lemma poll_net_ub_free:
  assumes "tap_reads_fit (h_tap H)" and "\<not> mc_net_poisoned s \<Longrightarrow> net_inv (mc_net s)" and "net_aligned s"
  shows "run_ub_free (poll_net E True H mf nf s)"
proof (cases "mc_net_poisoned s")
  case False
  have "run_ub_free (poll_queues E True (h_tap H) (mc_net s) (view_of (mc_mem s)))"
    by (rule act_ok_ub [OF poll_queues_ok [of True True _ _ "mc_mem s"]])
      (use assms False in \<open>simp_all add: net_aligned_def net_inv_def\<close>)
  then show ?thesis by (simp add: poll_net_def)
qed (simp add: poll_net_def)

lemma loop_poll_ub_free:
  assumes "tap_reads_fit (h_tap H)" and "\<not> mc_net_poisoned s \<Longrightarrow> net_inv (mc_net s)" and "net_aligned s"
  shows "run_ub_free (loop_poll E True H i mf nf s)"
  using poll_net_ub_free [OF assms] by (simp add: loop_poll_def)

lemma loop_top_ub_free:
  assumes "tap_reads_fit (h_tap H)" and "\<not> mc_net_poisoned s \<Longrightarrow> net_inv (mc_net s)" and "net_aligned s"
  shows "run_ub_free (loop_top E True H i mf nf s)"
proof -
  have "run_ub_free (loop_poll E True H i mf nf (count_metric record_vcpu_run s))"
    by (rule loop_poll_ub_free) (use assms in \<open>simp_all add: net_aligned_def\<close>)
  then show ?thesis by (auto simp: loop_top_def loop_check_def intro!: run_ub_free_bind)
qed

end
