(* ===== verification/Ax_Startup.thy ===== *)
theory Ax_Startup
  imports Ax_Threads Ax_Config Ax_Acpi Ax_Loader Ax_Vcpu Ax_Error
begin

text \<open>
  Starting the machine (\<open>main\<close> of \<open>src/axvm_core/src/main.rs\<close>): the sequence from the accepted
  configuration to the threads, with every error the sequence can return. KVM, the host's memory
  mapping, its files and its network interface are parameters, kept in one record (\<open>platform\<close>). The
  argument parser, the log and the banner are left out, and the registration of the Ctrl-C handler
  is taken to succeed.
\<close>

section \<open>The platform\<close>

record memory_region =
  mr_slot :: u32
  mr_guest_phys_addr :: u64
  mr_memory_size :: u64
  mr_userspace_addr :: u64
  mr_flags :: u32

text \<open>
  The KVM calls of \<open>main\<close> over the state of the virtual machine, the handles of its processors and
  a type of CPUID tables, with the two constants of the bindings that \<open>main\<close> names.
\<close>

record ('k, 'v, 'c) kvm_ops =
  ko_new :: "'k result"
  ko_create_vm :: "'k \<Rightarrow> 'k result"
  ko_create_irq_chip :: "'k \<Rightarrow> 'k result"
  ko_create_pit2 :: "'k \<Rightarrow> u32 \<Rightarrow> 'k result"
  ko_set_user_memory_region :: "'k \<Rightarrow> memory_region \<Rightarrow> 'k result"
  ko_create_vcpu :: "'k \<Rightarrow> u64 \<Rightarrow> ('v \<times> 'k) result"
  ko_get_supported_cpuid :: "'k \<Rightarrow> nat \<Rightarrow> 'c result"
  ko_set_cpuid2 :: "'v \<Rightarrow> 'c \<Rightarrow> 'v result"
  ko_vcpu :: "'v vcpu_ops"
  ko_PIT_SPEAKER_DUMMY :: u32
  ko_MAX_CPUID_ENTRIES :: nat

record ('k, 'v, 'c, 'f, 'p) platform =
  pf_kvm :: "('k, 'v, 'c) kvm_ops"
  pf_host_cpus :: usize
  pf_path_exists :: "string \<Rightarrow> bool"
  pf_mmap :: "usize \<Rightarrow> usize option"
  pf_file :: "'f file_ops"
  pf_tap :: "'p tap_ops"

section \<open>The sequence\<close>

text \<open>The virtual machine with its interrupt chip and timer.\<close>

definition create_vm :: "('k, 'v, 'c) kvm_ops \<Rightarrow> (axvm_error + 'k) exec" where
  "create_vm K =
     try_bind (map_err KvmInit (Done (ko_new K))) (\<lambda>kvm.
     try_bind (map_err VmCreation (Done (ko_create_vm K kvm))) (\<lambda>vm.
     try_bind (map_err (\<lambda>e. VmCreation (''IRQ Chip Error: '' @ e)) (Done (ko_create_irq_chip K vm))) (\<lambda>vm1.
       map_err (\<lambda>e. VmCreation (''PIT Error: '' @ e))
         (Done (ko_create_pit2 K vm1 (ko_PIT_SPEAKER_DUMMY K))))))"

text \<open>Guest memory, and its registration as the slot at guest address zero.\<close>

definition create_memory ::
  "bool \<Rightarrow> ('k, 'v, 'c, 'f, 'p) platform \<Rightarrow> vm_config \<Rightarrow> 'k \<Rightarrow> (axvm_error + guest_memory \<times> 'k) exec" where
  "create_memory oc P config vm =
     exec_bind (memory_bytes oc config) (\<lambda>sz.
     try_bind (map_err MemoryAllocation (gm_new oc (pf_mmap P) sz)) (\<lambda>guest_mem.
       let mem_region = \<lparr>mr_slot = 0, mr_guest_phys_addr = 0, mr_memory_size = sz,
             mr_userspace_addr = gm_ptr guest_mem, mr_flags = 0\<rparr> in
       try_bind (map_err MemorySetup (Done (ko_set_user_memory_region (pf_kvm P) vm mem_region))) (\<lambda>vm'.
         Done (Inr (guest_mem, vm')))))"

text \<open>The loop that creates the processors.\<close>

fun create_vcpus ::
  "bool \<Rightarrow> ('k, 'v, 'c) kvm_ops \<Rightarrow> u64 \<Rightarrow> nat list \<Rightarrow> 'k \<Rightarrow> guest_memory \<Rightarrow>
     (axvm_error + 'v list \<times> 'k \<times> guest_memory) exec" where
  "create_vcpus oc K entry_point [] vm guest_mem = Done (Inr ([], vm, guest_mem))"
| "create_vcpus oc K entry_point (cpu_id # ids) vm guest_mem =
     try_bind (map_err VcpuCreation (Done (ko_create_vcpu K vm (of_nat cpu_id)))) (\<lambda>(vcpu, vm1).
     try_bind (map_err CpuidSetup (Done (ko_get_supported_cpuid K vm1 (ko_MAX_CPUID_ENTRIES K)))) (\<lambda>kvm_cpuid.
     try_bind (map_err CpuidSetup (Done (ko_set_cpuid2 K vcpu kvm_cpuid))) (\<lambda>vcpu1.
     try_bind (map_err LongModeSetup (setup_long_mode oc (ko_vcpu K) vcpu1 guest_mem entry_point 0x7000))
       (\<lambda>(vcpu2, mem1).
     try_bind (create_vcpus oc K entry_point ids vm1 mem1) (\<lambda>(vs, vm2, mem2).
       Done (Inr (vcpu2 # vs, vm2, mem2)))))))"

text \<open>The network device: without a TAP interface it is there, with its link down.\<close>

definition create_net :: "'p tap_ops \<Rightarrow> 'p virtio_net exec" where
  "create_net T = exec_bind (tap_new T (Some (bytes_of_string ''axvm-tap0''))) (\<lambda>r.
     Done (case r of Inr tap_iface \<Rightarrow> vn_new (Some tap_iface) | Inl e \<Rightarrow> vn_new None))"

definition new_machine :: "guest_memory \<Rightarrow> 'f virtio_block \<Rightarrow> 'p virtio_net \<Rightarrow> vm_metrics \<Rightarrow> ('f, 'p) machine" where
  "new_machine mem blk net metrics = \<lparr>mc_mem = mem, mc_blk = blk, mc_net = net, mc_metrics = metrics,
     mc_out = [], mc_irqs = [], mc_stop = False, mc_mem_poisoned = False, mc_net_poisoned = False\<rparr>"

text \<open>
  How \<open>main\<close> ends its first part: it exits on a bad configuration, returns an error, or has started
  one thread for each processor.
\<close>

datatype ('k, 'v, 'f, 'p) boot =
    Config_Rejected string
  | Boot_Failed axvm_error
  | Vm_Running 'k "'v list" "('f, 'p) machine \<times> thread list"

definition boot_vm ::
  "bool \<Rightarrow> ('k, 'v, 'c, 'f, 'p) platform \<Rightarrow> vm_config \<Rightarrow>
     (axvm_error + 'k \<times> 'v list \<times> ('f, 'p) machine \<times> thread list) exec" where
  "boot_vm oc P config =
     try_bind (create_vm (pf_kvm P)) (\<lambda>vm.
     try_bind (create_memory oc P config vm) (\<lambda>(guest_mem, vm1).
     try_bind (map_err (\<lambda>e. MemoryWrite (''ACPI Error: '' @ e)) (setup_acpi oc guest_mem (vcpus config))) (\<lambda>mem1.
     exec_bind (memory_bytes oc config) (\<lambda>sz.
     try_bind (map_err InternalError (load_linux oc (pf_file P) mem1 (kernel_path config) sz (cmdline config)))
       (\<lambda>(entry_point, mem2).
     try_bind (create_vcpus oc (pf_kvm P) entry_point [0..<unat (vcpus config)] vm1 mem2) (\<lambda>(vs, vm2, mem3).
       let virtio_blk = vb_new (pf_file P) (disk_path config) in
       exec_bind (create_net (pf_tap P)) (\<lambda>virtio_net.
       let metrics = (if no_metrics config then metrics_disabled else metrics_new) in
       Done (Inr (vm2, vs, new_machine mem3 virtio_blk virtio_net metrics,
         replicate (length vs) Ready)))))))))"

definition axvm_main ::
  "bool \<Rightarrow> ('k, 'v, 'c, 'f, 'p) platform \<Rightarrow> vm_config \<Rightarrow> ('k, 'v, 'f, 'p) boot exec" where
  "axvm_main oc P config =
     exec_bind (validate oc (pf_host_cpus P) (pf_path_exists P) config) (\<lambda>r.
       case r of Inl e \<Rightarrow> Done (Config_Rejected e)
       | Inr _ \<Rightarrow> exec_bind (boot_vm oc P config) (\<lambda>b.
           Done (case b of Inl e \<Rightarrow> Boot_Failed e | Inr (vm, vs, sys) \<Rightarrow> Vm_Running vm vs sys)))"

section \<open>A KVM that accepts\<close>

text \<open>
  What \<open>main\<close> needs of KVM to get as far as the threads: that each of its calls succeeds when it is made,
  once and in the documented order, and that processors keep the registers they are given. The stage of a
  virtual machine says which calls have been made on it; nothing is asked of a call at another
  stage, of a second interrupt chip or timer, of a processor number that is out of turn or at or above
  the host's limit, or of a memory slot that is not aligned to pages.
\<close>

datatype kvm_stage = Kvm_Open | Vm_Created | Vm_Irq_Chip | Vm_Timer | Vm_Vcpus nat

definition main_region :: "memory_region \<Rightarrow> bool" where
  "main_region r \<longleftrightarrow> mr_slot r = 0 \<and> mr_guest_phys_addr r = 0 \<and> mr_flags r = 0 \<and> 0 < mr_memory_size r \<and>
     4096 dvd unat (mr_memory_size r) \<and> 4096 dvd unat (mr_userspace_addr r)"

locale kvm_host = vcpu_regs "ko_vcpu K" sregs regs
  for K :: "('k, 'v, 'c) kvm_ops" and sregs :: "'v \<Rightarrow> kvm_sregs" and regs :: "'v \<Rightarrow> kvm_regs" +
  fixes stage :: "'k \<Rightarrow> kvm_stage" and max_vcpus :: nat
  assumes new: "\<exists>k. ko_new K = Inr k \<and> stage k = Kvm_Open"
    and create_vm: "stage k = Kvm_Open \<Longrightarrow> \<exists>k'. ko_create_vm K k = Inr k' \<and> stage k' = Vm_Created"
    and create_irq_chip: "stage k = Vm_Created \<Longrightarrow> \<exists>k'. ko_create_irq_chip K k = Inr k' \<and> stage k' = Vm_Irq_Chip"
    and create_pit2: "stage k = Vm_Irq_Chip \<Longrightarrow>
      \<exists>k'. ko_create_pit2 K k (ko_PIT_SPEAKER_DUMMY K) = Inr k' \<and> stage k' = Vm_Timer"
    and set_user_memory_region: "stage k = Vm_Timer \<Longrightarrow> main_region r \<Longrightarrow>
      \<exists>k'. ko_set_user_memory_region K k r = Inr k' \<and> stage k' = Vm_Vcpus 0"
    and create_vcpu: "stage k = Vm_Vcpus i \<Longrightarrow> i < max_vcpus \<Longrightarrow>
      \<exists>v k'. ko_create_vcpu K k (of_nat i) = Inr (v, k') \<and> stage k' = Vm_Vcpus (Suc i)"
    and get_supported_cpuid: "stage k = Vm_Vcpus i \<Longrightarrow> \<exists>c. ko_get_supported_cpuid K k (ko_MAX_CPUID_ENTRIES K) = Inr c"
    and set_cpuid2: "ko_create_vcpu K k j = Inr (v, k') \<Longrightarrow> ko_get_supported_cpuid K k' (ko_MAX_CPUID_ENTRIES K) = Inr c \<Longrightarrow>
      \<exists>v'. ko_set_cpuid2 K v c = Inr v'"
begin

lemma create_vm_ok: "\<exists>k. Ax_Startup.create_vm K = Done (Inr k) \<and> stage k = Vm_Timer"
proof -
  obtain k where "ko_new K = Inr k" "stage k = Kvm_Open" using new by blast
  moreover from this obtain k1 where "ko_create_vm K k = Inr k1" "stage k1 = Vm_Created" using create_vm by blast
  moreover from this obtain k2 where "ko_create_irq_chip K k1 = Inr k2" "stage k2 = Vm_Irq_Chip" using create_irq_chip by blast
  moreover from this obtain k3 where "ko_create_pit2 K k2 (ko_PIT_SPEAKER_DUMMY K) = Inr k3" "stage k3 = Vm_Timer"
    using create_pit2 by blast
  ultimately show ?thesis by (simp add: Ax_Startup.create_vm_def map_err_def)
qed

text \<open>The loop over the processors: each starts in the same state, the table in memory is written once over.\<close>

lemma create_vcpus_ok:
  assumes "gm_wf m" and "gm_range m 0 0x5000" and "stage k = Vm_Vcpus i" and "i + j \<le> max_vcpus"
  shows "\<exists>vs k'. create_vcpus oc K entry_point [i..<i + j] k m =
      Done (Inr (vs, k', if j = 0 then m else m\<lparr>gm_bytes := gdt_bytes (gm_bytes m)\<rparr>)) \<and>
    length vs = j \<and> (\<forall>v \<in> set vs. protected_mode (sregs v) (regs v) (gdt_bytes f) entry_point 0x7000)"
  using assms
proof (induction j arbitrary: i k m)
  case (Suc j)
  let ?m = "m\<lparr>gm_bytes := gdt_bytes (gm_bytes m)\<rparr>"
  have ids: "[i..<i + Suc j] = i # [Suc i..<Suc i + j]" by (simp add: upt_conv_Cons)
  obtain v k1 where v: "ko_create_vcpu K k (of_nat i) = Inr (v, k1)" "stage k1 = Vm_Vcpus (Suc i)"
    using create_vcpu [OF Suc.prems(3)] Suc.prems(4) by auto
  obtain c where c: "ko_get_supported_cpuid K k1 (ko_MAX_CPUID_ENTRIES K) = Inr c" using get_supported_cpuid [OF v(2)] by blast
  obtain v1 where v1: "ko_set_cpuid2 K v c = Inr v1" using set_cpuid2 [OF v(1) c] by blast
  obtain v2 where v2: "setup_long_mode oc (ko_vcpu K) v1 m entry_point 0x7000 = Done (Inr (v2, ?m))"
    "protected_mode (sregs v2) (regs v2) (gdt_bytes f) entry_point 0x7000"
    using setup_long_mode_ok [OF Suc.prems(1,2)] by blast
  have "gm_wf ?m" "gm_range ?m 0 0x5000" using Suc.prems by (simp_all add: gm_wf_def gm_range_def)
  from Suc.IH [OF this v(2)] Suc.prems(4) obtain vs k2 where vs: "create_vcpus oc K entry_point [Suc i..<Suc i + j] k1 ?m = Done (Inr (vs, k2, ?m))"
    "length vs = j" "\<forall>v \<in> set vs. protected_mode (sregs v) (regs v) (gdt_bytes f) entry_point 0x7000"
    by (auto split: if_splits)
  show ?case unfolding ids using v c v1 v2 vs by (simp add: map_err_def)
qed simp

end

text \<open>
  A KVM with register files as processors and at most 64 of them. It refuses a second interrupt chip, a
  second timer, a timer without the chip, a slot that is not aligned and a processor number that
  exists or is too large, and remembers the memory slot it was given.
\<close>

record slot_vm =
  sv_stage :: kvm_stage
  sv_slot :: "memory_region option"

definition kvm_refuses :: "'a result" where
  "kvm_refuses = Inl ''Invalid argument (os error 22)''"

definition slot_advance :: "kvm_stage \<Rightarrow> kvm_stage \<Rightarrow> slot_vm \<Rightarrow> slot_vm result" where
  "slot_advance a b k = (if sv_stage k = a then Inr (k\<lparr>sv_stage := b\<rparr>) else kvm_refuses)"

definition slot_kvm :: "(slot_vm, reg_file, unit) kvm_ops" where
  "slot_kvm = \<lparr>ko_new = Inr \<lparr>sv_stage = Kvm_Open, sv_slot = None\<rparr>,
     ko_create_vm = slot_advance Kvm_Open Vm_Created, ko_create_irq_chip = slot_advance Vm_Created Vm_Irq_Chip,
     ko_create_pit2 = (\<lambda>k _. slot_advance Vm_Irq_Chip Vm_Timer k),
     ko_set_user_memory_region = (\<lambda>k r. if main_region r then slot_advance Vm_Timer (Vm_Vcpus 0) (k\<lparr>sv_slot := Some r\<rparr>)
       else kvm_refuses),
     ko_create_vcpu = (\<lambda>k i. case sv_stage k of
         Vm_Vcpus n \<Rightarrow> if unat i = n \<and> n < 64 then Inr (reset_state, k\<lparr>sv_stage := Vm_Vcpus (Suc n)\<rparr>) else kvm_refuses
       | _ \<Rightarrow> kvm_refuses),
     ko_get_supported_cpuid = (\<lambda>_ _. Inr ()), ko_set_cpuid2 = (\<lambda>v _. Inr v), ko_vcpu = reg_ops,
     ko_PIT_SPEAKER_DUMMY = 1, ko_MAX_CPUID_ENTRIES = 80\<rparr>"

interpretation slot: kvm_host slot_kvm rf_sregs rf_regs sv_stage 64
proof -
  have "vcpu_regs (ko_vcpu slot_kvm) rf_sregs rf_regs" using rf.vcpu_regs_axioms by (simp add: slot_kvm_def)
  moreover have "kvm_host_axioms slot_kvm sv_stage 64"
    by unfold_locales (auto simp: slot_kvm_def slot_advance_def unat_of_nat_small)
  ultimately show "kvm_host slot_kvm rf_sregs rf_regs sv_stage 64" by (rule kvm_host.intro)
qed

section \<open>A machine that boots\<close>

definition boot_bytes :: "u8 \<Rightarrow> bytes \<Rightarrow> usize \<Rightarrow> string \<Rightarrow> nat \<Rightarrow> u8" where
  "boot_bytes n img mem_size cl = gdt_bytes (loaded_bytes (mem_upd (mem_upd (mem_upd (\<lambda>_. 0)
     0xE004C (madt_data n)) 0xE0024 (rsdt_data MADT_ADDR)) 0xE0000 (rsdp_data RSDT_ADDR)) img mem_size cl)"

text \<open>The three writers of guest memory leave each other's bytes alone.\<close>

lemma boot_bytes_acpi:
  assumes "length cl < 0xC0000"
  shows "acpi_valid (boot_bytes n img s cl) (unat n)"
proof -
  let ?f = "mem_upd (mem_upd (mem_upd (\<lambda>_. 0) 0xE004C (madt_data n)) 0xE0024 (rsdt_data MADT_ADDR))
     0xE0000 (rsdp_data RSDT_ADDR) :: nat \<Rightarrow> u8"
  have n: "unat n < 256" using unat_bound [of n] by simp
  have same: "boot_bytes n img s cl a = ?f a" if "0xE0000 \<le> a" "a < 0x100000" for a
    using that assms by (simp add: boot_bytes_def gdt_bytes_out loaded_bytes_out linux_region_def)
  have get: "mem_get (boot_bytes n img s cl) a k = mem_get ?f a k" if "0xE0000 \<le> a" "a + k \<le> 0x100000" for a k
    by (rule mem_get_cong) (use same that in auto)
  show ?thesis
    using n by (intro acpi_valid_tables) (simp_all add: get mem_get_upd_disjoint)
qed

lemma boot_bytes_linux:
  assumes "bz_image img" and "length cl < 0xC0000"
  shows "linux_loaded (boot_bytes n img s cl) img s cl"
  unfolding boot_bytes_def using linux_loaded_bytes [OF assms]
  by (rule linux_loaded_agree) (auto simp: linux_region_def gdt_bytes_out)

text \<open>
  A host that has the memory: \<open>mmap\<close> refuses a length of zero and grants, at the start of a page, the one
  length that is asked for.
\<close>

definition mmap_accepts :: "(usize \<Rightarrow> usize option) \<Rightarrow> usize \<Rightarrow> bool" where
  "mmap_accepts mmap sz \<longleftrightarrow> mmap 0 = None \<and>
     (case mmap ((sz + HUGE_PAGE_MASK) AND NOT HUGE_PAGE_MASK) of None \<Rightarrow> False | Some ptr \<Rightarrow> 4096 dvd unat ptr)"

lemma new_memory:
  assumes "validate oc cpus ex c = Done (Inr ())" and "mmap_accepts mmap (memory c * 1024 * 1024)"
  obtains m where "memory_bytes oc c = Done (gm_len m)" and "gm_new oc mmap (gm_len m) = Done (Inr m)"
    and "gm_wf m" and "unat (gm_len m) = unat (memory c) * 0x100000" and "0x8000000 \<le> unat (gm_len m)"
    and "gm_bytes m = (\<lambda>_. 0)" and "4096 dvd unat (gm_ptr m)"
proof -
  note v = validate_ok [OF assms(1)]
  let ?sz = "memory c * 1024 * 1024"
  note b = memory_bytes_ok(1) [OF v(3), of oc] memory_bytes_ok(2) [OF v(3)]
  have "unat ?sz + unat HUGE_PAGE_MASK < 2 ^ 64" using b(2) v(3) by (simp add: HUGE_PAGE_MASK_def)
  then have add: "uadd oc ?sz HUGE_PAGE_MASK = Done (?sz + HUGE_PAGE_MASK)" by (intro uadd_no_overflow) simp
  from assms(2) obtain ptr where "mmap ((?sz + HUGE_PAGE_MASK) AND NOT HUGE_PAGE_MASK) = Some ptr" "4096 dvd unat ptr"
    by (auto simp: mmap_accepts_def split: option.splits)
  then obtain m where m: "gm_new oc mmap ?sz = Done (Inr m)" "4096 dvd unat (gm_ptr m)"
    using add by (simp add: gm_new_def Let_def)
  obtain len: "gm_len m = ?sz" "gm_bytes m = (\<lambda>_. 0)" using gm_new_cases [OF m(1)] by metis
  show ?thesis
    by (rule that [of m]) (use b v(2) m len gm_new_wf(1) [OF m(1)] assms(2) in \<open>simp_all add: len(1) mmap_accepts_def\<close>)
qed

lemma boot_succeeds:
  assumes "validate oc (pf_host_cpus P) (pf_path_exists P) c = Done (Inr ())"
    and K: "kvm_host (pf_kvm P) sregs regs stage max_vcpus" and "unat (vcpus c) \<le> max_vcpus"
    and R: "regular_file (pf_file P) content pos"
    and "fo_open (pf_file P) (kernel c) = Inr f" and "bz_image (content f)"
    and "0x100000 + max 16 (length (img_kernel (content f))) \<le> unat (memory c) * 0x100000"
    and cl: "length (cmdline c) < 0xC0000"
    and "mmap_accepts (pf_mmap P) (memory c * 1024 * 1024)"
    and net: "create_net (pf_tap P) = Done net"
  shows "\<exists>k vs s. axvm_main oc P c = Done (Vm_Running k vs (s, replicate (unat (vcpus c)) Ready)) \<and>
    length vs = unat (vcpus c) \<and> unat (gm_len (mc_mem s)) = unat (memory c) * 0x100000 \<and>
    acpi_valid (gm_bytes (mc_mem s)) (unat (vcpus c)) \<and>
    linux_loaded (gm_bytes (mc_mem s)) (content f) (gm_len (mc_mem s)) (cmdline c) \<and>
    (\<forall>v \<in> set vs. protected_mode (sregs v) (regs v) (gm_bytes (mc_mem s)) (img_entry (content f)) 0x7000)"
proof -
  let ?K = "pf_kvm P" and ?img = "content f" and ?n = "vcpus c"
  obtain m where m: "memory_bytes oc c = Done (gm_len m)" "gm_new oc (pf_mmap P) (gm_len m) = Done (Inr m)"
    "gm_wf m" "unat (gm_len m) = unat (memory c) * 0x100000" "0x8000000 \<le> unat (gm_len m)" "gm_bytes m = (\<lambda>_. 0)"
    "4096 dvd unat (gm_ptr m)"
    by (rule new_memory [OF assms(1,9)])
  obtain k where k: "Ax_Startup.create_vm ?K = Done (Inr k)" "stage k = Vm_Timer" using kvm_host.create_vm_ok [OF K] by blast
  let ?r = "\<lparr>mr_slot = 0, mr_guest_phys_addr = 0, mr_memory_size = gm_len m, mr_userspace_addr = gm_ptr m, mr_flags = 0\<rparr>"
  have "main_region ?r" using m(4,5,7) by (simp add: main_region_def word_less_nat_alt)
  then obtain k1 where k1: "create_memory oc P c k = Done (Inr (m, k1))" "stage k1 = Vm_Vcpus 0"
    using kvm_host.set_user_memory_region [OF K k(2), of ?r] m(1,2)
    by (auto simp: create_memory_def map_err_def Let_def)
  let ?m1 = "m\<lparr>gm_bytes := mem_upd (mem_upd (mem_upd (\<lambda>_. 0) 0xE004C (madt_data ?n)) 0xE0024
    (rsdt_data MADT_ADDR)) 0xE0000 (rsdp_data RSDT_ADDR)\<rparr>"
  let ?m2 = "?m1\<lparr>gm_bytes := loaded_bytes (gm_bytes ?m1) ?img (gm_len m) (cmdline c)\<rparr>"
  have r: "gm_range m 0 0x100000" using m(5) by (simp add: gm_range_def)
  have acpi: "setup_acpi oc m ?n = Done (Inr ?m1)" using acpi_memory [OF m(3) r] m(6) by simp
  have load: "load_linux oc (pf_file P) ?m1 (kernel c) (gm_len m) (cmdline c) = Done (Inr (img_entry ?img, ?m2))"
    using load_linux_bytes [OF R assms(5) HOL.refl assms(6), of ?m1 "cmdline c" oc] m(3,4) assms(7) cl
    by (simp add: gm_wf_def)
  have wf: "gm_wf ?m2" "gm_range ?m2 0 0x5000" using m(3) r by (simp_all add: gm_wf_def gm_range_def)
  have n: "[0..<unat ?n] \<noteq> []" using validate_ok(4) [OF assms(1)] by (simp add: unat_gt_0)
  from kvm_host.create_vcpus_ok [OF K wf k1(2), of "unat ?n" oc "img_entry ?img" "gm_bytes ?m2"] assms(3) n
  obtain vs k2 where vs: "create_vcpus oc ?K (img_entry ?img) [0..<unat ?n] k1 ?m2 =
      Done (Inr (vs, k2, ?m2\<lparr>gm_bytes := gdt_bytes (gm_bytes ?m2)\<rparr>))" "length vs = unat ?n"
    "\<forall>v \<in> set vs. protected_mode (sregs v) (regs v) (gdt_bytes (gm_bytes ?m2)) (img_entry ?img) 0x7000"
    by (auto split: if_splits)
  have bytes: "gdt_bytes (gm_bytes ?m2) = boot_bytes ?n ?img (gm_len m) (cmdline c)" by (simp add: boot_bytes_def)
  show ?thesis
    using assms(1) k(1) k1(1) m(1,4) acpi load vs net boot_bytes_acpi [OF cl] boot_bytes_linux [OF assms(6) cl]
    by (simp add: axvm_main_def boot_vm_def map_err_def kernel_path_def new_machine_def Let_def bytes [simplified])
qed

text \<open>
  C11. The machine boots, from the command line to the threads. The conditions on the host are that KVM
  accepts each of the calls of \<open>main\<close> when it is made, for as many processors as the configuration
  asks for, that \<open>mmap\<close> grants the configured size, that the kernel is a regular file and that opening the TAP
  device returns, with an interface or an error. For an
  accepted configuration whose kernel is a bzImage that fits into guest memory and whose command line
  ends below the ACPI tables, in both build profiles: \<open>main\<close> starts one thread for each configured
  processor; guest memory has the configured size and holds valid ACPI tables for that number of
  processors, the kernel with its boot page and command line, and the descriptor table, none of which
  overwrites another; every processor is in protected mode at the kernel's entry point.
\<close>

theorem boot_complete:
  assumes "validate oc (pf_host_cpus P) (pf_path_exists P) c = Done (Inr ())"
    and K: "kvm_host (pf_kvm P) sregs regs stage max_vcpus" and "unat (vcpus c) \<le> max_vcpus"
    and R: "regular_file (pf_file P) content pos"
    and "fo_open (pf_file P) (kernel c) = Inr f" and "bz_image (content f)"
    and "0x100000 + max 16 (length (img_kernel (content f))) \<le> unat (memory c) * 0x100000"
    and cl: "length (cmdline c) < 0xC0000"
    and "mmap_accepts (pf_mmap P) (memory c * 1024 * 1024)"
    and net: "create_net (pf_tap P) = Done net"
  shows "\<exists>k vs s. axvm_main oc P c = Done (Vm_Running k vs (s, replicate (unat (vcpus c)) Ready)) \<and>
    length vs = unat (vcpus c) \<and> unat (gm_len (mc_mem s)) = unat (memory c) * 0x100000 \<and>
    acpi_valid (gm_bytes (mc_mem s)) (unat (vcpus c)) \<and>
    linux_loaded (gm_bytes (mc_mem s)) (content f) (gm_len (mc_mem s)) (cmdline c) \<and>
    (\<forall>v \<in> set vs. protected_mode (sregs v) (regs v) (gm_bytes (mc_mem s)) (img_entry (content f)) 0x7000)"
  using assms by (rule boot_succeeds)

text \<open>A host with a tiny kernel, register files for processors and no network device.\<close>

definition small_host :: "(slot_vm, reg_file, unit, image, wire) platform" where
  "small_host = \<lparr>pf_kvm = slot_kvm, pf_host_cpus = 8, pf_path_exists = (\<lambda>p. p = ''bzImage''),
     pf_mmap = (\<lambda>n. if n = 0 then None else Some 4096), pf_file = image_ops [''bzImage'' \<mapsto> tiny_kernel],
     pf_tap = (wire_ops [])\<lparr>to_open := (\<lambda>_. Inl ''No such file or directory (os error 2)'')\<rparr>\<rparr>"

lemma small_host_ok:
  fixes c defines "c \<equiv> config_default\<lparr>vcpus := 2\<rparr>"
  shows "validate True (pf_host_cpus small_host) (pf_path_exists small_host) c = Done (Inr ())"
    and "kvm_host (pf_kvm small_host) rf_sregs rf_regs sv_stage 64" and "unat (vcpus c) \<le> 64"
    and "regular_file (pf_file small_host) img_data img_pos"
    and "fo_open (pf_file small_host) (kernel c) = Inr \<lparr>img_data = tiny_kernel, img_pos = 0\<rparr>"
    and "bz_image (img_data \<lparr>img_data = tiny_kernel, img_pos = 0\<rparr>)"
    and "0x100000 + max 16 (length (img_kernel (img_data \<lparr>img_data = tiny_kernel, img_pos = 0\<rparr>))) \<le> unat (memory c) * 0x100000"
    and "length (cmdline c) < 0xC0000" and "mmap_accepts (pf_mmap small_host) (memory c * 1024 * 1024)"
    and "create_net (pf_tap small_host) = Done (vn_new None)"
  using slot.kvm_host_axioms img.regular_file_axioms tiny_kernel_ok
  by (simp_all add: c_def validate_def config_default_def umul_def small_host_def image_ops_def img_open_def
      DEFAULT_CMDLINE_def mmap_accepts_def HUGE_PAGE_MASK_def create_net_def tap_new_def)

theorem boot_complete_witness:
  "\<exists>k vs s. axvm_main True small_host (config_default\<lparr>vcpus := 2\<rparr>) =
      Done (Vm_Running k vs (s, [Ready, Ready])) \<and> length vs = 2 \<and> gm_bytes (mc_mem s) 0x100000 = 0xF4 \<and>
      acpi_valid (gm_bytes (mc_mem s)) 2"
proof -
  have two: "replicate 2 Ready = [Ready, Ready]" by (simp add: numeral_2_eq_2)
  from boot_complete [OF small_host_ok] tiny_kernel_ok show ?thesis
    by (auto simp: two linux_loaded_def mem_get_def)
qed

lemma small_host_boots:
  obtains k vs s where "axvm_main True small_host (config_default\<lparr>vcpus := 2\<rparr>) =
      Done (Vm_Running k vs (s, [Ready, Ready]))" and "length vs = 2"
proof -
  have two: "replicate 2 Ready = [Ready, Ready]" by (simp add: numeral_2_eq_2)
  from boot_succeeds [OF small_host_ok] that show ?thesis by (auto simp: two)
qed

section \<open>Guest memory and the device windows\<close>

text \<open>
  C40. Where guest memory ends and the devices begin. For an accepted configuration, the slot that is
  registered with KVM starts at guest address zero and has the configured size; an address in a device
  window lies in that slot exactly when the configuration asks for more than 4075 MB. Above that limit,
  which validation does not check, the guest's device accesses reach memory and never the devices.
\<close>

theorem mmio_windows_shadowed:
  assumes "validate oc cpus ex c = Done (Inr ())" and "create_memory oc P c k = Done (Inr (m, k'))"
    and "in_window VIRTIO_MMIO_BASE VIRTIO_MMIO_SIZE a \<or> in_window VIRTIO_NET_MMIO_BASE VIRTIO_NET_MMIO_SIZE a"
  shows "\<exists>r. ko_set_user_memory_region (pf_kvm P) k r = Inr k' \<and> mr_guest_phys_addr r = 0 \<and>
    mr_memory_size r = gm_len m \<and> mr_userspace_addr r = gm_ptr m \<and>
    (a < mr_memory_size r \<longleftrightarrow> 4075 < unat (memory c))"
proof -
  note v = validate_ok [OF assms(1)] and b = memory_bytes_ok [OF validate_ok(3) [OF assms(1)]]
  obtain sz where sz: "sz = memory c * 1024 * 1024" "gm_new oc (pf_mmap P) sz = Done (Inr m)"
    "ko_set_user_memory_region (pf_kvm P) k \<lparr>mr_slot = 0, mr_guest_phys_addr = 0, mr_memory_size = sz,
       mr_userspace_addr = gm_ptr m, mr_flags = 0\<rparr> = Inr k'"
    using assms(2) by (auto simp: create_memory_def Let_def map_err_def b(1) exec_bind_eq_Done split: sum.splits)
  have len: "gm_len m = sz" by (rule gm_new_cases [OF sz(2)])
  have "0xFEB00000 \<le> unat a" "unat a < 0xFEB11000"
    using assms(3) by (auto simp: in_window_def mmio_windows word_le_nat_alt word_less_nat_alt)
  then have "a < sz \<longleftrightarrow> 4075 < unat (memory c)"
    using b(2) sz(1) v(1) by (auto simp: word_less_nat_alt)
  with sz(3) len show ?thesis by (intro exI [of _ "\<lparr>mr_slot = 0, mr_guest_phys_addr = 0, mr_memory_size = sz,
       mr_userspace_addr = gm_ptr m, mr_flags = 0\<rparr>"]) simp
qed


theorem mmio_windows_shadowed_witness:
  "\<exists>m k' r. create_memory True small_host (config_default\<lparr>memory := 8192\<rparr>) \<lparr>sv_stage = Vm_Timer, sv_slot = None\<rparr> =
       Done (Inr (m, k')) \<and> sv_slot k' = Some r \<and> VIRTIO_MMIO_BASE < mr_memory_size r"
proof -
  let ?c = "config_default\<lparr>memory := 8192\<rparr>"
  let ?m = "\<lparr>gm_ptr = 4096, gm_len = 0x200000000, gm_owned = True, gm_mapped = 0x200000000, gm_bytes = (\<lambda>_. 0)\<rparr>"
  let ?r = "\<lparr>mr_slot = 0, mr_guest_phys_addr = 0, mr_memory_size = 0x200000000, mr_userspace_addr = 4096, mr_flags = 0\<rparr>"
  have v: "validate True 8 (\<lambda>_. True) ?c = Done (Inr ())"
    by (simp add: validate_def config_default_def umul_def)
  let ?k = "\<lparr>sv_stage = Vm_Timer, sv_slot = None\<rparr>" and ?k' = "\<lparr>sv_stage = Vm_Vcpus 0, sv_slot = Some ?r\<rparr>"
  have m: "create_memory True small_host ?c ?k = Done (Inr (?m, ?k'))"
    by (simp add: create_memory_def memory_bytes_def config_default_def umul_def gm_new_def uadd_def
        HUGE_PAGE_MASK_def small_host_def slot_kvm_def slot_advance_def main_region_def map_err_def Let_def)
  have w: "in_window VIRTIO_MMIO_BASE VIRTIO_MMIO_SIZE VIRTIO_MMIO_BASE \<or>
      in_window VIRTIO_NET_MMIO_BASE VIRTIO_NET_MMIO_SIZE VIRTIO_MMIO_BASE"
    by (simp add: in_window_def mmio_windows)
  obtain r where "ko_set_user_memory_region slot_kvm ?k r = Inr ?k'" "VIRTIO_MMIO_BASE < mr_memory_size r"
    using mmio_windows_shadowed [OF v m w] by (auto simp: small_host_def config_default_def)
  then have "r = ?r" by (simp add: slot_kvm_def slot_advance_def kvm_refuses_def split: if_splits)
  with m \<open>VIRTIO_MMIO_BASE < mr_memory_size r\<close> show ?thesis by fastforce
qed

section \<open>The memory that is booted with\<close>

lemma write_u8_wf: "write_u8 oc m a v = Done (Inr m') \<Longrightarrow> gm_wf m' = gm_wf m"
  and write_u64_wf: "write_u64 oc m a w = Done (Inr m') \<Longrightarrow> gm_wf m' = gm_wf m"
  by (auto simp: write_u8_def write_u64_def dest: write_slice_shape(3))

lemma map_err_Inr: "map_err f x = Done (Inr y) \<longleftrightarrow> x = Done (Inr y)"
  by (cases x rule: exec_sum_cases) (auto simp: map_err_def)

lemma setup_acpi_wf: "setup_acpi oc m n = Done (Inr m') \<Longrightarrow> gm_wf m' = gm_wf m"
  by (auto simp: setup_acpi_def dest!: write_slice_shape(3))

lemma load_linux_wf: "load_linux oc F m p sz cl = Done (Inr (e, m')) \<Longrightarrow> gm_wf m' = gm_wf m"
  by (auto simp: load_linux_def load_cmdline_def load_kernel_def Let_def map_err_Inr exec_bind_eq_Done
      dest!: write_slice_shape(3) write_u8_wf split: sum.splits if_splits prod.splits)

lemma setup_long_mode_wf: "setup_long_mode oc K v m e b = Done (Inr (v', m')) \<Longrightarrow> gm_wf m' = gm_wf m"
  by (auto simp: setup_long_mode_def setup_protected_mode_32bit_def setup_gdt_32bit_def dest!: write_u64_wf
      split: sum.splits)

lemma create_vcpus_wf: "create_vcpus oc K e ids k m = Done (Inr (vs, k', m')) \<Longrightarrow> gm_wf m' = gm_wf m"
proof (induction ids arbitrary: k m vs k' m')
  case (Cons i ids)
  then show ?case by (fastforce simp: map_err_Inr dest: setup_long_mode_wf)
qed simp

lemma create_memory_wf: "create_memory oc P c k = Done (Inr (m, k')) \<Longrightarrow> pf_mmap P 0 = None \<Longrightarrow> gm_wf m"
  by (auto simp: create_memory_def Let_def map_err_Inr exec_bind_eq_Done dest: gm_new_wf(1))

lemma booted_memory_wf:
  assumes "axvm_main oc P c = Done (Vm_Running k vs (s, ts))" and "pf_mmap P 0 = None"
  shows "gm_wf (mc_mem s)"
  using assms
  by (auto simp: axvm_main_def boot_vm_def Let_def map_err_Inr new_machine_def split: sum.splits
      dest!: create_vcpus_wf load_linux_wf setup_acpi_wf create_memory_wf)

section \<open>Start-up errors\<close>

lemma map_err_Inl: "map_err f x = Done (Inl e) \<longleftrightarrow> (\<exists>t. x = Done (Inl t) \<and> e = f t)"
  by (cases x rule: exec_sum_cases) (auto simp: map_err_def)

lemmas boot_error_simps = try_bind_eq_Inl map_err_Inl map_err_Inr exec_bind_eq_Done

lemma create_vm_error: "Ax_Startup.create_vm K = Done (Inl e) \<Longrightarrow> e \<in> range KvmInit \<union> range VmCreation"
  by (auto simp: Ax_Startup.create_vm_def boot_error_simps)

lemma create_memory_error: "create_memory oc P c k = Done (Inl e) \<Longrightarrow> e \<in> range MemoryAllocation \<union> range MemorySetup"
  by (auto simp: create_memory_def boot_error_simps Let_def)

lemma create_vcpus_error:
  "create_vcpus oc K ep ids k m = Done (Inl e) \<Longrightarrow> e \<in> range VcpuCreation \<union> range CpuidSetup \<union> range LongModeSetup"
proof (induction ids arbitrary: k m)
  case (Cons i ids)
  then show ?case by (auto simp: boot_error_simps)
qed simp

lemma accepted_acpi:
  assumes "validate oc cpus ex c = Done (Inr ())" and "create_memory oc P c k = Done (Inr (m, k'))"
    and "pf_mmap P 0 = None"
  shows "\<exists>m'. setup_acpi oc m n = Done (Inr m')"
proof -
  note v = validate_ok [OF assms(1)]
  have "gm_new oc (pf_mmap P) (memory c * 1024 * 1024) = Done (Inr m)"
    using assms(2) memory_bytes_ok(1) [OF v(3), of oc] by (auto simp: create_memory_def Let_def map_err_Inr)
  then have "gm_len m = memory c * 1024 * 1024" by (rule gm_new_cases)
  then have "gm_range m 0 0x100000" using memory_bytes_ok(2) [OF v(3)] v(2) by (simp add: gm_range_def)
  from acpi_memory [OF create_memory_wf [OF assms(2,3)] this] show ?thesis by blast
qed

lemma axvm_main_failed:
  "axvm_main oc P c = Done (Boot_Failed e) \<longleftrightarrow>
     validate oc (pf_host_cpus P) (pf_path_exists P) c = Done (Inr ()) \<and> boot_vm oc P c = Done (Inl e)"
  by (cases "validate oc (pf_host_cpus P) (pf_path_exists P) c" rule: exec_sum_cases;
      cases "boot_vm oc P c" rule: exec_sum_cases) (auto simp: axvm_main_def)

text \<open>
  C38. How start-up fails. Whatever KVM, the host's memory and the kernel file do, an accepted
  configuration fails with one of eight kinds of errors; writing the ACPI tables is not among the
  causes, because an accepted memory size always has room for them. The error asks for a shutdown in
  every case but two, a kernel that cannot be loaded and a CPUID table that cannot be set, which are
  classified as recoverable.
\<close>

theorem boot_failures_classified:
  assumes "axvm_main oc P c = Done (Boot_Failed e)" and "pf_mmap P 0 = None"
  shows "e \<in> range KvmInit \<union> range VmCreation \<union> range MemoryAllocation \<union> range MemorySetup \<union> range InternalError \<union>
      range VcpuCreation \<union> range CpuidSetup \<union> range LongModeSetup \<and>
    (requires_shutdown e \<longleftrightarrow> e \<notin> range InternalError \<union> range CpuidSetup) \<and>
    (is_recoverable e \<longleftrightarrow> e \<in> range InternalError \<union> range CpuidSetup)"
proof -
  have v: "validate oc (pf_host_cpus P) (pf_path_exists P) c = Done (Inr ())" and b: "boot_vm oc P c = Done (Inl e)"
    using assms(1) by (simp_all only: axvm_main_failed)
  have "e \<in> range KvmInit \<union> range VmCreation \<union> range MemoryAllocation \<union> range MemorySetup \<union> range InternalError \<union>
      range VcpuCreation \<union> range CpuidSetup \<union> range LongModeSetup"
    using b accepted_acpi [OF v _ assms(2), of _ _ _ "vcpus c"]
    by (fastforce simp: boot_vm_def boot_error_simps Let_def
        dest: create_vm_error create_memory_error create_vcpus_error)
  then show ?thesis by (auto simp: requires_shutdown_def is_recoverable_def less_eq_error_severity_def less_error_severity_def)
qed

theorem boot_failures_classified_witness:
  "\<exists>e. axvm_main True (small_host\<lparr>pf_file := image_ops Map.empty\<rparr>) config_default = Done (Boot_Failed e) \<and>
     is_recoverable e"
proof -
  let ?P = "small_host\<lparr>pf_file := image_ops Map.empty\<rparr>"
  let ?m = "\<lparr>gm_ptr = 4096, gm_len = 0x40000000, gm_owned = True, gm_mapped = 0x40000000, gm_bytes = (\<lambda>_. 0)\<rparr>"
  have v: "validate True (pf_host_cpus ?P) (pf_path_exists ?P) config_default = Done (Inr ())"
    by (simp add: validate_def config_default_def umul_def small_host_def)
  have b: "memory_bytes True config_default = Done 0x40000000"
    by (simp add: memory_bytes_def config_default_def umul_def)
  have k: "Ax_Startup.create_vm (pf_kvm ?P) = Done (Inr \<lparr>sv_stage = Vm_Timer, sv_slot = None\<rparr>)"
    by (simp add: Ax_Startup.create_vm_def small_host_def slot_kvm_def slot_advance_def map_err_def)
  obtain k' where m: "create_memory True ?P config_default \<lparr>sv_stage = Vm_Timer, sv_slot = None\<rparr> = Done (Inr (?m, k'))"
    by (simp add: create_memory_def b gm_new_def uadd_def HUGE_PAGE_MASK_def small_host_def slot_kvm_def slot_advance_def
        main_region_def map_err_def Let_def)
  obtain m' where a: "setup_acpi True ?m (vcpus config_default) = Done (Inr m')"
    using acpi_memory [of ?m] by (simp add: gm_wf_def gm_range_def)
  obtain t where l: "load_linux True (pf_file ?P) m' (kernel_path config_default) 0x40000000
      (cmdline config_default) = Done (Inl t)"
    by (simp add: load_linux_def load_header_def image_ops_def img_open_def)
  have "axvm_main True ?P config_default = Done (Boot_Failed (InternalError t))"
    unfolding axvm_main_failed by (simp only: v boot_vm_def k m a b l map_err_def try_bind_simps exec_bind.simps
        prod.case sum.case simp_thms)
  from this boot_failures_classified [OF this] show ?thesis by (auto simp: small_host_def)
qed

end
