(* ===== verification/Spec2Isabelle.thy ===== *)
theory Spec2Isabelle
  imports Ax_Memory Ax_Error Ax_Serial Ax_Virtio_Ring Ax_Block_Spec Ax_Tap Ax_Net_Queue Ax_Metrics Ax_Report Ax_Config
    Ax_Interference Ax_Blk_Env Ax_Blk_Atomic Ax_Blk_Refine Ax_Net_Env Ax_Net_Atomic Ax_Net_Link
    Ax_Net_Starve Ax_Acpi Ax_Linux Ax_Loader Ax_Vcpu Ax_Machine Ax_Threads Ax_Mutex Ax_Locks Ax_Dispatch Ax_Startup
begin

text \<open>
  AxVM is a small hypervisor on top of KVM, written in Rust (\<open>src/axvm_core/src\<close>). It validates a
  command line configuration, maps guest memory, writes ACPI tables, a Linux kernel and a descriptor
  table into it, creates the virtual processors, and then runs one thread for each of them. A thread
  runs its processor until KVM reports an exit and serves it: port accesses go to a serial console,
  memory-mapped accesses to a VirtIO block or a VirtIO network device, which work on queues in guest
  memory. Thread 0 also polls the network queues. All threads share guest memory, the devices, the
  counters and a stop flag.

  \<^bold>\<open>Theories and sources.\<close> Each definition of a component is the translation of one function, type or
  block of its source file and keeps its name where that is possible.

  \<^item> \<open>Ax_Prelude\<close>: results, panics and loops (below), bytes and little-endian integers, updates of byte
    memories, checked arithmetic.
  \<^item> \<open>Ax_Memory\<close> (\<open>memory.rs\<close>): guest memory as a record with the bytes of the mapping; allocation,
    slice and integer accesses, release. The locale \<open>byte_store\<close> states what clients use of it.
  \<^item> \<open>Ax_Error\<close> (\<open>error.rs\<close>), \<open>Ax_Serial\<close> (\<open>serial.rs\<close>), \<open>Ax_Metrics\<close> and \<open>Ax_Report\<close> (\<open>metrics.rs\<close>), \<open>Ax_Config\<close>
    (\<open>config.rs\<close>), \<open>Ax_Acpi\<close> (\<open>acpi.rs\<close>), \<open>Ax_Linux\<close> (\<open>linux.rs\<close>), \<open>Ax_Loader\<close> (\<open>loader.rs\<close>),
    \<open>Ax_Vcpu\<close> (\<open>vcpu.rs\<close>), \<open>Ax_Tap\<close> (\<open>tap.rs\<close>): the component of that file and its theorems.
  \<^item> \<open>Ax_File\<close>: the file operations that the loader and the block device call, as a record of functions;
    the locale \<open>regular_file\<close> is what is documented of regular files.
  \<^item> \<open>Ax_Virtio_Blk\<close> (\<open>virtio.rs\<close>): the block device, its registers, its queue and its requests.
    \<open>Ax_Virtio_Queue\<close> has its registers, \<open>Ax_Virtio_Chain\<close> the descriptor walk and single requests,
    \<open>Ax_Virtio_Ring\<close> whole batches and badly formed queues, and \<open>Ax_Block_Spec\<close> the abstract disk with
    the refinement of one batch in isolation.
  \<^item> \<open>Ax_Virtio_Net\<close> (\<open>virtio_net.rs\<close>): the network device; its theorems are in \<open>Ax_Net_Queue\<close>.
  \<^item> \<open>Ax_Interference\<close>: memory that the guest changes while a handler works on it, as a monad of actions
    with rules for safety, for the equivalence with an isolated run and for footprints. \<open>Ax_Blk_Env\<close> and
    \<open>Ax_Net_Env\<close> are the data paths of the two devices over it (suffix \<open>_env\<close>), with their invariants and
    memory safety; \<open>Ax_Blk_Atomic\<close> and \<open>Ax_Net_Atomic\<close> show when they may be taken to be atomic, \<open>Ax_Net_Poll\<close> states what a
    driver's two network queues are like and what a poll of them touches,
    \<open>Ax_Blk_Refine\<close> and \<open>Ax_Net_Link\<close> show that over its whole life the block device refines the abstract disk and the
    network device a link in which packets that are refused or do not fit are lost, and no others, and
    \<open>Ax_Net_Starve\<close> has a guest beside which a poll does not end.
  \<^item> \<open>Ax_Machine\<close> (\<open>main.rs\<close>, \<open>run_vcpu\<close>): the shared state and one iteration of the vCPU loop.
    \<open>Ax_Threads\<close> has the interleaving of the threads as a step relation, threads that hang or wait for one that does
    among its states, its invariant and how it stops;
    \<open>Ax_Dispatch\<close> what an iteration means for the guest.
  \<^item> \<open>Ax_Mutex\<close>: threads with Rust mutexes, guards, poisoning and panics, as a step relation over lock skeletons
    and as an executable scheduler; the locale \<open>lock_discipline\<close> derives freedom from deadlock, exclusive
    access and containment of panics from an order on the mutexes. \<open>Ax_Locks\<close> has the skeletons of
    \<open>run_vcpu\<close> and of both devices, with every \<open>lock()\<close> and \<open>try_lock()\<close> they call, and the interpretation.
  \<^item> \<open>Ax_Startup\<close> (\<open>main.rs\<close>, \<open>main\<close>): the start-up sequence up to the threads.
  \<^item> This theory: the properties of the running system, from boot to shutdown.

  \<^bold>\<open>How programs are modelled.\<close> A function that can panic returns a value of \<open>'a exec\<close>, \<open>Abort\<close> with a
  reason or \<open>Done\<close>; undefined behaviour is a reason of its own. A \<open>Result\<close> is a sum, its errors on the
  left. A loop that may run forever is \<open>exec_loop\<close>, whose value \<open>None\<close> is non-termination, so that
  theorems which say that an operation returns say that its value is \<open>Some\<close>. There is no fuel and
  no bound on inputs. Machine integers are words of their width; \<open>+\<close>, \<open>-\<close> and \<open>*\<close> of the source are
  \<open>uadd\<close>, \<open>usub\<close> and \<open>umul\<close>, which panic or wrap according to a flag \<open>oc\<close> for the build profile (overflow
  checks of a debug build, or none), and the theorems hold for both values unless they name one.
  What the host provides is a parameter: files, the TAP device, \<open>mmap\<close>, KVM and its registers, the
  interrupt lines. What is relied on of them is a locale (\<open>regular_file\<close>, \<open>packet_tap\<close>, \<open>vcpu_regs\<close>,
  \<open>kvm_host\<close>) with an interpretation on a concrete instance, which the witnesses use: a file is read completely
  up to the limit of one call on Linux, a TAP device may refuse a packet or have none, KVM accepts the calls of the
  start-up sequence in their order and system registers that are valid. The locale
  \<open>guest_device\<close> is the machine's view of a device and is interpreted on both of them.

  \<^bold>\<open>What is shown.\<close> For the block device: a request with one data buffer moves exactly the addressed bytes, a notification
  completes every queued request, and the device refines an abstract disk over any sequence of register
  writes and batches; its registers keep their invariant; with overflow checks it cannot be made to leave guest memory, and without them it can.
  For the network device: transmission and reception, the refinement of a link with two ordered channels
  that says which packets are lost, invariant, reset, memory safety. For the boot
  path: ACPI tables that can be followed, a loaded kernel, a consistent processor state, and that
  these do not overwrite each other. For both devices beside a running guest: safety and invariants
  under any stores, and the behaviour of the isolated handler when the guest leaves the queue alone,
  which is what its driver promises. For the running machine: an invariant over all interleavings and
  panics, a bound on the steps of every thread after a stop request and when \<open>main\<close> can and cannot return, the delivery of interrupts; for its mutexes, that no
  threads wait for each other in a circle, that shared data has one user at a time, that the guest runs with
  no lock held, and that the panic of a thread never reaches another through a poisoned field of a device. For the counters:
  independence of the interleaving, the derived percentages, and a final report that can be read back. Several theorems state precisely what
  goes wrong on inputs that the code does not handle: cyclic chains, rings outside memory, queues of
  size zero, requests with scattered data, failed requests, a driver that never stops sending, lost interrupts, exits counted twice, memory over the device windows.

  \<^bold>\<open>Granularity.\<close> In \<open>Ax_Machine\<close> and \<open>Ax_Threads\<close> a handler runs under the locks it takes and is one step
  of its thread, and the mutexes inside the devices are plain fields; that their locking neither deadlocks
  nor panics is shown in \<open>Ax_Locks\<close>, where every acquisition and release is a step of its own and the data
  is left out. Threads interleave between the check of the stop flag, the poll, and the run of the processor with the
  handling of its exit. A step that does not return leaves its thread in a state of its own, with the locks that it holds;
  another thread that needs such a lock is blocked for good, and the others go on. The guest is
  not stopped by the locks: it can change memory between any two steps, and within a step before every
  byte that a handler reads or writes (\<open>guest_env\<close>, a function of the time and the contents). A
  read that races with a store of the guest therefore gives the old or the new byte. A panic leaves
  arbitrary contents in the memory and the device it was working on.

  \<^bold>\<open>Not modelled.\<close> Argument parsing (\<open>clap\<close>), logging and banners, which have no effect on the
  machine (the locks of the logger among them); memory accesses of the host that are
  weaker than a sequence of bytes; the unit tests and \<open>test_tap.rs\<close>, a manual test program.
\<close>

section \<open>From boot to shutdown\<close>

lemma booted_machine:
  assumes "axvm_main oc P c = Done (Vm_Running k vs (s, ts))"
  shows "machine_inv (mc_mem s) s" and "thread_states_ok s ts" and "ts = replicate (length vs) Ready"
    and "\<not> mc_stop s"
proof -
  obtain m n mt where s: "s = new_machine m (vb_new (pf_file P) (disk_path c)) n mt" "ts = replicate (length vs) Ready"
    and n: "create_net (pf_tap P) = Done n"
    using assms by (auto simp: axvm_main_def boot_vm_def Let_def split: sum.splits)
  have "net_inv n" using n by (auto simp: create_net_def net_inv_new split: sum.splits)
  with s show "machine_inv (mc_mem s) s" by (simp add: machine_inv_def new_machine_def blk_inv_new)
  show "thread_states_ok s ts" using s by (simp add: thread_states_ok_def new_machine_def)
  show "ts = replicate (length vs) Ready" by (rule s(2))
  show "\<not> mc_stop s" using s(1) by (simp add: new_machine_def)
qed

text \<open>
  In a machine that is to stop, a thread that is not stuck and not in the poll can be brought to its end: before the
  check it ends by itself, and in \<open>vcpu.run()\<close> when that call returns with an interruption.
\<close>

definition stopped_thread :: "thread \<Rightarrow> thread" where
  "stopped_thread t = (if t = Panicked then Panicked else Stopped)"

lemma thread_can_stop:
  assumes "mc_stop s" and "i < length ts" and "\<not> stuck (ts ! i)" and "ts ! i \<noteq> Polling"
  shows "ts[i := stopped_thread (ts ! i)] = ts \<or> sys_step oc H (Some i) (s, ts) (s, ts[i := stopped_thread (ts ! i)])"
proof (cases "ts ! i")
  case Ready
  with assms show ?thesis by (simp add: stopped_thread_def ready_thread_ends)
next
  case Running
  with assms show ?thesis by (simp add: stopped_thread_def interrupted_thread_stops)
qed (use assms list_update_id [of ts i] in \<open>simp_all add: stopped_thread_def stuck_def\<close>)

lemma all_threads_can_stop:
  assumes "mc_stop s" and "\<not> list_ex stuck ts" and "Polling \<notin> set ts" and "k \<le> length ts"
  shows "\<exists>js. sys_exec oc H (s, ts) js (s, map stopped_thread (take k ts) @ drop k ts)"
  using assms(4)
proof (induction k)
  case 0
  show ?case by (auto intro: exec_none)
next
  case (Suc k)
  let ?us = "map stopped_thread (take k ts) @ drop k ts"
  obtain js where js: "sys_exec oc H (s, ts) js (s, ?us)" using Suc by auto
  have k: "k < length ts" using Suc.prems by simp
  then have u: "?us ! k = ts ! k" "?us[k := stopped_thread (ts ! k)] = map stopped_thread (take (Suc k) ts) @ drop (Suc k) ts"
    by (simp_all add: nth_append list_update_append take_Suc_conv_app_nth flip: Cons_nth_drop_Suc)
  have "\<not> stuck (?us ! k)" "?us ! k \<noteq> Polling" unfolding u(1) using assms(2,3) k by (metis list_ex_iff nth_mem)+
  with thread_can_stop [OF assms(1), of k ?us oc H] k u exec_more [OF js, of "Some k"] js show ?case by auto
qed

text \<open>A stuck thread keeps \<open>main\<close> from returning.\<close>

lemma stuck_never_joined:
  assumes "list_ex stuck ts" and "sys_exec oc H (s, ts) js (s', ts')"
  shows "\<not> joined ts'"
proof -
  obtain i where i: "i < length ts" "stuck (ts ! i)" using assms(1) by (auto simp: list_ex_length)
  then have "thread_weight (ts ! i) = 0" by (auto simp: stuck_def)
  with exec_final [OF assms(2), of i] exec_label_bound [OF assms(2)] i show ?thesis
    by (auto simp: joined_def list_all_length stuck_def)
qed

section \<open>System properties\<close>

text \<open>
  C4. What holds of the running machine, whatever the guest executes, whatever the host answers and
  however the threads are scheduled, panics of threads included: guest memory keeps its size and its
  mapping, the interrupt status of the block device stays 0 or 1, the network device keeps its
  invariant as long as its lock is not poisoned, there is one thread for each processor, a panicked
  thread has left the memory lock poisoned, and a thread has only ended when the machine is to stop.
\<close>

theorem machine_invariant:
  assumes "axvm_main oc P c = Done (Vm_Running k vs (s0, ts0))" and "sys_exec oc H (s0, ts0) ls (s, ts)"
  shows "same_shape (mc_mem s0) (mc_mem s) \<and> blk_inv (mc_blk s) \<and> (\<not> mc_net_poisoned s \<longrightarrow> net_inv (mc_net s)) \<and>
    length ts = length vs \<and> (Panicked \<in> set ts \<longrightarrow> mc_mem_poisoned s) \<and> (Stopped \<in> set ts \<longrightarrow> mc_stop s)"
  using sys_exec_inv [OF assms(2), of "mc_mem s0"] booted_machine [OF assms(1)]
  by (auto simp: machine_inv_def thread_states_ok_def)

definition quiet_host :: "(image, wire) host" where
  "quiet_host = \<lparr>h_file = image_ops Map.empty, h_tap = wire_ops [], h_irq_ok = (\<lambda>_ _. True)\<rparr>"

lemma first_steps:
  assumes "axvm_main oc P c = Done (Vm_Running k vs (s0, [Ready, Ready]))"
  shows "sys_exec oc H (s0, [Ready, Ready]) [1, 1] (count_metric record_vcpu_run s0, [Ready, Running])"
proof -
  let ?s = "count_metric record_vcpu_run s0"
  have "sys_step oc H (Some 1) (s0, [Ready, Ready]) (?s, [Ready, Ready][1 := Polling])"
    using booted_machine(4) [OF assms] by (intro check_go) (simp_all add: loop_check_def)
  moreover have "sys_step oc H (Some 1) (?s, [Ready, Polling]) (?s, [Ready, Polling][1 := Running])"
    by (rule poll [where mf = True and nf = True and E = quiet]) (simp_all add: try_locks_def mem_held_def net_held_def loop_poll_def)
  ultimately show ?thesis using exec_more [OF exec_more [OF exec_none]] by fastforce
qed

theorem machine_invariant_witness:
  "\<exists>k vs s0 s. axvm_main True small_host (config_default\<lparr>vcpus := 2\<rparr>) = Done (Vm_Running k vs (s0, [Ready, Ready])) \<and>
     sys_exec True quiet_host (s0, [Ready, Ready]) [1, 1] (s, [Ready, Running]) \<and> same_shape (mc_mem s0) (mc_mem s) \<and>
     blk_inv (mc_blk s) \<and> length vs = 2"
proof -
  obtain k vs s0 where b: "axvm_main True small_host (config_default\<lparr>vcpus := 2\<rparr>) =
      Done (Vm_Running k vs (s0, [Ready, Ready]))" and "length vs = 2"
    by (rule small_host_boots)
  with machine_invariant [OF b first_steps [OF b, of quiet_host]] first_steps [OF b, of quiet_host] show ?thesis by blast
qed

text \<open>
  C12. Shutdown. Once the machine is to stop, whether on the user's request, the guest's shutdown or a
  fatal error, it stays so, and whatever else happens: a thread takes at most one more step if it is before the check of
  the flag, two if it is in \<open>vcpu.run()\<close> or handling its exit, three if it is past the check and on its way
  there; no thread passes the check again, and none enters \<open>vcpu.run()\<close> but one that was past the check when the flag
  was set, once; a thread before the check can only end; console output is only added to. The program does not
  make \<open>vcpu.run()\<close> return: a thread that takes no step stays where it is. When no thread hangs in an endless loop or waits
  for the lock of one that does, and none is on its way to \<open>vcpu.run()\<close>, all that have not panicked can be brought to
  their end by KVM returning from it, so that \<open>main\<close>, which waits for them, can return; when a thread hangs, or
  waits for one that does, \<open>main\<close> never returns.
\<close>

theorem shutdown_bounded:
  assumes "axvm_main oc P c = Done (Vm_Running k vs (s0, ts0))" and "sys_exec oc H (s0, ts0) ls (s, ts)"
    and "mc_stop s" and "sys_exec oc H (s, ts) js (s', ts')"
  shows "mc_stop s' \<and> prefix (mc_out s) (mc_out s') \<and> set js \<subseteq> {..<length vs} \<and>
    (\<forall>i < length vs. count_list js i \<le> (case ts ! i of Polling \<Rightarrow> 3 | Running \<Rightarrow> 2 | Ready \<Rightarrow> 1 | _ \<Rightarrow> 0)) \<and>
    (\<forall>i < length vs. ts' ! i = Polling \<longrightarrow> ts ! i = Polling \<and> i \<notin> set js) \<and>
    (\<forall>i < length vs. ts' ! i = Running \<longrightarrow> ts ! i = Polling \<or> ts ! i = Running \<and> i \<notin> set js) \<and>
    (\<forall>i < length vs. ts' ! i = Ready \<longrightarrow> (\<forall>c. sys_step oc H (Some i) (s', ts') c \<longleftrightarrow> c = (s', ts'[i := Stopped]))) \<and>
    (\<forall>i < length vs. i \<notin> set js \<longrightarrow> ts' ! i = ts ! i) \<and>
    (if list_ex stuck ts' then \<forall>js2 s2 ts2. sys_exec oc H (s', ts') js2 (s2, ts2) \<longrightarrow> \<not> joined ts2
     else Polling \<notin> set ts' \<longrightarrow> (\<exists>js2 ts2. sys_exec oc H (s', ts') js2 (s', ts2) \<and> joined ts2))"
proof -
  note b = booted_machine [OF assms(1)]
  have i: "machine_inv (mc_mem s0) s" "thread_states_ok s ts" "length ts = length vs"
    using sys_exec_inv [OF assms(2), of "mc_mem s0"] b by auto
  have i': "mc_stop s'" "length ts' = length vs" "prefix (mc_out s) (mc_out s')"
    using sys_exec_inv [OF assms(4), of "mc_mem s0"] i assms(3) by auto
  have w: "count_list js i + thread_weight (ts' ! i) \<le> thread_weight (ts ! i)" for i
    using exec_stopped [OF assms(4), of "mc_mem s0" i] i(1,2) assms(3) by simp
  have weight: "thread_weight t = (case t of Polling \<Rightarrow> 3 | Running \<Rightarrow> 2 | Ready \<Rightarrow> 1 | _ \<Rightarrow> 0)" for t by (cases t) simp_all
  have bound: "count_list js i \<le> (case ts ! i of Polling \<Rightarrow> 3 | Running \<Rightarrow> 2 | Ready \<Rightarrow> 1 | _ \<Rightarrow> 0)" for i
    using w [of i] by (simp add: weight [symmetric])
  have polling: "ts ! i = Polling \<and> i \<notin> set js" if "ts' ! i = Polling" for i
    using w [of i] that by (cases "ts ! i") (simp_all add: count_list_0_iff)
  have running: "ts ! i = Polling \<or> ts ! i = Running \<and> i \<notin> set js" if "ts' ! i = Running" for i
    using w [of i] that by (cases "ts ! i") (simp_all add: count_list_0_iff)
  have join: "joined (map stopped_thread ts')" by (auto simp: joined_def list_all_iff stopped_thread_def)
  have "\<exists>js2 ts2. sys_exec oc H (s', ts') js2 (s', ts2) \<and> joined ts2" if "\<not> list_ex stuck ts'" "Polling \<notin> set ts'"
    using all_threads_can_stop [OF i'(1) that, of "length ts'" oc H] join by auto
  then show ?thesis
    using i' bound polling running exec_label_bound [OF assms(4)] exec_idle [OF assms(4)] stuck_never_joined [of ts' oc H s']
      ready_thread_ends [OF i'(1), of _ ts' oc H] i(3) by auto
qed

text \<open>The user stops a machine whose second processor runs: three steps at most are left, and \<open>main\<close> can return.\<close>

theorem shutdown_bounded_witness:
  "\<exists>k vs s0 s. axvm_main True small_host (config_default\<lparr>vcpus := 2\<rparr>) = Done (Vm_Running k vs (s0, [Ready, Ready])) \<and>
     mc_stop s \<and> sys_exec True quiet_host (s0, [Ready, Ready]) [1, 1] (s, [Ready, Running]) \<and>
     (\<forall>js s' ts'. sys_exec True quiet_host (s, [Ready, Running]) js (s', ts') \<longrightarrow>
        count_list js 0 \<le> 1 \<and> count_list js 1 \<le> 2 \<and> mc_stop s') \<and>
     (\<exists>js s' ts'. sys_exec True quiet_host (s, [Ready, Running]) js (s', ts') \<and> joined ts')"
proof -
  obtain k vs s0 where b: "axvm_main True small_host (config_default\<lparr>vcpus := 2\<rparr>) =
      Done (Vm_Running k vs (s0, [Ready, Ready]))" and l: "length vs = 2"
    by (rule small_host_boots)
  define s where "s = (count_metric record_vcpu_run s0)\<lparr>mc_stop := True\<rparr>"
  have s: "mc_stop s" by (simp add: s_def)
  have e: "sys_exec True quiet_host (s0, [Ready, Ready]) [1, 1] (s, [Ready, Running])"
    using exec_more [OF first_steps [OF b] ctrl_c] by (simp add: s_def)
  note all = shutdown_bounded [OF b e s]
  have "count_list js 0 \<le> 1 \<and> count_list js 1 \<le> 2 \<and> mc_stop s'"
    if "sys_exec True quiet_host (s, [Ready, Running]) js (s', ts')" for js s' ts'
    using all [OF that] l by (auto dest: spec [of _ 0] spec [of _ 1])
  moreover have "\<exists>js s' ts'. sys_exec True quiet_host (s, [Ready, Running]) js (s', ts') \<and> joined ts'"
    using all [OF exec_none] by (auto simp: stuck_def)
  ultimately show ?thesis using b s e by blast
qed

text \<open>
  C5. Memory safety of the whole machine in a build with overflow checks. In every state that the booted
  machine can reach, whatever the guest has put into its memory and its device registers, whatever its
  other processors store while the handler runs and whatever KVM reports, handling the exit of a processor never accesses memory outside the mapping, and neither
  does the poll, on its own or after the check at the top of the loop, as long as the used rings of the network device are at aligned
  addresses.
\<close>

theorem checked_machine_memory_safe:
  assumes "axvm_main True P c = Done (Vm_Running k vs (s0, ts0))" and "pf_mmap P 0 = None"
    and "reads_fit (h_file H)" and "tap_reads_fit (h_tap H)" and "sys_exec True H (s0, ts0) ls (s, ts)"
  shows "loop_run E True H r s \<noteq> Some (Abort Undefined_Behaviour) \<and>
    (net_aligned s \<longrightarrow> loop_poll E True H i mf nf s \<noteq> Some (Abort Undefined_Behaviour) \<and>
       loop_top E True H i mf nf s \<noteq> Some (Abort Undefined_Behaviour))"
proof -
  have inv: "machine_inv (mc_mem s0) s"
    using sys_exec_inv [OF assms(5), of "mc_mem s0"] booted_machine [OF assms(1)] by simp
  then have "gm_wf (mc_mem s)"
    using booted_memory_wf [OF assms(1,2)] same_shape_wf by (auto simp: machine_inv_def)
  with loop_run_ub_free [OF _ assms(3)] loop_poll_ub_free [OF assms(4)] loop_top_ub_free [OF assms(4)] inv show ?thesis
    by (simp add: machine_inv_def run_ub_free_def)
qed

theorem checked_machine_memory_safe_witness:
  "\<exists>k vs s0 s. axvm_main True small_host (config_default\<lparr>vcpus := 2\<rparr>) = Done (Vm_Running k vs (s0, [Ready, Ready])) \<and>
     sys_exec True quiet_host (s0, [Ready, Ready]) [1, 1] (s, [Ready, Running]) \<and>
     (\<forall>E addr data. loop_run E True quiet_host (Run_Exit (MmioWrite addr data)) s \<noteq> Some (Abort Undefined_Behaviour))"
proof -
  obtain k vs s0 where b: "axvm_main True small_host (config_default\<lparr>vcpus := 2\<rparr>) =
      Done (Vm_Running k vs (s0, [Ready, Ready]))"
    by (rule small_host_boots)
  have h: "pf_mmap small_host 0 = None" "reads_fit (h_file quiet_host)" "tap_reads_fit (h_tap quiet_host)"
    by (simp_all add: small_host_def quiet_host_def img.fits wire.fits)
  from checked_machine_memory_safe [OF b h first_steps [OF b]] first_steps [OF b, of quiet_host] b show ?thesis by blast
qed

end
